(* ===== verification/Prelude.thy ===== *)
theory Prelude
  imports Main "HOL-Library.Word" "HOL-Library.Signed_Division"
begin

unbundle bit_operations_syntax

text \<open>
  Shared vocabulary of the development: the Rust integer types as machine words, the result
  type of fallible and panicking Rust functions, the checked, wrapping and panicking integer
  operations of the Rust standard library that the interpreter uses, and the generic lemmas on
  words and lists that the component theories rely on.

  The target is a 64-bit host: \<open>usize\<close> and \<open>isize\<close> are 64 bits wide. The workspace builds every
  profile with overflow checks (the dev profile by default, the release profile and the profiles
  that inherit from it by \<open>overflow-checks = true\<close> in \<open>Cargo.toml\<close>), so the plain arithmetic and
  shift operators of Rust panic where they overflow.
\<close>

section \<open>Rust integers and results\<close>

type_synonym i8 = "8 word"
type_synonym u8 = "8 word"
type_synonym i16 = "16 word"
type_synonym u16 = "16 word"
type_synonym i32 = "32 word"
type_synonym u32 = "32 word"
type_synonym i64 = "64 word"
type_synonym u64 = "64 word"
type_synonym isize = "64 word"
type_synonym usize = "64 word"

text \<open>
  \<open>Result<T, E>\<close> of a function that may also panic. A panic aborts the interpreter: it is
  neither a managed exception nor a host error value.
\<close>

datatype ('e, 'a) outcome = Ok 'a | Err 'e | Panic

fun map_outcome :: "('a \<Rightarrow> 'b) \<Rightarrow> ('e, 'a) outcome \<Rightarrow> ('e, 'b) outcome" where
  "map_outcome f (Ok a) = Ok (f a)"
| "map_outcome f (Err e) = Err e"
| "map_outcome f Panic = Panic"

fun map_err :: "('e \<Rightarrow> 'f) \<Rightarrow> ('e, 'a) outcome \<Rightarrow> ('f, 'a) outcome" where
  "map_err f (Ok a) = Ok a"
| "map_err f (Err e) = Err (f e)"
| "map_err f Panic = Panic"

fun and_then :: "('e, 'a) outcome \<Rightarrow> ('a \<Rightarrow> ('e, 'b) outcome) \<Rightarrow> ('e, 'b) outcome" where
  "and_then (Ok a) f = f a"
| "and_then (Err e) f = Err e"
| "and_then Panic f = Panic"

fun ok_or :: "'e \<Rightarrow> 'a option \<Rightarrow> ('e, 'a) outcome" where
  "ok_or e None = Err e"
| "ok_or e (Some a) = Ok a"

datatype ordering = Less | Equal | Greater

fun reverse_ordering :: "ordering \<Rightarrow> ordering" where
  "reverse_ordering Less = Greater"
| "reverse_ordering Equal = Equal"
| "reverse_ordering Greater = Less"

definition ord_of :: "'a::linorder \<Rightarrow> 'a \<Rightarrow> ordering" where
  "ord_of a b = (if a < b then Less else if a = b then Equal else Greater)"

section \<open>Collections of rewrite rules\<close>

named_theorems outcome_simps \<open>inversion of result combinators\<close>
named_theorems cmp_simps \<open>facts on three-way comparison\<close>

lemma map_outcome_eq_Ok [outcome_simps]:
  "map_outcome f r = Ok b \<longleftrightarrow> (\<exists>a. r = Ok a \<and> b = f a)"
  by (cases r) auto

lemma map_outcome_eq_Err [outcome_simps]: "map_outcome f r = Err e \<longleftrightarrow> r = Err e"
  by (cases r) auto

lemma map_outcome_eq_Panic [outcome_simps]: "map_outcome f r = Panic \<longleftrightarrow> r = Panic"
  by (cases r) auto

lemma map_err_eq_Ok [outcome_simps]: "map_err f r = Ok b \<longleftrightarrow> r = Ok b"
  by (cases r) auto

lemma map_err_eq_Err [outcome_simps]: "map_err f r = Err e \<longleftrightarrow> (\<exists>d. r = Err d \<and> e = f d)"
  by (cases r) auto

lemma map_err_eq_Panic [outcome_simps]: "map_err f r = Panic \<longleftrightarrow> r = Panic"
  by (cases r) auto

lemma ok_or_eq_Ok [outcome_simps]: "ok_or e x = Ok b \<longleftrightarrow> x = Some b"
  by (cases x) auto

lemma ok_or_eq_Err [outcome_simps]: "ok_or e x = Err d \<longleftrightarrow> x = None \<and> d = e"
  by (cases x) auto

lemma ok_or_not_Panic [outcome_simps]: "ok_or e x = Panic \<longleftrightarrow> False"
  by (cases x) auto

lemma ord_of_refl [simp]: "ord_of a a = Equal"
  by (simp add: ord_of_def)

lemma ord_of_eq_Equal [cmp_simps]: "ord_of a b = Equal \<longleftrightarrow> a = b"
  by (auto simp: ord_of_def)

lemma ord_of_eq_Less [cmp_simps]: "ord_of a b = Less \<longleftrightarrow> a < b"
  by (auto simp: ord_of_def)

lemma ord_of_eq_Greater [cmp_simps]: "ord_of a b = Greater \<longleftrightarrow> b < a"
  by (auto simp: ord_of_def)

lemma reverse_ord_of [cmp_simps]: "reverse_ordering (ord_of a b) = ord_of b a"
  by (auto simp: ord_of_def)

lemma reverse_reverse_ordering [simp]: "reverse_ordering (reverse_ordering x) = x"
  by (cases x) auto

section \<open>Checked, panicking and saturating integer operations\<close>

text \<open>\<open>T::try_from\<close> on an exact integer: the value when the type can hold it.\<close>

definition fits_signed :: "nat \<Rightarrow> int \<Rightarrow> bool" where
  "fits_signed w v \<longleftrightarrow> - (2 ^ (w - 1)) \<le> v \<and> v < 2 ^ (w - 1)"

definition fits_unsigned :: "nat \<Rightarrow> int \<Rightarrow> bool" where
  "fits_unsigned w v \<longleftrightarrow> 0 \<le> v \<and> v < 2 ^ w"

definition try_signed :: "int \<Rightarrow> 'a::len word option" where
  "try_signed v = (if fits_signed LENGTH('a) v then Some (word_of_int v) else None)"

definition try_unsigned :: "int \<Rightarrow> 'a::len word option" where
  "try_unsigned v = (if fits_unsigned LENGTH('a) v then Some (word_of_int v) else None)"

lemma sint_word_of_int_fits:
  assumes "fits_signed LENGTH('a) v"
  shows "sint (word_of_int v :: 'a::len word) = v"
  unfolding sint_sbintrunc'
  by (rule signed_take_bit_int_eq_self) (use assms in \<open>simp_all add: fits_signed_def\<close>)

lemma uint_word_of_int_fits:
  "fits_unsigned LENGTH('a) v \<Longrightarrow> uint (word_of_int v :: 'a::len word) = v"
  by (simp add: fits_unsigned_def uint_word_of_int)

lemma sint_try_signed: "try_signed v = Some w \<Longrightarrow> sint w = v"
  by (auto simp: try_signed_def sint_word_of_int_fits split: if_splits)

lemma uint_try_unsigned: "try_unsigned v = Some w \<Longrightarrow> uint w = v"
  by (auto simp: try_unsigned_def uint_word_of_int_fits split: if_splits)

lemma try_signed_eq_None: "(try_signed v :: 'a::len word option) = None \<longleftrightarrow> \<not> fits_signed LENGTH('a) v"
  by (simp add: try_signed_def)

lemma try_unsigned_eq_None:
  "(try_unsigned v :: 'a::len word option) = None \<longleftrightarrow> \<not> fits_unsigned LENGTH('a) v"
  by (simp add: try_unsigned_def)

lemma fits_signed_sint [simp]: "fits_signed LENGTH('a) (sint (w :: 'a::len word))"
  using sint_ge [of w] sint_lt [of w] by (simp add: fits_signed_def)

lemma fits_unsigned_uint [simp]: "fits_unsigned LENGTH('a) (uint (w :: 'a::len word))"
  by (simp add: fits_unsigned_def)

text \<open>The integer operators that panic: division by zero or past the range, shifts past the width.\<close>

definition sdiv_panic :: "'a::len word \<Rightarrow> 'a word \<Rightarrow> ('e, 'a word) outcome" where
  "sdiv_panic a b =
     (if b = 0 \<or> \<not> fits_signed LENGTH('a) (sint a sdiv sint b) then Panic
      else Ok (word_of_int (sint a sdiv sint b)))"

definition smod_panic :: "'a::len word \<Rightarrow> 'a word \<Rightarrow> ('e, 'a word) outcome" where
  "smod_panic a b =
     (if b = 0 \<or> \<not> fits_signed LENGTH('a) (sint a sdiv sint b) then Panic
      else Ok (word_of_int (sint a smod sint b)))"

definition udiv_panic :: "'a::len word \<Rightarrow> 'a word \<Rightarrow> ('e, 'a word) outcome" where
  "udiv_panic a b = (if b = 0 then Panic else Ok (a div b))"

definition umod_panic :: "'a::len word \<Rightarrow> 'a word \<Rightarrow> ('e, 'a word) outcome" where
  "umod_panic a b = (if b = 0 then Panic else Ok (a mod b))"

definition shl_panic :: "'a::len word \<Rightarrow> u32 \<Rightarrow> ('e, 'a word) outcome" where
  "shl_panic a n = (if unat n < LENGTH('a) then Ok (push_bit (unat n) a) else Panic)"

definition sshr_panic :: "'a::len word \<Rightarrow> u32 \<Rightarrow> ('e, 'a word) outcome" where
  "sshr_panic a n = (if unat n < LENGTH('a) then Ok (signed_drop_bit (unat n) a) else Panic)"

definition ushr_panic :: "'a::len word \<Rightarrow> u32 \<Rightarrow> ('e, 'a word) outcome" where
  "ushr_panic a n = (if unat n < LENGTH('a) then Ok (drop_bit (unat n) a) else Panic)"

definition neg_panic :: "'a::len word \<Rightarrow> ('e, 'a word) outcome" where
  "neg_panic a = (if fits_signed LENGTH('a) (- sint a) then Ok (- a) else Panic)"

lemma word_of_int_neg_sint [simp]: "word_of_int (- sint a) = - (a :: 'a::len word)"
  by (simp flip: wi_hom_neg)

lemma sdiv_panic_Ok: "sdiv_panic a b = Ok c \<Longrightarrow> sint c = sint a sdiv sint b"
  by (auto simp: sdiv_panic_def sint_word_of_int_fits split: if_splits)

lemma word_less_succ: "(w :: 'a::len word) \<noteq> - 1 \<Longrightarrow> w < w + 1"
proof -
  assume "w \<noteq> - 1"
  then have "uint w \<noteq> 2 ^ LENGTH('a) - 1"
    by (metis mask_eq_exp_minus_1 unsigned_minus_1_eq_mask word_uint_eq_iff)
  moreover have "uint w < 2 ^ LENGTH('a)" by simp
  ultimately have "uint w + 1 < 2 ^ LENGTH('a)" by linarith
  then show ?thesis
    by (simp add: word_less_def uint_word_ariths(1) mod_pos_pos_trivial)
qed

section \<open>Sizes and offsets\<close>

text \<open>
  Byte sizes, offsets and counts of type \<open>usize\<close> are natural numbers below \<open>2 ^ 64\<close>; the plain
  operators panic when the exact result does not fit, the saturating ones clamp it.
\<close>

definition usize_max :: nat where
  "usize_max = 2 ^ 64 - 1"

definition usize_of :: "nat \<Rightarrow> ('e, nat) outcome" where
  "usize_of n = (if n \<le> usize_max then Ok n else Panic)"

definition uadd :: "nat \<Rightarrow> nat \<Rightarrow> ('e, nat) outcome" where
  "uadd a b = usize_of (a + b)"

definition usub :: "nat \<Rightarrow> nat \<Rightarrow> ('e, nat) outcome" where
  "usub a b = (if b \<le> a then Ok (a - b) else Panic)"

definition umul :: "nat \<Rightarrow> nat \<Rightarrow> ('e, nat) outcome" where
  "umul a b = usize_of (a * b)"

definition usat :: "nat \<Rightarrow> nat" where
  "usat n = min n usize_max"

lemma usize_of_eq_Ok [outcome_simps]: "usize_of n = Ok m \<longleftrightarrow> m = n \<and> n \<le> usize_max"
  by (auto simp: usize_of_def)

lemma usize_of_neq_Err [outcome_simps]: "usize_of n = Err e \<longleftrightarrow> False"
  by (simp add: usize_of_def)

lemma usize_of_eq_Panic [outcome_simps]: "usize_of n = Panic \<longleftrightarrow> usize_max < n"
  by (auto simp: usize_of_def)

lemma usub_eq_Ok [outcome_simps]: "usub a b = Ok m \<longleftrightarrow> b \<le> a \<and> m = a - b"
  by (auto simp: usub_def)

lemma usize_max_pos: "0 < usize_max"
  by (simp add: usize_max_def)

lemmas usize_ops = uadd_def umul_def

section \<open>Sequencing fallible steps\<close>

lemma and_then_eq_Ok [outcome_simps]:
  "and_then r f = Ok b \<longleftrightarrow> (\<exists>a. r = Ok a \<and> f a = Ok b)"
  by (cases r) auto

lemma and_then_eq_Err [outcome_simps]:
  "and_then r f = Err e \<longleftrightarrow> r = Err e \<or> (\<exists>a. r = Ok a \<and> f a = Err e)"
  by (cases r) auto

lemma and_then_eq_Panic [outcome_simps]:
  "and_then r f = Panic \<longleftrightarrow> r = Panic \<or> (\<exists>a. r = Ok a \<and> f a = Panic)"
  by (cases r) auto

lemma and_then_cong [fundef_cong]:
  assumes "r = r'" and "\<And>a. r' = Ok a \<Longrightarrow> f a = g a"
  shows "and_then r f = and_then r' g"
  using assms by (cases r') auto

text \<open>A \<open>for\<close> loop whose body may return early with an error or panic.\<close>

fun fold_outcome :: "('a \<Rightarrow> 's \<Rightarrow> ('e, 's) outcome) \<Rightarrow> 'a list \<Rightarrow> 's \<Rightarrow> ('e, 's) outcome" where
  "fold_outcome f [] s = Ok s"
| "fold_outcome f (x # xs) s = and_then (f x s) (fold_outcome f xs)"

lemma fold_outcome_cong [fundef_cong]:
  assumes "xs = ys" and "s = t" and "\<And>x s. x \<in> set ys \<Longrightarrow> f x s = g x s"
  shows "fold_outcome f xs s = fold_outcome g ys t"
proof -
  have "fold_outcome f zs s = fold_outcome g zs s"
    if "\<And>x s. x \<in> set zs \<Longrightarrow> f x s = g x s" for zs s
    using that by (induction zs arbitrary: s) (auto intro!: and_then_cong)
  with assms show ?thesis by blast
qed

lemma fold_outcome_append:
  "fold_outcome f (xs @ ys) s = and_then (fold_outcome f xs s) (fold_outcome f ys)"
proof (induction xs arbitrary: s)
  case (Cons x xs)
  then show ?case by (cases "f x s") auto
qed simp

lemma fold_outcome_invariant:
  assumes "fold_outcome f xs s = Ok t" and "I s"
    and "\<And>x s t. x \<in> set xs \<Longrightarrow> I s \<Longrightarrow> f x s = Ok t \<Longrightarrow> I t"
  shows "I t"
  using assms
proof (induction xs arbitrary: s)
  case (Cons x xs)
  obtain u where u: "f x s = Ok u" "fold_outcome f xs u = Ok t"
    using Cons.prems(1) by (auto simp: outcome_simps)
  have "I u" by (rule Cons.prems(3) [OF _ Cons.prems(2) u(1)]) simp
  then show ?case
    by (rule Cons.IH [OF u(2)]) (rule Cons.prems(3), auto)
qed simp

text \<open>A loop that emits a list of items per element, stopping at the first error or panic.\<close>

fun collect_outcome :: "('a \<Rightarrow> ('e, 'b list) outcome) \<Rightarrow> 'a list \<Rightarrow> ('e, 'b list) outcome" where
  "collect_outcome h [] = Ok []"
| "collect_outcome h (x # xs) =
     and_then (h x) (\<lambda>ys. map_outcome ((@) ys) (collect_outcome h xs))"

lemma collect_outcome_cong [fundef_cong]:
  assumes "xs = ys" and "\<And>x. x \<in> set ys \<Longrightarrow> h x = g x"
  shows "collect_outcome h xs = collect_outcome g ys"
  using assms by (induction ys arbitrary: xs) (auto intro!: and_then_cong)

lemma set_collect_outcome:
  assumes "collect_outcome h xs = Ok r"
    and "\<And>x ys. x \<in> set xs \<Longrightarrow> h x = Ok ys \<Longrightarrow> set ys = S x"
  shows "set r = (\<Union>x \<in> set xs. S x)"
  using assms
proof (induction xs arbitrary: r)
  case (Cons x xs)
  obtain ys zs where y: "h x = Ok ys" "collect_outcome h xs = Ok zs" "r = ys @ zs"
    using Cons.prems(1) by (auto simp: outcome_simps)
  have "set zs = (\<Union>x \<in> set xs. S x)"
    by (rule Cons.IH [OF y(2)]) (rule Cons.prems(2), auto)
  moreover have "set ys = S x"
    by (rule Cons.prems(2) [OF _ y(1)]) simp
  ultimately show ?case using y(3) by simp
qed simp

text \<open>A loop each of whose steps adds a set of its own to what the state denotes.\<close>

lemma fold_outcome_union:
  assumes "fold_outcome f xs s = Ok t" and "I s"
    and "\<And>x s t. x \<in> set xs \<Longrightarrow> I s \<Longrightarrow> f x s = Ok t \<Longrightarrow> I t \<and> A t = A s \<union> S x"
  shows "I t" and "A t = A s \<union> (\<Union>x \<in> set xs. S x)"
proof -
  have "I t \<and> A t = A s \<union> (\<Union>x \<in> set xs. S x)"
    using assms
  proof (induction xs arbitrary: s)
    case (Cons x xs)
    obtain u where u: "f x s = Ok u" "fold_outcome f xs u = Ok t"
      using Cons.prems(1) by (auto simp: outcome_simps)
    have Iu: "I u \<and> A u = A s \<union> S x"
      by (rule Cons.prems(3) [OF _ Cons.prems(2) u(1)]) simp
    have "I t \<and> A t = A u \<union> (\<Union>x \<in> set xs. S x)"
      by (rule Cons.IH [OF u(2) conjunct1 [OF Iu]]) (rule Cons.prems(3), auto)
    with Iu show ?case by (auto simp: Un_assoc)
  qed simp
  then show "I t" and "A t = A s \<union> (\<Union>x \<in> set xs. S x)" by auto
qed

end
