(* ===== verification/Gc_Desc.thy ===== *)
theory Gc_Desc
  imports Prelude
begin

unbundle bit_operations_syntax

text \<open>
  The GC descriptor of \<open>dotnet-value/src/layout.rs\<close>: a bitmap of pointer-aligned reference slots
  and a sorted list of unaligned reference offsets. The abstraction \<open>gc_offsets\<close> reads a
  descriptor as the set of byte offsets it marks; the interface locale \<open>offset_set\<close> states what
  the layout code relies on, and its interpretation discharges it for \<open>GcDesc\<close>.
\<close>

section \<open>Definitions\<close>

definition object_ref_size :: nat where
  "object_ref_size = 8"

record gc_desc =
  bitmap :: "usize list"
  unaligned_offsets :: "nat list"

definition gc_desc_default :: gc_desc where
  "gc_desc_default = \<lparr>bitmap = [], unaligned_offsets = []\<rparr>"

definition bits_per_word :: nat where
  "bits_per_word = 64"

definition trailing_zeros :: "usize \<Rightarrow> nat" where
  "trailing_zeros w = length (takeWhile (\<lambda>i. \<not> bit w i) [0..<64])"

lemma trailing_zeros_bit:
  assumes "w \<noteq> 0"
  shows "bit w (trailing_zeros w)" and "trailing_zeros w < 64"
    and "\<And>i. i < trailing_zeros w \<Longrightarrow> \<not> bit w i"
proof -
  let ?P = "\<lambda>i. \<not> bit w i"
  let ?t = "trailing_zeros w"
  have ex: "\<exists>i\<in>set [0..<64]. \<not> ?P i"
  proof (rule ccontr)
    assume *: "\<not> (\<exists>i\<in>set [0..<64]. \<not> ?P i)"
    have "w = 0"
    proof (rule bit_word_eqI)
      fix n assume "n < LENGTH(64)"
      then have "n < 64" by simp
      with * show "bit w n = bit (0 :: usize) n" by (simp only: set_upt) auto
    qed
    with assms show False by simp
  qed
  have le: "?t \<le> 64" unfolding trailing_zeros_def
    by (rule order_trans [OF length_takeWhile_le]) simp
  have ne: "takeWhile ?P [0..<64] \<noteq> [0..<64]"
    using ex by (metis set_takeWhileD)
  show lt: "?t < 64"
  proof (rule ccontr)
    assume "\<not> ?t < 64"
    with le have "length (takeWhile ?P [0..<64]) = length [0..<64]" by (simp add: trailing_zeros_def)
    with ne show False by (metis takeWhile_eq_take take_all order_refl)
  qed
  show "bit w ?t"
    using nth_length_takeWhile [of ?P "[0..<64]"] lt by (simp add: trailing_zeros_def)
  show "\<not> bit w i" if "i < ?t" for i
  proof -
    have "takeWhile ?P [0..<64] ! i \<in> set (takeWhile ?P [0..<64])"
      using that by (simp add: trailing_zeros_def)
    moreover have "takeWhile ?P [0..<64] ! i = i"
      using that lt by (simp add: trailing_zeros_def takeWhile_nth)
    ultimately show ?thesis by (metis set_takeWhileD)
  qed
qed

lemma bit_clear_lowest:
  fixes w :: usize
  assumes "w \<noteq> 0"
  shows "bit (w AND (w - 1)) i \<longleftrightarrow> bit w i \<and> i \<noteq> trailing_zeros w"
proof -
  let ?t = "trailing_zeros w"
  let ?u = "w AND NOT (mask (Suc ?t))"
  note tz = trailing_zeros_bit [OF assms]
  have gt: "?t < n" if "bit w n" "n \<noteq> ?t" for n
    using that tz(3) [of n] by (auto simp: nat_neq_iff)
  have w: "w = ?u + 2 ^ ?t"
  proof -
    have "?u + push_bit ?t 1 = ?u OR push_bit ?t 1"
      by (rule disjunctive_add) (auto simp: bit_simps)
    also have "\<dots> = w"
      using tz gt by (auto intro!: bit_word_eqI simp: bit_simps less_Suc_eq not_less_eq)
    finally show ?thesis by (simp add: push_bit_eq_mult)
  qed
  have "w - 1 = ?u + mask ?t"
    by (subst w) (simp add: mask_eq_exp_minus_1)
  also have "\<dots> = ?u OR mask ?t"
    by (rule disjunctive_add) (auto simp: bit_simps)
  finally have "w - 1 = ?u OR mask ?t" .
  then show ?thesis
    using tz gt by (auto simp: bit_simps less_Suc_eq not_less_eq dest: bit_imp_le_length)
qed

function word_bit_indices :: "usize \<Rightarrow> nat list" where
  "word_bit_indices remaining =
     (if remaining = 0 then []
      else trailing_zeros remaining # word_bit_indices (remaining AND (remaining - 1)))"
  by auto
termination
proof (relation "measure unat")
  fix w :: usize
  assume "w \<noteq> 0"
  then have "w AND (w - 1) \<noteq> w"
    using bit_clear_lowest [of w "trailing_zeros w"] trailing_zeros_bit(1) [of w] by metis
  then have "w AND (w - 1) < w"
    by (simp add: order.strict_iff_order word_and_le2)
  then show "(w AND (w - 1), w) \<in> measure unat" by (simp add: word_less_nat_alt)
qed simp

declare word_bit_indices.simps [simp del]

definition for_each_word_index :: "gc_desc \<Rightarrow> nat list" where
  "for_each_word_index d =
     concat (map (\<lambda>(n, w). map (\<lambda>i. n * bits_per_word + i) (word_bit_indices w))
       (enumerate 0 (bitmap d)))"

definition resize_words :: "nat \<Rightarrow> usize list \<Rightarrow> usize list" where
  "resize_words n ws = take n ws @ replicate (n - length ws) 0"

definition gc_set :: "nat \<Rightarrow> gc_desc \<Rightarrow> gc_desc" where
  "gc_set word_index d =
     (let n = word_index div bits_per_word; i = word_index mod bits_per_word;
          ws = (if n \<ge> length (bitmap d) then resize_words (n + 1) (bitmap d) else bitmap d)
      in d\<lparr>bitmap := ws[n := ws ! n OR push_bit i 1]\<rparr>)"

definition set_offset :: "nat \<Rightarrow> gc_desc \<Rightarrow> gc_desc" where
  "set_offset byte_offset d =
     (if byte_offset mod object_ref_size = 0 then gc_set (byte_offset div object_ref_size) d
      else if byte_offset \<notin> set (unaligned_offsets d)
      then d\<lparr>unaligned_offsets := sort (unaligned_offsets d @ [byte_offset])\<rparr>
      else d)"

definition gc_merge :: "gc_desc \<Rightarrow> gc_desc \<Rightarrow> gc_desc" where
  "gc_merge d other =
     (let ws = (if length (bitmap other) > length (bitmap d)
                then resize_words (length (bitmap other)) (bitmap d) else bitmap d);
          ws' = fold (\<lambda>(n, w) ws. ws[n := ws ! n OR w]) (enumerate 0 (bitmap other)) ws;
          us = fold (\<lambda>u us. if u \<notin> set us then us @ [u] else us)
                 (unaligned_offsets other) (unaligned_offsets d)
      in \<lparr>bitmap = ws', unaligned_offsets = sort us\<rparr>)"

text \<open>
  \<open>GcDesc::trace\<close> as the byte offsets at which an object reference is read from a storage of
  the given length: the bitmap slots first, then the unaligned ones.
\<close>

definition gc_trace_offsets :: "gc_desc \<Rightarrow> nat \<Rightarrow> ('e, nat list) outcome" where
  "gc_trace_offsets d storage_len =
     (let visit = (\<lambda>off acc. and_then (uadd off object_ref_size)
            (\<lambda>e. Ok (if e \<le> storage_len then acc @ [off] else acc)))
      in and_then
           (fold_outcome (\<lambda>n acc. and_then (umul n object_ref_size) (\<lambda>off. visit off acc))
              (for_each_word_index d) [])
           (fold_outcome visit (unaligned_offsets d)))"

section \<open>The set of offsets a descriptor marks\<close>

definition gc_slots :: "gc_desc \<Rightarrow> nat set" where
  "gc_slots d = {n. n div bits_per_word < length (bitmap d) \<and>
                    bit (bitmap d ! (n div bits_per_word)) (n mod bits_per_word)}"

definition gc_offsets :: "gc_desc \<Rightarrow> nat set" where
  "gc_offsets d = (\<lambda>n. n * object_ref_size) ` gc_slots d \<union> set (unaligned_offsets d)"

definition gc_desc_invar :: "gc_desc \<Rightarrow> bool" where
  "gc_desc_invar d \<longleftrightarrow> sorted (unaligned_offsets d) \<and> distinct (unaligned_offsets d) \<and>
     (\<forall>u \<in> set (unaligned_offsets d). u mod object_ref_size \<noteq> 0)"

lemma set_word_bit_indices: "set (word_bit_indices w) = {i. bit w i}"
proof (induction w rule: word_bit_indices.induct)
  case (1 w)
  show ?case
  proof (cases "w = 0")
    case False
    have "set (word_bit_indices w) = insert (trailing_zeros w) {i. bit (w AND (w - 1)) i}"
      using 1 [OF False] False by (subst word_bit_indices.simps) simp
    also have "\<dots> = {i. bit w i}"
      using bit_clear_lowest [OF False] trailing_zeros_bit(1) [OF False] by auto
    finally show ?thesis .
  qed (simp add: word_bit_indices.simps)
qed

lemma sorted_word_bit_indices: "sorted_wrt (<) (word_bit_indices w)"
proof (induction w rule: word_bit_indices.induct)
  case (1 w)
  show ?case
  proof (cases "w = 0")
    case False
    have "trailing_zeros w < i" if "bit (w AND (w - 1)) i" for i
      using that trailing_zeros_bit(3) [OF False, of i]
      by (auto simp: bit_clear_lowest [OF False] nat_neq_iff)
    then show ?thesis
      using 1 [OF False] False
      by (subst word_bit_indices.simps) (simp add: set_word_bit_indices)
  qed (simp add: word_bit_indices.simps)
qed

lemma bit_usize_bound: "bit (w :: usize) i \<Longrightarrow> i < 64"
  using bit_imp_le_length [of w i] by simp

lemma set_for_each_word_index: "set (for_each_word_index d) = gc_slots d"
proof -
  have "n \<in> set (for_each_word_index d) \<longleftrightarrow> n \<in> gc_slots d" for n
  proof
    assume "n \<in> set (for_each_word_index d)"
    then obtain k i where "k < length (bitmap d)" "bit (bitmap d ! k) i" "n = k * 64 + i"
      by (auto simp: for_each_word_index_def bits_per_word_def in_set_enumerate_eq
            set_word_bit_indices)
    moreover from this have "i < 64" by (simp add: bit_usize_bound)
    ultimately show "n \<in> gc_slots d" by (simp add: gc_slots_def bits_per_word_def)
  next
    assume "n \<in> gc_slots d"
    moreover have "n = n div 64 * 64 + n mod 64" by simp
    ultimately show "n \<in> set (for_each_word_index d)"
      by (force simp: for_each_word_index_def gc_slots_def bits_per_word_def in_set_enumerate_eq
            set_word_bit_indices)
  qed
  then show ?thesis by blast
qed

lemma sorted_concat_words:
  "sorted_wrt (<) (concat (map (\<lambda>(n, w). map (\<lambda>i. n * bits_per_word + i) (word_bit_indices w))
     (enumerate k ws)))"
proof (induction ws arbitrary: k)
  case (Cons w ws)
  have "k * 64 + i < m * 64 + j" if "bit w i" "Suc k \<le> m" for i m j
    using bit_usize_bound [OF that(1)] that(2) by linarith
  with Cons show ?case
    by (auto simp: sorted_wrt_append sorted_wrt_map sorted_word_bit_indices set_word_bit_indices
          bits_per_word_def in_set_enumerate_eq)
qed simp

lemma nth_resize_words:
  "i < n \<Longrightarrow> resize_words n ws ! i = (if i < length ws then ws ! i else 0)"
  by (auto simp: resize_words_def nth_append min_def)

lemma length_resize_words [simp]: "length (resize_words n ws) = n"
  by (simp add: resize_words_def)

text \<open>Words past the end of a bitmap read as zero: all bitmap updates are pointwise on them.\<close>

definition word_at :: "usize list \<Rightarrow> nat \<Rightarrow> usize" where
  "word_at ws n = (if n < length ws then ws ! n else 0)"

lemma gc_slots_word_at: "gc_slots d = {n. bit (word_at (bitmap d) (n div 64)) (n mod 64)}"
  by (auto simp: gc_slots_def bits_per_word_def word_at_def split: if_splits)

lemma word_at_resize: "length ws \<le> n \<Longrightarrow> word_at (resize_words n ws) k = word_at ws k"
  by (auto simp: word_at_def nth_resize_words)

lemma word_at_update:
  "n < length ws \<Longrightarrow> word_at (ws[n := w]) k = (if k = n then w else word_at ws k)"
  by (auto simp: word_at_def)

lemma word_at_or_words:
  assumes "k + length vs \<le> length ws"
  shows "word_at (fold (\<lambda>(n, w) ws. ws[n := ws ! n OR w]) (enumerate k vs) ws) i =
         (if k \<le> i then word_at ws i OR word_at vs (i - k) else word_at ws i)"
  using assms
proof (induction vs arbitrary: k ws)
  case (Cons v vs)
  let ?ws = "ws[k := ws ! k OR v]"
  have k: "k < length ws" using Cons.prems by simp
  have "word_at (fold (\<lambda>(n, w) ws. ws[n := ws ! n OR w]) (enumerate (Suc k) vs) ?ws) i =
      (if Suc k \<le> i then word_at ?ws i OR word_at vs (i - Suc k) else word_at ?ws i)"
    using Cons.prems by (intro Cons.IH) simp
  moreover have "word_at (v # vs) (i - k) = word_at vs (i - Suc k)" if "k < i"
    using that by (simp add: word_at_def nth_Cons' Suc_diff_Suc less_diff_conv2)
  moreover have "ws ! k = word_at ws k" "word_at (v # vs) 0 = v"
    using k by (simp_all add: word_at_def)
  ultimately show ?case
    using k by (cases "i = k") (auto simp: word_at_update)
qed (simp add: word_at_def)

lemma gc_slots_set: "gc_slots (gc_set n d) = insert n (gc_slots d)"
proof -
  have "word_at (bitmap (gc_set n d)) k =
      (if k = n div 64 then word_at (bitmap d) k OR push_bit (n mod 64) 1 else word_at (bitmap d) k)"
    for k
    by (auto simp: gc_set_def Let_def bits_per_word_def word_at_update word_at_resize
          nth_resize_words) (auto simp: word_at_def)
  then have "m \<in> gc_slots (gc_set n d) \<longleftrightarrow>
      m \<in> gc_slots d \<or> m div 64 = n div 64 \<and> m mod 64 = n mod 64" for m
    by (auto simp: gc_slots_word_at bit_simps)
  moreover have "m div 64 = n div 64 \<and> m mod 64 = n mod 64 \<longleftrightarrow> m = n" for m
    by (metis div_mult_mod_eq)
  ultimately show ?thesis by auto
qed

lemma gc_offsets_set_offset: "gc_offsets (set_offset b d) = insert b (gc_offsets d)"
proof (cases "b mod object_ref_size = 0")
  case True
  then have "b = b div object_ref_size * object_ref_size"
    by (simp add: mod_eq_0_iff_dvd)
  moreover have "unaligned_offsets (gc_set n d) = unaligned_offsets d" for n
    by (simp add: gc_set_def Let_def)
  ultimately show ?thesis
    using True by (auto simp: set_offset_def gc_offsets_def gc_slots_set)
next
  case False
  then show ?thesis
    by (auto simp: set_offset_def gc_offsets_def gc_slots_def)
qed

lemma set_add_missing:
  "set (fold (\<lambda>u us. if u \<notin> set us then us @ [u] else us) vs us) = set us \<union> set vs"
  by (induction vs arbitrary: us) auto

lemma distinct_add_missing:
  "distinct us \<Longrightarrow> distinct (fold (\<lambda>u us. if u \<notin> set us then us @ [u] else us) vs us)"
  by (induction vs arbitrary: us) auto

lemma word_at_merge:
  "word_at (bitmap (gc_merge d e)) k = word_at (bitmap d) k OR word_at (bitmap e) k"
  by (auto simp: gc_merge_def Let_def word_at_or_words word_at_resize)

lemma gc_offsets_merge: "gc_offsets (gc_merge d e) = gc_offsets d \<union> gc_offsets e"
proof -
  have "gc_slots (gc_merge d e) = gc_slots d \<union> gc_slots e"
    by (auto simp: gc_slots_word_at word_at_merge bit_simps)
  moreover have "set (unaligned_offsets (gc_merge d e)) =
      set (unaligned_offsets d) \<union> set (unaligned_offsets e)"
    by (simp add: gc_merge_def Let_def set_add_missing)
  ultimately show ?thesis by (auto simp: gc_offsets_def)
qed

lemma invar_set_offset: "gc_desc_invar d \<Longrightarrow> gc_desc_invar (set_offset b d)"
  by (auto simp: gc_desc_invar_def set_offset_def gc_set_def Let_def)

lemma invar_merge: "gc_desc_invar d \<Longrightarrow> gc_desc_invar e \<Longrightarrow> gc_desc_invar (gc_merge d e)"
  by (auto simp: gc_desc_invar_def gc_merge_def Let_def set_add_missing distinct_add_missing)

section \<open>The descriptor as a set of offsets\<close>

text \<open>
  What the layout factory relies on: a descriptor denotes a set of byte offsets, starts empty,
  grows by one offset or by another descriptor, and can be enumerated.
\<close>

locale offset_set =
  fixes invar :: "'d \<Rightarrow> bool"
    and offsets :: "'d \<Rightarrow> nat set"
    and empty :: 'd
    and add :: "nat \<Rightarrow> 'd \<Rightarrow> 'd"
    and merge :: "'d \<Rightarrow> 'd \<Rightarrow> 'd"
  assumes empty_offsets: "offsets empty = {}"
    and add_offsets: "offsets (add b d) = insert b (offsets d)"
    and merge_offsets: "offsets (merge d e) = offsets d \<union> offsets e"
    and empty_invar: "invar empty"
    and add_invar: "invar d \<Longrightarrow> invar (add b d)"
    and merge_invar: "invar d \<Longrightarrow> invar e \<Longrightarrow> invar (merge d e)"
begin

lemma fold_add_offsets: "offsets (fold add bs d) = offsets d \<union> set bs"
  by (induction bs arbitrary: d) (auto simp: add_offsets)

lemma fold_add_invar: "invar d \<Longrightarrow> invar (fold add bs d)"
  by (induction bs arbitrary: d) (auto intro: add_invar)

lemma merge_commute: "offsets (merge d e) = offsets (merge e d)"
  by (auto simp: merge_offsets)

lemma merge_fold_add: "offsets (merge d (fold add bs empty)) = offsets (fold add bs d)"
  by (simp add: merge_offsets fold_add_offsets empty_offsets)

end

interpretation gcd: offset_set gc_desc_invar gc_offsets gc_desc_default set_offset gc_merge
proof
  show "gc_offsets gc_desc_default = {}" "gc_desc_invar gc_desc_default"
    by (simp_all add: gc_offsets_def gc_slots_def gc_desc_default_def gc_desc_invar_def)
qed (simp_all add: gc_offsets_set_offset gc_offsets_merge invar_set_offset invar_merge)

end
