(* ===== verification/Layouts.thy ===== *)
theory Layouts
  imports Gc_Desc "HOL-Library.AList"
begin

text \<open>
  Storage layouts of \<open>dotnet-value/src/layout.rs\<close>: scalars, fields of a type and inline arrays,
  with the queries the memory and GC code makes on them. A hash map of fields is an association
  list with distinct keys whose order is the map's iteration order. Sizes and offsets panic where
  the plain \<open>usize\<close> operators do. Type descriptions are a parameter of the model.
\<close>

section \<open>Layouts\<close>

datatype scalar = ObjectRef | ManagedPtr | Int8 | UInt8 | Int16 | UInt16 | Int32 | Int64
  | NativeInt | Float32 | Float64

definition managed_ptr_size :: nat where
  "managed_ptr_size = 24"

fun size_const :: "scalar \<Rightarrow> nat" where
  "size_const Int8 = 1"
| "size_const UInt8 = 1"
| "size_const Int16 = 2"
| "size_const UInt16 = 2"
| "size_const Int32 = 4"
| "size_const Int64 = 8"
| "size_const ObjectRef = object_ref_size"
| "size_const NativeInt = object_ref_size"
| "size_const ManagedPtr = managed_ptr_size"
| "size_const Float32 = 4"
| "size_const Float64 = 8"

definition alignment_const :: "scalar \<Rightarrow> nat" where
  "alignment_const s = (if s = ManagedPtr then object_ref_size else size_const s)"

datatype 'td field_key = FieldKey (owner: 'td) (name: string)

datatype 'td layout_manager =
    Field "'td field_layout_manager"
  | Array "'td array_layout_manager"
  | Scalar scalar
and 'td field_layout = FieldLayout (position: nat) (layout: "'td layout_manager")
and 'td field_layout_manager = FieldLayoutManager
    (flm_fields: "('td field_key \<times> 'td field_layout) list")
    (total_size: nat)
    (flm_alignment: nat)
    (flm_gc_desc: gc_desc)
    (has_ref_fields: bool)
and 'td array_layout_manager = ArrayLayoutManager
    (element_layout: "'td layout_manager")
    (array_length: nat)

fun layout_size :: "'td layout_manager \<Rightarrow> ('e, nat) outcome" where
  "layout_size (Field (FieldLayoutManager fs tot a g r)) = Ok tot"
| "layout_size (Array (ArrayLayoutManager el len)) = and_then (layout_size el) (\<lambda>s. umul s len)"
| "layout_size (Scalar s) = Ok (size_const s)"

definition field_as_range :: "'td field_layout \<Rightarrow> ('e, nat \<times> nat) outcome" where
  "field_as_range f = and_then (layout_size (layout f))
     (\<lambda>s. and_then (uadd (position f) s) (\<lambda>e. Ok (position f, e)))"

text \<open>\<open>Iterator::any\<close> over a predicate that may panic.\<close>

fun any_outcome :: "('a \<Rightarrow> ('e, bool) outcome) \<Rightarrow> 'a list \<Rightarrow> ('e, bool) outcome" where
  "any_outcome p [] = Ok False"
| "any_outcome p (x # xs) = and_then (p x) (\<lambda>b. if b then Ok True else any_outcome p xs)"

lemma any_outcome_cong [fundef_cong]:
  assumes "xs = ys" and "\<And>x. x \<in> set ys \<Longrightarrow> p x = q x"
  shows "any_outcome p xs = any_outcome q ys"
  using assms by (induction ys arbitrary: xs) (auto intro!: and_then_cong)

fun scalar_at :: "'td layout_manager \<Rightarrow> nat \<Rightarrow> scalar \<Rightarrow> ('e, bool) outcome" where
  "scalar_at (Scalar kind) offset expected = Ok (offset = 0 \<and> kind = expected)"
| "scalar_at (Field (FieldLayoutManager fs tot a g r)) offset expected =
     any_outcome (\<lambda>(k, f). case f of FieldLayout pos l \<Rightarrow>
       if pos \<le> offset
       then and_then (layout_size l) (\<lambda>s.
              if offset - pos < s then scalar_at l (offset - pos) expected else Ok False)
       else Ok False) fs"
| "scalar_at (Array (ArrayLayoutManager el len)) offset expected =
     and_then (layout_size el) (\<lambda>width.
       if width \<noteq> 0 \<and> offset div width < len then scalar_at el (offset mod width) expected
       else Ok False)"

fun visit_managed_ptrs :: "'td layout_manager \<Rightarrow> nat \<Rightarrow> ('e, nat list) outcome" where
  "visit_managed_ptrs (Scalar s) offset = Ok (if s = ManagedPtr then [offset] else [])"
| "visit_managed_ptrs (Field (FieldLayoutManager fs tot a g r)) offset =
     collect_outcome (\<lambda>(k, f). case f of FieldLayout pos l \<Rightarrow>
       and_then (uadd offset pos) (\<lambda>o'. visit_managed_ptrs l o')) fs"
| "visit_managed_ptrs (Array (ArrayLayoutManager el len)) offset =
     and_then (layout_size el) (\<lambda>elem_size.
       collect_outcome (\<lambda>i. and_then (umul elem_size i) (\<lambda>d.
         and_then (uadd offset d) (\<lambda>o'. visit_managed_ptrs el o'))) [0..<len])"

fun is_gc_ptr :: "'td layout_manager \<Rightarrow> bool" where
  "is_gc_ptr (Scalar s) = (s = ObjectRef \<or> s = ManagedPtr)"
| "is_gc_ptr _ = False"

fun is_or_contains_refs :: "'td layout_manager \<Rightarrow> bool" where
  "is_or_contains_refs (Field (FieldLayoutManager fs tot a g r)) =
     list_ex (\<lambda>(k, f). case f of FieldLayout pos l \<Rightarrow> is_or_contains_refs l) fs"
| "is_or_contains_refs (Array (ArrayLayoutManager el len)) = is_or_contains_refs el"
| "is_or_contains_refs (Scalar s) = (s = ObjectRef \<or> s = ManagedPtr)"

fun has_managed_ptrs :: "'td layout_manager \<Rightarrow> bool" where
  "has_managed_ptrs (Field (FieldLayoutManager fs tot a g r)) = r"
| "has_managed_ptrs (Array (ArrayLayoutManager el len)) = has_managed_ptrs el"
| "has_managed_ptrs (Scalar s) = (s = ManagedPtr)"

fun type_tag :: "'td layout_manager \<Rightarrow> string" where
  "type_tag (Field m) = ''struct''"
| "type_tag (Array a) = ''arr''"
| "type_tag (Scalar s) = (case s of
      ObjectRef \<Rightarrow> ''obj'' | ManagedPtr \<Rightarrow> ''ptr'' | Int8 \<Rightarrow> ''i8'' | UInt8 \<Rightarrow> ''i8''
    | Int16 \<Rightarrow> ''i16'' | UInt16 \<Rightarrow> ''i16'' | Int32 \<Rightarrow> ''i32'' | Int64 \<Rightarrow> ''i64''
    | NativeInt \<Rightarrow> ''ptr'' | Float32 \<Rightarrow> ''f32'' | Float64 \<Rightarrow> ''f64'')"

fun alignment :: "'td layout_manager \<Rightarrow> nat" where
  "alignment (Field (FieldLayoutManager fs tot a g r)) = a"
| "alignment (Array (ArrayLayoutManager el len)) = alignment el"
| "alignment (Scalar s) = alignment_const s"

definition align_up :: "nat \<Rightarrow> nat \<Rightarrow> ('e, nat) outcome" where
  "align_up value align =
     (if align = 0 then Panic
      else let misalignment = value mod align
           in if misalignment = 0 then Ok value
              else and_then (uadd value align) (\<lambda>s. usub s misalignment))"

definition get_field :: "'td field_layout_manager \<Rightarrow> 'td \<Rightarrow> string \<Rightarrow> 'td field_layout option" where
  "get_field m own nm = map_of (flm_fields m) (FieldKey own nm)"

definition get_field_by_name :: "'td field_layout_manager \<Rightarrow> string \<Rightarrow> 'td field_layout option" where
  "get_field_by_name m nm = map_option snd (find (\<lambda>(k, v). name k = nm) (flm_fields m))"

text \<open>
  \<open>FieldLayoutManager::trace\<close> as the offsets it reads from a storage of the given length: the
  object references named by the GC descriptor, then the managed pointers.
\<close>

definition field_trace_offsets ::
    "'td field_layout_manager \<Rightarrow> nat \<Rightarrow> ('e, nat list \<times> nat list) outcome" where
  "field_trace_offsets m storage_len =
     and_then (gc_trace_offsets (flm_gc_desc m) storage_len) (\<lambda>refs.
       if has_ref_fields m
       then and_then (visit_managed_ptrs (Field m) 0) (\<lambda>offs.
              map_outcome (Pair refs) (collect_outcome (\<lambda>off.
                and_then (uadd off managed_ptr_size) (\<lambda>e.
                  Ok (if e \<le> storage_len then [off] else []))) offs))
       else Ok (refs, []))"

section \<open>Where a layout holds values of a scalar kind\<close>

fun exact_size :: "'td layout_manager \<Rightarrow> nat" where
  "exact_size (Field (FieldLayoutManager fs tot a g r)) = tot"
| "exact_size (Array (ArrayLayoutManager el len)) = exact_size el * len"
| "exact_size (Scalar s) = size_const s"

text \<open>The byte offsets, relative to the start of a value, at which a scalar of a kind is stored.\<close>

fun scalar_offsets :: "scalar \<Rightarrow> 'td layout_manager \<Rightarrow> nat set" where
  "scalar_offsets k (Scalar s) = (if s = k then {0} else {})"
| "scalar_offsets k (Field (FieldLayoutManager fs tot a g r)) =
     (\<Union>(key, f) \<in> set fs. case f of FieldLayout pos l \<Rightarrow> (+) pos ` scalar_offsets k l)"
| "scalar_offsets k (Array (ArrayLayoutManager el len)) =
     (\<Union>i < len. (+) (exact_size el * i) ` scalar_offsets k el)"

text \<open>
  A layout is well formed when the fields lie inside it, the GC descriptor marks exactly the
  object references of its fields, and the managed-pointer flag is set if it stores one.
\<close>

fun wf_layout :: "'td layout_manager \<Rightarrow> bool" where
  "wf_layout (Scalar s) \<longleftrightarrow> True"
| "wf_layout (Array (ArrayLayoutManager el len)) \<longleftrightarrow> wf_layout el"
| "wf_layout (Field (FieldLayoutManager fs tot a g r)) \<longleftrightarrow>
     a > 0 \<and> distinct (map fst fs) \<and> gc_desc_invar g \<and>
     (\<forall>(key, f) \<in> set fs. case f of FieldLayout pos l \<Rightarrow>
        wf_layout l \<and> pos + exact_size l \<le> tot \<and> (has_managed_ptrs l \<longrightarrow> r)) \<and>
     gc_offsets g = (\<Union>(key, f) \<in> set fs. case f of FieldLayout pos l \<Rightarrow>
        (+) pos ` scalar_offsets ObjectRef l)"

lemma layout_induct [case_names Scalar Array Field]:
  assumes "\<And>s. P (Scalar s)"
    and "\<And>el len. P el \<Longrightarrow> P (Array (ArrayLayoutManager el len))"
    and "\<And>fs tot a g r. (\<And>key pos l. (key, FieldLayout pos l) \<in> set fs \<Longrightarrow> P l) \<Longrightarrow>
           P (Field (FieldLayoutManager fs tot a g r))"
  shows "P l"
proof (induction l rule: wf_layout.induct)
  case (3 fs tot a g r)
  show ?case by (rule assms(3)) (rule "3.IH", auto)
qed (auto intro: assms)

lemma layout_size_exact: "layout_size l = Ok s \<Longrightarrow> s = exact_size l"
  by (induction l arbitrary: s rule: exact_size.induct)
    (auto simp: outcome_simps usize_ops)

lemma layout_size_not_Err: "layout_size l \<noteq> Err e"
  by (induction l rule: exact_size.induct) (auto simp: outcome_simps usize_ops)

lemma alignment_pos: "wf_layout l \<Longrightarrow> 0 < alignment l"
proof (induction l rule: alignment.induct)
  case (3 s)
  then show ?case
    by (cases s) (simp_all add: alignment_const_def object_ref_size_def)
qed auto

lemma scalar_offsets_bound:
  assumes "wf_layout l" and "x \<in> scalar_offsets k l"
  shows "x + size_const k \<le> exact_size l"
  using assms
proof (induction l arbitrary: x rule: wf_layout.induct)
  case (2 el len)
  then obtain i y where iy: "i < len" "y \<in> scalar_offsets k el" "x = exact_size el * i + y"
    by auto
  with 2 have "y + size_const k \<le> exact_size el" by simp
  then have "x + size_const k \<le> exact_size el * Suc i"
    using iy(3) by simp
  also have "\<dots> \<le> exact_size el * len"
    using iy(1) by (intro mult_le_mono2) simp
  finally show ?case by simp
next
  case (3 fs tot a g r)
  then obtain key pos l y where f: "(key, FieldLayout pos l) \<in> set fs"
      "y \<in> scalar_offsets k l" "x = pos + y"
    by (fastforce split: field_layout.splits)
  with "3.prems"(1) have wf: "wf_layout l" "pos + exact_size l \<le> tot" by auto
  have "y + size_const k \<le> exact_size l"
    by (rule "3.IH" [OF f(1) refl refl wf(1) f(2)])
  with wf f show ?case by simp
qed (auto split: if_splits)

lemma size_const_pos: "0 < size_const k"
  by (cases k) (simp_all add: object_ref_size_def managed_ptr_size_def)

lemma no_refs_no_offsets:
  assumes "\<not> is_or_contains_refs l"
  shows "scalar_offsets ObjectRef l = {}" and "scalar_offsets ManagedPtr l = {}"
proof -
  have "scalar_offsets ObjectRef l = {} \<and> scalar_offsets ManagedPtr l = {}"
    using assms
  proof (induction l rule: is_or_contains_refs.induct)
    case (1 fs tot a g r)
    have "scalar_offsets ObjectRef l = {} \<and> scalar_offsets ManagedPtr l = {}"
      if "(key, FieldLayout pos l) \<in> set fs" for key pos l
      using 1 that by (force simp: list_ex_iff split: field_layout.splits)
    then show ?case by (fastforce split: field_layout.splits)
  qed auto
  then show "scalar_offsets ObjectRef l = {}" and "scalar_offsets ManagedPtr l = {}" by auto
qed

lemma no_managed_ptrs_no_offsets:
  "wf_layout l \<Longrightarrow> \<not> has_managed_ptrs l \<Longrightarrow> scalar_offsets ManagedPtr l = {}"
proof (induction l rule: wf_layout.induct)
  case (3 fs tot a g r)
  have "scalar_offsets ManagedPtr l = {}" if "(key, FieldLayout pos l) \<in> set fs" for key pos l
    using 3 that by force
  then show ?case by (fastforce split: field_layout.splits)
qed auto

lemma set_visit_managed_ptrs:
  "(visit_managed_ptrs l offset :: ('e, nat list) outcome) = Ok vs \<Longrightarrow> set vs = (+) offset ` scalar_offsets ManagedPtr l"
proof (induction l arbitrary: offset vs rule: layout_induct)
  case (Field fs tot a g r)
  have "set vs = (\<Union>(key, f) \<in> set fs. case f of FieldLayout pos l \<Rightarrow>
      (+) (offset + pos) ` scalar_offsets ManagedPtr l)"
    using Field.prems unfolding visit_managed_ptrs.simps
  proof (rule set_collect_outcome)
    fix x ys
    assume x: "x \<in> set fs" and eq: "(case x of (k, f) \<Rightarrow> case f of FieldLayout pos l \<Rightarrow>
        and_then (uadd offset pos) (\<lambda>o'. visit_managed_ptrs l o')) = (Ok ys :: ('e, nat list) outcome)"
    obtain k pos l where [simp]: "x = (k, FieldLayout pos l)"
      by (metis field_layout.exhaust surj_pair)
    show "set ys = (case x of (key, f) \<Rightarrow> case f of FieldLayout pos l \<Rightarrow>
        (+) (offset + pos) ` scalar_offsets ManagedPtr l)"
      using eq by (auto simp: outcome_simps usize_ops
            dest!: Field.IH [OF x [simplified]])
  qed
  then show ?case
    by (auto simp: image_UN image_image add.assoc intro!: SUP_cong split: field_layout.splits)
next
  case (Array el len)
  obtain s where s: "(layout_size el :: ('e, nat) outcome) = Ok s"
    and vs: "collect_outcome (\<lambda>i. and_then (umul s i) (\<lambda>d.
         and_then (uadd offset d) (\<lambda>o'. visit_managed_ptrs el o'))) [0..<len] =
         (Ok vs :: ('e, nat list) outcome)"
    using Array.prems unfolding visit_managed_ptrs.simps outcome_simps by blast
  have [simp]: "s = exact_size el" using s by (rule layout_size_exact)
  have "set vs = (\<Union>i \<in> set [0..<len]. (+) (offset + exact_size el * i) ` scalar_offsets ManagedPtr el)"
    using vs
  proof (rule set_collect_outcome)
    fix i ys
    assume i: "i \<in> set [0..<len]" and eq: "and_then (umul s i) (\<lambda>d.
        and_then (uadd offset d) (\<lambda>o'. visit_managed_ptrs el o')) = (Ok ys :: ('e, nat list) outcome)"
    show "set ys = (+) (offset + exact_size el * i) ` scalar_offsets ManagedPtr el"
      using eq by (auto simp: outcome_simps usize_ops dest!: Array.IH)
  qed
  then show ?case by (auto simp: image_UN image_image add.assoc atLeast0LessThan)
qed (auto split: if_splits)

lemma any_outcome_Ok:
  assumes "any_outcome p xs = Ok b"
    and "\<And>x c. x \<in> set xs \<Longrightarrow> p x = Ok c \<Longrightarrow> c \<longleftrightarrow> Q x"
  shows "b \<longleftrightarrow> (\<exists>x \<in> set xs. Q x)"
  using assms
proof (induction xs)
  case (Cons x xs)
  obtain c where c: "p x = Ok c" using Cons.prems(1) by (auto simp: outcome_simps)
  with Cons.prems(2) [of x c] have "c \<longleftrightarrow> Q x" by simp
  moreover have "b \<longleftrightarrow> (\<exists>x \<in> set xs. Q x)" if "\<not> c"
    using Cons.prems c that by (intro Cons.IH) auto
  ultimately show ?case using Cons.prems(1) c by auto
qed simp

lemma scalar_at_Ok:
  "wf_layout l \<Longrightarrow> (scalar_at l offset k :: ('e, bool) outcome) = Ok b \<Longrightarrow>
     b \<longleftrightarrow> offset \<in> scalar_offsets k l"
proof (induction l arbitrary: offset b rule: layout_induct)
  case (Field fs tot a g r)
  let ?Q = "\<lambda>(key, f). case f of FieldLayout pos l \<Rightarrow> offset \<in> (+) pos ` scalar_offsets k l"
  have "b \<longleftrightarrow> (\<exists>x \<in> set fs. ?Q x)"
    using Field.prems(2) unfolding scalar_at.simps
  proof (rule any_outcome_Ok)
    fix x c
    assume x: "x \<in> set fs" and eq: "(case x of (ka, f) \<Rightarrow> case f of FieldLayout pos l \<Rightarrow>
        if pos \<le> offset then and_then (layout_size l) (\<lambda>s.
          if offset - pos < s then scalar_at l (offset - pos) k else Ok False)
        else Ok False) = (Ok c :: ('e, bool) outcome)"
    obtain key pos l where [simp]: "x = (key, FieldLayout pos l)"
      by (metis field_layout.exhaust surj_pair)
    have wf: "wf_layout l" using Field.prems(1) x by auto
    have lt: "y < exact_size l" if "y \<in> scalar_offsets k l" for y
      using scalar_offsets_bound [OF wf that] size_const_pos [of k] by simp
    have "offset \<in> (+) pos ` scalar_offsets k l \<longleftrightarrow>
        pos \<le> offset \<and> offset - pos < exact_size l \<and> offset - pos \<in> scalar_offsets k l"
      using lt by (auto simp: image_iff intro!: bexI [of _ "offset - pos"])
    then show "c \<longleftrightarrow> ?Q x"
      using eq by (auto simp: outcome_simps split: if_splits
          dest!: layout_size_exact Field.IH [OF x [simplified] wf])
  qed
  then show ?case by (auto split: prod.splits field_layout.splits)
next
  case (Array el len)
  have wf: "wf_layout el" using Array.prems(1) by simp
  have lt: "y < exact_size el" if "y \<in> scalar_offsets k el" for y
    using scalar_offsets_bound [OF wf that] size_const_pos [of k] by simp
  let ?w = "exact_size el"
  have "offset \<in> scalar_offsets k (Array (ArrayLayoutManager el len)) \<longleftrightarrow>
      ?w \<noteq> 0 \<and> offset div ?w < len \<and> offset mod ?w \<in> scalar_offsets k el" (is "?l \<longleftrightarrow> ?r")
  proof
    assume ?l
    then obtain i y where "i < len" "y \<in> scalar_offsets k el" "offset = ?w * i + y" by auto
    with lt [of y] show ?r by auto
  next
    assume ?r
    moreover have "offset = ?w * (offset div ?w) + offset mod ?w" by simp
    ultimately show ?l unfolding scalar_offsets.simps by (metis UN_I imageI lessThan_iff)
  qed
  with Array.prems(2) show ?case
    by (auto simp: outcome_simps split: if_splits dest!: layout_size_exact Array.IH [OF wf])
qed auto

lemma align_up_Ok:
  assumes "align_up v a = Ok r"
  shows "0 < a" and "a dvd r" and "v \<le> r" and "r < v + a"
proof -
  show a: "0 < a" using assms by (auto simp: align_up_def split: if_splits)
  show "a dvd r"
  proof (cases "v mod a = 0")
    case False
    then have "r = v + a - v mod a"
      using assms a by (auto simp: align_up_def Let_def outcome_simps usize_ops)
    also have "\<dots> = a * (v div a) + a"
      by (simp add: minus_mod_eq_mult_div [symmetric] mod_less_eq_dividend)
    finally show ?thesis by simp
  qed (use assms a in \<open>auto simp: align_up_def\<close>)
  show "v \<le> r" and "r < v + a"
    using assms a mod_less_divisor [OF a, of v] mod_less_eq_dividend [of v a]
    by (auto simp: align_up_def Let_def outcome_simps usize_ops split: if_splits)
qed

section \<open>Tracing\<close>

lemma set_gc_trace_offsets:
  assumes "(gc_trace_offsets d n :: ('e, nat list) outcome) = Ok offs"
  shows "set offs = {off \<in> gc_offsets d. off + object_ref_size \<le> n}"
proof -
  let ?visit = "\<lambda>off acc. and_then (uadd off object_ref_size)
            (\<lambda>e. Ok (if e \<le> n then acc @ [off] else acc)) :: ('e, nat list) outcome"
  let ?S = "\<lambda>off. if off + object_ref_size \<le> n then {off} else {}"
  obtain acc where words: "fold_outcome (\<lambda>k acc. and_then (umul k object_ref_size)
        (\<lambda>off. ?visit off acc)) (for_each_word_index d) [] = Ok acc"
    and unal: "fold_outcome ?visit (unaligned_offsets d) acc = Ok offs"
    using assms by (auto simp: gc_trace_offsets_def Let_def outcome_simps)
  have "set acc = set [] \<union> (\<Union>k \<in> set (for_each_word_index d). ?S (k * object_ref_size))"
    by (rule fold_outcome_union(2) [where I = "\<lambda>_. True", OF words])
      (auto simp: outcome_simps usize_ops)
  moreover have "set offs = set acc \<union> (\<Union>off \<in> set (unaligned_offsets d). ?S off)"
    by (rule fold_outcome_union(2) [where I = "\<lambda>_. True", OF unal])
      (auto simp: outcome_simps usize_ops)
  ultimately show ?thesis
    by (auto simp: gc_offsets_def set_for_each_word_index split: if_splits)
qed

text \<open>
  C1: Tracing an object whose storage has the size of its well-formed layout reads exactly the
  references it holds: the object references at exactly the offsets where the fields (nested
  structs and inline arrays included) store one, and the managed pointers at exactly the offsets
  where they store one.
\<close>

theorem field_trace_exact:
  assumes "wf_layout (Field m)"
    and "(field_trace_offsets m (total_size m) :: ('e, nat list \<times> nat list) outcome) = Ok (refs, ptrs)"
  shows "set refs = scalar_offsets ObjectRef (Field m) \<and>
    set ptrs = scalar_offsets ManagedPtr (Field m)"
proof
  have size: "exact_size (Field m) = total_size m" by (cases m) simp
  have desc: "gc_offsets (flm_gc_desc m) = scalar_offsets ObjectRef (Field m)"
    using assms(1) by (cases m) simp
  have "set refs = {off \<in> gc_offsets (flm_gc_desc m). off + object_ref_size \<le> total_size m}"
    using assms(2)
    by (auto simp: field_trace_offsets_def outcome_simps split: if_splits dest!: set_gc_trace_offsets)
  then show "set refs = scalar_offsets ObjectRef (Field m)"
    using scalar_offsets_bound [OF assms(1), of _ ObjectRef] size desc by auto
  show "set ptrs = scalar_offsets ManagedPtr (Field m)"
  proof (cases "has_ref_fields m")
    case True
    with assms(2) obtain offs where offs: "visit_managed_ptrs (Field m) 0 = (Ok offs :: ('e, nat list) outcome)"
      and ptrs: "collect_outcome (\<lambda>off. and_then (uadd off managed_ptr_size) (\<lambda>e.
            Ok (if e \<le> total_size m then [off] else []))) offs = (Ok ptrs :: ('e, nat list) outcome)"
      by (auto simp: field_trace_offsets_def outcome_simps simp del: visit_managed_ptrs.simps)
    have "set ptrs = (\<Union>off \<in> set offs. if off + managed_ptr_size \<le> total_size m then {off} else {})"
      by (rule set_collect_outcome [OF ptrs]) (auto simp: outcome_simps usize_ops split: if_splits)
    moreover have "set offs = scalar_offsets ManagedPtr (Field m)"
      using set_visit_managed_ptrs [OF offs] by simp
    ultimately show ?thesis
      using scalar_offsets_bound [OF assms(1), of _ ManagedPtr] size by auto
  next
    case False
    moreover have "has_managed_ptrs (Field m) = has_ref_fields m" by (cases m) simp
    ultimately show ?thesis
      using no_managed_ptrs_no_offsets [OF assms(1)] assms(2)
      by (auto simp: field_trace_offsets_def outcome_simps)
  qed
qed

text \<open>A struct with a reference, a byref and an array of two references.\<close>

definition trace_sample :: "unit field_layout_manager" where
  "trace_sample = FieldLayoutManager
     [(FieldKey () ''a'', FieldLayout 0 (Scalar ObjectRef)),
      (FieldKey () ''b'', FieldLayout 8 (Scalar ManagedPtr)),
      (FieldKey () ''c'', FieldLayout 32 (Array (ArrayLayoutManager (Scalar ObjectRef) 2)))]
     48 8 \<lparr>bitmap = [0x31], unaligned_offsets = []\<rparr> True"

lemma trace_sample_gc: "gc_offsets (flm_gc_desc trace_sample) = {0, 32, 40}"
proof -
  have "for_each_word_index (flm_gc_desc trace_sample) = [0, 4, 5]"
    by (simp add: trace_sample_def for_each_word_index_def bits_per_word_def) code_simp
  then show ?thesis
    by (simp add: gc_offsets_def trace_sample_def object_ref_size_def
        set_for_each_word_index [symmetric])
qed

lemma trace_sample_wf: "wf_layout (Field trace_sample)"
  using trace_sample_gc
  by (simp add: trace_sample_def object_ref_size_def managed_ptr_size_def gc_desc_invar_def
      lessThan_Suc numeral_2_eq_2 insert_commute)

lemma trace_sample_visits:
  "(field_trace_offsets trace_sample 48 :: (unit, nat list \<times> nat list) outcome) = Ok ([0, 32, 40], [8])"
proof -
  have "for_each_word_index (flm_gc_desc trace_sample) = [0, 4, 5]"
    by (simp add: trace_sample_def for_each_word_index_def bits_per_word_def) code_simp
  then show ?thesis
    by (simp add: field_trace_offsets_def gc_trace_offsets_def Let_def trace_sample_def
        object_ref_size_def managed_ptr_size_def usize_ops usize_of_def usize_max_def upt_rec)
qed

theorem field_trace_exact_witness:
  "set [0, 32, 40] = scalar_offsets ObjectRef (Field trace_sample) \<and>
   set [8] = scalar_offsets ManagedPtr (Field trace_sample)"
  by (rule field_trace_exact [OF trace_sample_wf])
    (use trace_sample_visits in \<open>simp add: trace_sample_def\<close>)

end
