(* ===== verification/Errors.thy ===== *)
theory Errors
  imports Prelude
begin

text \<open>
  The host error values of \<open>dotnet-types/src/error.rs\<close> that the modelled components return. Message
  strings, which only feed diagnostics, are left out of the constructors.
\<close>

datatype type_resolution_error =
    TypeNotFound | MethodNotFound | FieldNotFound | InvalidHandle | AssemblyLoad
  | MassiveAllocation | InvalidLayout | GenericIndexOutOfBounds nat nat
  | GenericConstraintViolation

datatype pointer_deserialization_error =
    BufferTooSmall nat nat | UnknownTag usize | UnknownSubtag usize | InvalidStaticId u32
  | ChecksumMismatch | OffsetMismatch | UnresolvedStaticStorage | UnresolvedCrossArenaToken u32
  | UnresolvedFrameHome u64

datatype execution_error =
    StackUnderflow | InvalidIP nat | TypeMismatch string string | NullReference | NotImplemented
  | InvalidCil | InternalError | FuzzBudgetExceeded | Aborted

datatype memory_access_error =
    BoundsCheck usize usize usize | NullPointer | UnalignedAccess usize | AccessTypeMismatch
  | InvalidOrigin | CrossArenaViolation

end
