(* ===== verification/Layout_Factory.thy ===== *)
theory Layout_Factory
  imports Layouts Errors
begin

text \<open>
  The layout factory of \<open>dotnet-runtime-resolver/src/layout.rs\<close>: placement of the fields of a type
  (automatic, sequential and explicit layout), the construction of its GC descriptor, and the
  combination with the layout of the base types and with inline arrays. What the resolver reads
  from metadata (field types, layout flags, attributes) enters as data.
\<close>

section \<open>Field placement\<close>

datatype type_layout =
    Automatic
  | Sequential "(nat \<times> nat) option"
  | Explicit "nat option"

type_synonym 'td field_input = "'td \<times> string \<times> nat option \<times> 'td layout_manager"

fun populate_gc_desc :: "'td layout_manager \<Rightarrow> nat \<Rightarrow> gc_desc \<Rightarrow> ('e, gc_desc) outcome" where
  "populate_gc_desc (Scalar s) base desc =
     Ok (if s = ObjectRef then set_offset base desc else desc)"
| "populate_gc_desc (Field (FieldLayoutManager fs tot a g r)) base desc =
     and_then
       (fold_outcome (\<lambda>word_idx d. and_then (umul word_idx object_ref_size) (\<lambda>o'.
          and_then (uadd base o') (\<lambda>b. Ok (set_offset b d)))) (for_each_word_index g) desc)
       (fold_outcome (\<lambda>off d. and_then (uadd base off) (\<lambda>b. Ok (set_offset b d)))
          (unaligned_offsets g))"
| "populate_gc_desc (Array (ArrayLayoutManager el len)) base desc =
     and_then (layout_size el) (\<lambda>elem_size.
       if is_or_contains_refs el
       then fold_outcome (\<lambda>i d. and_then (umul elem_size i) (\<lambda>o'. and_then (uadd base o')
              (\<lambda>b. populate_gc_desc el b d))) [0..<len] desc
       else Ok desc)"

record 'td placement =
  mapping :: "('td field_key \<times> 'td field_layout) list"
  pl_gc_desc :: gc_desc
  pl_has_refs :: bool
  max_alignment :: nat
  pl_offset :: nat

definition placement_start :: "nat \<Rightarrow> nat \<Rightarrow> 'td placement" where
  "placement_start base_size base_alignment =
     \<lparr>mapping = [], pl_gc_desc = gc_desc_default, pl_has_refs = False,
      max_alignment = max base_alignment 1, pl_offset = base_size\<rparr>"

definition place_sequential_field ::
    "nat \<Rightarrow> 'td field_input \<Rightarrow> 'td placement \<Rightarrow> ('e, 'td placement) outcome" where
  "place_sequential_field packing_size = (\<lambda>(own, nm, _, l) p.
     let field_align = min (alignment l) packing_size in
     and_then (align_up (pl_offset p) field_align) (\<lambda>aligned_offset.
     and_then (populate_gc_desc l aligned_offset (pl_gc_desc p)) (\<lambda>g.
     and_then (layout_size l) (\<lambda>s.
     and_then (uadd aligned_offset s) (\<lambda>next_offset.
       Ok \<lparr>mapping = AList.update (FieldKey own nm) (FieldLayout aligned_offset l) (mapping p),
           pl_gc_desc = g,
           pl_has_refs = (pl_has_refs p \<or> has_managed_ptrs l),
           max_alignment = max (max_alignment p) field_align,
           pl_offset = next_offset\<rparr>)))))"

definition place_fields_sequentially ::
    "'td field_input list \<Rightarrow> nat \<Rightarrow> nat \<Rightarrow> nat \<Rightarrow> ('e, 'td placement \<times> nat) outcome" where
  "place_fields_sequentially fs base_size base_alignment packing_size =
     and_then (fold_outcome (place_sequential_field packing_size) fs
                 (placement_start base_size base_alignment))
       (\<lambda>p. and_then (align_up (pl_offset p) (max_alignment p)) (\<lambda>t. Ok (p, t)))"

text \<open>
  The overlap test of an explicit field against one placed field; only the runtime's own
  \<open>MethodTable\<close> types may overlap references with other data.
\<close>

definition substring :: "string \<Rightarrow> string \<Rightarrow> bool" where
  "substring needle hay \<longleftrightarrow>
     list_ex (\<lambda>i. take (length needle) (drop i hay) = needle) [0..<Suc (length hay)]"

definition method_table_name :: string where
  "method_table_name = ''System.Runtime.CompilerServices.MethodTable''"

definition overlap_rejected ::
    "string \<Rightarrow> nat \<Rightarrow> nat \<Rightarrow> 'td layout_manager \<Rightarrow> nat \<times> nat \<times> 'td layout_manager \<Rightarrow> bool" where
  "overlap_rejected type_name actual_offset actual_end l = (\<lambda>(prev_start, prev_end, prev_layout).
     (actual_offset < prev_end \<and> prev_start < actual_end) \<and>
     (is_or_contains_refs l \<or> is_or_contains_refs prev_layout) \<and>
     \<not> ((actual_offset = prev_start \<and> actual_end = prev_end) \<and>
        is_gc_ptr l \<and> is_gc_ptr prev_layout) \<and>
     \<not> substring method_table_name type_name)"

definition place_explicit_field ::
    "('td \<Rightarrow> string) \<Rightarrow> nat \<Rightarrow> 'td field_input \<Rightarrow>
     'td placement \<times> (nat \<times> nat \<times> 'td layout_manager) list \<Rightarrow>
     (type_resolution_error, 'td placement \<times> (nat \<times> nat \<times> 'td layout_manager) list) outcome" where
  "place_explicit_field type_name base_size = (\<lambda>(own, nm, off, l) (p, placed).
     case off of
       None \<Rightarrow> Err InvalidLayout
     | Some o' \<Rightarrow>
         and_then (uadd base_size o') (\<lambda>actual_offset.
         and_then (layout_size l) (\<lambda>s.
         and_then (uadd actual_offset s) (\<lambda>actual_end.
           if list_ex (overlap_rejected (type_name own) actual_offset actual_end l) placed
           then Err InvalidLayout
           else and_then (populate_gc_desc l actual_offset (pl_gc_desc p)) (\<lambda>g.
             Ok (\<lparr>mapping = AList.update (FieldKey own nm) (FieldLayout actual_offset l) (mapping p),
                  pl_gc_desc = g,
                  pl_has_refs = (pl_has_refs p \<or> has_managed_ptrs l),
                  max_alignment = max (max_alignment p) (alignment l),
                  pl_offset = max (pl_offset p) actual_end\<rparr>,
                 placed @ [(actual_offset, actual_end, l)]))))))"

definition place_fields_explicitly ::
    "('td \<Rightarrow> string) \<Rightarrow> 'td field_input list \<Rightarrow> nat \<Rightarrow> nat \<Rightarrow> nat option \<Rightarrow>
     (type_resolution_error, 'td placement \<times> nat) outcome" where
  "place_fields_explicitly type_name fs base_size base_alignment class_size =
     and_then (fold_outcome (place_explicit_field type_name base_size) fs
                 (placement_start base_size base_alignment, []))
       (\<lambda>(p, placed). case class_size of
          Some c \<Rightarrow> and_then (uadd base_size c) (\<lambda>b. Ok (p, max b (pl_offset p)))
        | None \<Rightarrow> Ok (p, pl_offset p))"

definition create_field_layout ::
    "('td \<Rightarrow> string) \<Rightarrow> 'td field_input list \<Rightarrow> type_layout \<Rightarrow> nat \<Rightarrow> nat \<Rightarrow>
     (type_resolution_error, 'td field_layout_manager) outcome" where
  "create_field_layout type_name fs lay base_size base_alignment =
     and_then
       (case lay of
          Automatic \<Rightarrow> place_fields_sequentially fs base_size base_alignment usize_max
        | Sequential s \<Rightarrow>
            (let (packing_size, class_size) = (case s of
                None \<Rightarrow> (8, 0) | Some (pk, c) \<Rightarrow> (if pk = 0 then 8 else pk, c))
             in and_then (place_fields_sequentially fs base_size base_alignment packing_size)
                  (\<lambda>(p, t). and_then (uadd base_size class_size) (\<lambda>b. Ok (p, max t b))))
        | Explicit e \<Rightarrow> place_fields_explicitly type_name fs base_size base_alignment e)
       (\<lambda>(p, t). if t > 0x10000000 then Err MassiveAllocation
          else Ok (FieldLayoutManager (mapping p) t (max_alignment p) (pl_gc_desc p) (pl_has_refs p)))"

section \<open>Types with bases and inline arrays\<close>

text \<open>
  Metadata of one type as the resolver hands it to the factory. A custom attribute carries the
  name of the type that declares its located constructor and its decoded arguments, each absent
  when the lookup fails; \<open>fi_type_layout\<close> is the cached layout of the field's resolved type.
\<close>

datatype integral_param =
    ParamI8 i8 | ParamI16 i16 | ParamI32 i32 | ParamI64 i64
  | ParamU8 u8 | ParamU16 u16 | ParamU32 u32 | ParamU64 u64

datatype fixed_arg = Integral integral_param | OtherArg

record attribute_info =
  at_ctor_type :: "string option"
  at_args :: "fixed_arg list option"

record 'td field_info =
  fi_name :: string
  fi_offset :: "nat option"
  fi_by_ref :: bool
  fi_static :: bool
  fi_handle_slot :: bool
  fi_type_layout :: "(type_resolution_error, 'td layout_manager) outcome"

record 'td type_info =
  ti_td :: 'td
  ti_base_generics :: "(type_resolution_error, unit) outcome"
  ti_fields :: "'td field_info list"
  ti_layout :: type_layout
  ti_byref_like :: bool
  ti_attributes :: "attribute_info list"

fun integral_to_usize :: "integral_param \<Rightarrow> nat option" where
  "integral_to_usize p =
     (let positive = (\<lambda>v :: int. if v \<le> 0 then None else Some (nat v)) in
      case p of
        ParamI8 v \<Rightarrow> positive (sint v) | ParamI16 v \<Rightarrow> positive (sint v)
      | ParamI32 v \<Rightarrow> positive (sint v) | ParamI64 v \<Rightarrow> positive (sint v)
      | ParamU8 v \<Rightarrow> positive (uint v) | ParamU16 v \<Rightarrow> positive (uint v)
      | ParamU32 v \<Rightarrow> positive (uint v)
      | ParamU64 v \<Rightarrow> if fits_signed 64 (uint v) then positive (uint v) else None)"

fun inline_array_length :: "attribute_info list \<Rightarrow> nat option" where
  "inline_array_length [] = None"
| "inline_array_length (attr # attrs) =
     (if at_ctor_type attr = Some ''System.Runtime.CompilerServices.InlineArrayAttribute''
      then (case at_args attr of
              Some (Integral p # _) \<Rightarrow>
                (case integral_to_usize p of Some n \<Rightarrow> Some n | None \<Rightarrow> inline_array_length attrs)
            | _ \<Rightarrow> inline_array_length attrs)
      else inline_array_length attrs)"

definition collect_field_input ::
    "'td type_info \<Rightarrow> 'td field_info \<Rightarrow> (type_resolution_error, 'td field_input) outcome" where
  "collect_field_input ti f = map_outcome (\<lambda>l. (ti_td ti, fi_name f, fi_offset f, l))
     (if fi_handle_slot f then Ok (Scalar ObjectRef)
      else if fi_by_ref f \<and> \<not> ti_byref_like ti then Err InvalidLayout
      else if fi_by_ref f then Ok (Scalar ManagedPtr)
      else fi_type_layout f)"

definition first_own_field ::
    "'td \<Rightarrow> ('td field_key \<times> 'td field_layout) list \<Rightarrow> 'td field_layout option" where
  "first_own_field td fs = fold (\<lambda>(key, f) first.
     if owner key = td \<and> (case first of None \<Rightarrow> True | Some cur \<Rightarrow> position f < position cur)
     then Some f else first) fs None"

definition merge_base ::
    "'td field_layout_manager \<Rightarrow> 'td field_layout_manager option \<Rightarrow> 'td field_layout_manager" where
  "merge_base m base = (case base of None \<Rightarrow> m
     | Some b \<Rightarrow> FieldLayoutManager (fold (\<lambda>(k, f). AList.update k f) (flm_fields b) (flm_fields m))
         (total_size m) (flm_alignment m) (gc_merge (flm_gc_desc m) (flm_gc_desc b))
         (has_ref_fields m \<or> has_ref_fields b))"

definition expand_inline_array ::
    "'td \<Rightarrow> nat option \<Rightarrow> 'td field_layout_manager \<Rightarrow>
     (type_resolution_error, 'td field_layout_manager) outcome" where
  "expand_inline_array td len m =
     (case len of
        Some inline_len \<Rightarrow>
          if inline_len > 1 then
            (case first_own_field td (flm_fields m) of
               None \<Rightarrow> Ok m
             | Some f \<Rightarrow>
                 and_then (layout_size (layout f)) (\<lambda>elem_size.
                 and_then (align_up (usat (position f + usat (elem_size * inline_len)))
                     (max (flm_alignment m) 1)) (\<lambda>t.
                   if is_or_contains_refs (layout f) then
                     and_then (fold_outcome (\<lambda>i. populate_gc_desc (layout f)
                         (usat (position f + usat (elem_size * i)))) [0..<inline_len] gc_desc_default)
                       (\<lambda>g. Ok (FieldLayoutManager (flm_fields m) t (flm_alignment m) g True))
                   else Ok (FieldLayoutManager (flm_fields m) t (flm_alignment m) (flm_gc_desc m)
                          (has_ref_fields m)))))
          else Ok m
      | None \<Rightarrow> Ok m)"

fun collect_fields ::
    "('td \<Rightarrow> string) \<Rightarrow> ('td field_info \<Rightarrow> bool) \<Rightarrow> bool \<Rightarrow> 'td type_info \<Rightarrow> 'td type_info list \<Rightarrow>
     (type_resolution_error, 'td field_layout_manager) outcome" where
  "collect_fields type_name pred include_base ti bases =
     and_then
       (case bases of
          [] \<Rightarrow> Ok None
        | b # bs \<Rightarrow>
            if include_base
            then and_then (ti_base_generics ti)
                   (\<lambda>_. map_outcome Some (collect_fields type_name pred include_base b bs))
            else Ok None)
       (\<lambda>base.
          let (base_size, base_alignment) =
            (case base of None \<Rightarrow> (0, 1) | Some b \<Rightarrow> (total_size b, flm_alignment b)) in
          and_then (collect_outcome (\<lambda>f. map_outcome (\<lambda>x. [x]) (collect_field_input ti f))
                      (filter pred (ti_fields ti))) (\<lambda>inputs.
          and_then (create_field_layout type_name inputs (ti_layout ti) base_size base_alignment) (\<lambda>m.
            expand_inline_array (ti_td ti) (inline_array_length (ti_attributes ti)) (merge_base m base))))"

definition instance_fields ::
    "('td \<Rightarrow> string) \<Rightarrow> (type_resolution_error, bool) outcome \<Rightarrow> 'td type_info \<Rightarrow> 'td type_info list \<Rightarrow>
     (type_resolution_error, 'td field_layout_manager) outcome" where
  "instance_fields type_name is_value_type ti bases =
     and_then is_value_type (\<lambda>v.
       collect_fields type_name (\<lambda>f. \<not> fi_static f) (\<not> v) ti bases)"

definition static_fields ::
    "('td \<Rightarrow> string) \<Rightarrow> 'td type_info \<Rightarrow> 'td type_info list \<Rightarrow>
     (type_resolution_error, 'td field_layout_manager) outcome" where
  "static_fields type_name ti bases = collect_fields type_name fi_static False ti bases"

section \<open>The descriptor built for a layout\<close>

lemma populate_gc_desc_Ok:
  "wf_layout l \<Longrightarrow> (populate_gc_desc l base d :: ('e, gc_desc) outcome) = Ok d' \<Longrightarrow>
     gc_desc_invar d \<Longrightarrow>
     gc_desc_invar d' \<and> gc_offsets d' = gc_offsets d \<union> (+) base ` scalar_offsets ObjectRef l"
proof (induction l arbitrary: base d d' rule: layout_induct)
  case (Scalar s)
  then show ?case by (auto simp: gcd.add_invar gcd.add_offsets split: if_splits)
next
  case (Array el len)
  obtain s where s: "(layout_size el :: ('e, nat) outcome) = Ok s"
    using Array.prems(2) by (auto simp: outcome_simps)
  have [simp]: "s = exact_size el" using s by (rule layout_size_exact)
  show ?case
  proof (cases "is_or_contains_refs el")
    case True
    have loop: "fold_outcome (\<lambda>i d. and_then (umul s i) (\<lambda>o'. and_then (uadd base o')
        (\<lambda>b. populate_gc_desc el b d))) [0..<len] d = (Ok d' :: ('e, gc_desc) outcome)"
      using Array.prems(2) s True by simp
    have step: "gc_desc_invar u \<and> gc_offsets u = gc_offsets t \<union>
        (+) (base + exact_size el * i) ` scalar_offsets ObjectRef el"
      if "gc_desc_invar t" "and_then (umul s i) (\<lambda>o'. and_then (uadd base o')
        (\<lambda>b. populate_gc_desc el b t)) = (Ok u :: ('e, gc_desc) outcome)" for i t u
      using that Array.prems(1) by (auto simp: outcome_simps usize_ops dest: Array.IH)
    show ?thesis
      using fold_outcome_union [where I = gc_desc_invar and A = gc_offsets and
          S = "\<lambda>i. (+) (base + exact_size el * i) ` scalar_offsets ObjectRef el",
          OF loop Array.prems(3) step]
      by (auto simp: image_UN image_image add.assoc atLeast0LessThan)
  next
    case False
    then show ?thesis
      using Array.prems s no_refs_no_offsets(1) [OF False] by auto
  qed
next
  case (Field fs tot a g r)
  obtain e where words: "fold_outcome (\<lambda>word_idx d. and_then (umul word_idx object_ref_size) (\<lambda>o'.
        and_then (uadd base o') (\<lambda>b. Ok (set_offset b d)))) (for_each_word_index g) d
        = (Ok e :: ('e, gc_desc) outcome)"
    and unal: "fold_outcome (\<lambda>off d. and_then (uadd base off) (\<lambda>b. Ok (set_offset b d)))
        (unaligned_offsets g) e = (Ok d' :: ('e, gc_desc) outcome)"
    using Field.prems(2) unfolding populate_gc_desc.simps outcome_simps by blast
  have e: "gc_desc_invar e" "gc_offsets e = gc_offsets d \<union>
      (\<Union>n \<in> set (for_each_word_index g). {base + n * object_ref_size})"
    using fold_outcome_union [where I = gc_desc_invar and A = gc_offsets and
        S = "\<lambda>n. {base + n * object_ref_size}", OF words Field.prems(3)]
    by (simp_all add: outcome_simps usize_ops gcd.add_invar gcd.add_offsets)
  have d': "gc_desc_invar d'" "gc_offsets d' = gc_offsets e \<union>
      (\<Union>off \<in> set (unaligned_offsets g). {base + off})"
    using fold_outcome_union [where I = gc_desc_invar and A = gc_offsets and
        S = "\<lambda>off. {base + off}", OF unal e(1)]
    by (simp_all add: outcome_simps usize_ops gcd.add_invar gcd.add_offsets)
  have "gc_offsets d' = gc_offsets d \<union> (+) base ` gc_offsets g"
    unfolding d'(2) e(2) gc_offsets_def [of g] set_for_each_word_index by auto
  moreover have "gc_offsets g = scalar_offsets ObjectRef (Field (FieldLayoutManager fs tot a g r))"
    using Field.prems(1) by simp
  ultimately show ?case using d'(1) by simp
qed

section \<open>Placements\<close>

text \<open>
  What both placement loops maintain, for a set of fields already placed: the mapping holds them
  inside the current extent, the descriptor marks exactly their object references, the flag
  covers their managed pointers, and the alignment is positive.
\<close>

definition placed_offsets :: "('td field_key \<times> 'td field_layout) list \<Rightarrow> nat set" where
  "placed_offsets m = (\<Union>(key, f) \<in> set m. case f of FieldLayout pos l \<Rightarrow>
     (+) pos ` scalar_offsets ObjectRef l)"

definition placement_ok :: "nat \<Rightarrow> 'td placement \<Rightarrow> bool" where
  "placement_ok base_size p \<longleftrightarrow>
     0 < max_alignment p \<and> base_size \<le> pl_offset p \<and> gc_desc_invar (pl_gc_desc p) \<and>
     distinct (map fst (mapping p)) \<and>
     gc_offsets (pl_gc_desc p) = placed_offsets (mapping p) \<and>
     (\<forall>(key, f) \<in> set (mapping p). case f of FieldLayout pos l \<Rightarrow>
        wf_layout l \<and> base_size \<le> pos \<and> pos + exact_size l \<le> pl_offset p \<and>
        (has_managed_ptrs l \<longrightarrow> pl_has_refs p))"

lemma placement_start_ok: "placement_ok base_size (placement_start base_size a)"
  by (simp add: placement_ok_def placement_start_def placed_offsets_def gcd.empty_offsets
      gcd.empty_invar)

lemma update_fresh: "k \<notin> set (map fst m) \<Longrightarrow> AList.update k v m = m @ [(k, v)]"
  by (induction m) auto

lemma placement_ok_extend:
  assumes ok: "placement_ok base_size p" and wf: "wf_layout l"
    and fresh: "key \<notin> set (map fst (mapping p))"
    and gc: "(populate_gc_desc l pos (pl_gc_desc p) :: ('e, gc_desc) outcome) = Ok g"
    and lay: "pl_offset p \<le> off" "base_size \<le> pos" "pos + exact_size l \<le> off" "0 < a"
  shows "placement_ok base_size
    \<lparr>mapping = AList.update key (FieldLayout pos l) (mapping p), pl_gc_desc = g,
     pl_has_refs = (pl_has_refs p \<or> has_managed_ptrs l), max_alignment = a, pl_offset = off\<rparr>"
proof -
  have "gc_desc_invar g \<and>
      gc_offsets g = gc_offsets (pl_gc_desc p) \<union> (+) pos ` scalar_offsets ObjectRef l"
    by (rule populate_gc_desc_Ok [OF wf gc]) (use ok in \<open>simp add: placement_ok_def\<close>)
  then show ?thesis
    using ok fresh lay wf
    by (fastforce simp: placement_ok_def placed_offsets_def update_fresh split: field_layout.splits)
qed

text \<open>The keys under which a list of input fields is stored.\<close>

definition input_key :: "'td field_input \<Rightarrow> 'td field_key" where
  "input_key = (\<lambda>(own, nm, _, _). FieldKey own nm)"

definition input_layout :: "'td field_input \<Rightarrow> 'td layout_manager" where
  "input_layout = (\<lambda>(_, _, _, l). l)"

definition inputs_ok :: "'td field_input list \<Rightarrow> bool" where
  "inputs_ok fs \<longleftrightarrow> distinct (map input_key fs) \<and> (\<forall>f \<in> set fs. wf_layout (input_layout f))"

lemma place_sequential_field_step:
  assumes ok: "placement_ok base_size p" and wf: "wf_layout (input_layout f)"
    and fresh: "input_key f \<notin> set (map fst (mapping p))" and pk: "0 < packing"
    and step: "(place_sequential_field packing f p :: ('e, 'td placement) outcome) = Ok q"
  shows "\<exists>pos. placement_ok base_size q \<and>
     mapping q = mapping p @ [(input_key f, FieldLayout pos (input_layout f))] \<and>
     pl_offset p \<le> pos \<and> pl_offset q = pos + exact_size (input_layout f) \<and>
     min (alignment (input_layout f)) packing dvd pos \<and>
     max_alignment q = max (max_alignment p) (min (alignment (input_layout f)) packing)"
proof -
  obtain own nm off l where [simp]: "f = (own, nm, off, l)" by (cases f)
  obtain pos g s e where
    pos: "(align_up (pl_offset p) (min (alignment l) packing) :: ('e, nat) outcome) = Ok pos"
    and g: "(populate_gc_desc l pos (pl_gc_desc p) :: ('e, gc_desc) outcome) = Ok g"
    and s: "(layout_size l :: ('e, nat) outcome) = Ok s"
    and q: "q = \<lparr>mapping = AList.update (FieldKey own nm) (FieldLayout pos l) (mapping p),
        pl_gc_desc = g, pl_has_refs = (pl_has_refs p \<or> has_managed_ptrs l),
        max_alignment = max (max_alignment p) (min (alignment l) packing), pl_offset = pos + s\<rparr>"
    using step
    by (auto simp: place_sequential_field_def Let_def outcome_simps usize_ops input_layout_def)
  have s': "s = exact_size l" using s by (rule layout_size_exact)
  note al = align_up_Ok [OF pos]
  have "placement_ok base_size q"
    unfolding q
    by (rule placement_ok_extend [OF ok _ _ g])
      (use wf fresh al s' ok in \<open>auto simp: input_layout_def input_key_def placement_ok_def\<close>)
  then show ?thesis
    using fresh al s' q by (auto simp: input_layout_def input_key_def update_fresh)
qed

text \<open>A chain of fields, each aligned and starting at or after the end of the one before.\<close>

fun seq_chain :: "nat \<Rightarrow> nat \<Rightarrow> ('td field_key \<times> 'td field_layout) list \<Rightarrow> bool" where
  "seq_chain packing start [] \<longleftrightarrow> True"
| "seq_chain packing start ((key, f) # m) \<longleftrightarrow>
     start \<le> position f \<and> min (alignment (layout f)) packing dvd position f \<and>
     seq_chain packing (position f + exact_size (layout f)) m"

lemma place_sequential_fields:
  assumes "(fold_outcome (place_sequential_field packing) fs p :: ('e, 'td placement) outcome) = Ok q"
    and "placement_ok base_size p" and "inputs_ok fs" and "0 < packing"
    and "input_key ` set fs \<inter> set (map fst (mapping p)) = {}"
  shows "\<exists>m. placement_ok base_size q \<and> mapping q = mapping p @ m \<and>
     map fst m = map input_key fs \<and> map (layout \<circ> snd) m = map input_layout fs \<and>
     seq_chain packing (pl_offset p) m"
  using assms
proof (induction fs arbitrary: p)
  case (Cons f fs)
  obtain r where r: "(place_sequential_field packing f p :: ('e, 'td placement) outcome) = Ok r"
      "(fold_outcome (place_sequential_field packing) fs r :: ('e, 'td placement) outcome) = Ok q"
    using Cons.prems(1) by (auto simp: outcome_simps)
  have "wf_layout (input_layout f)" "input_key f \<notin> set (map fst (mapping p))"
    using Cons.prems(3,5) by (auto simp: inputs_ok_def)
  from place_sequential_field_step [OF Cons.prems(2) this Cons.prems(4) r(1)]
  obtain pos where pos: "placement_ok base_size r"
      "mapping r = mapping p @ [(input_key f, FieldLayout pos (input_layout f))]"
      "pl_offset p \<le> pos" "pl_offset r = pos + exact_size (input_layout f)"
      "min (alignment (input_layout f)) packing dvd pos" by blast
  have "input_key ` set fs \<inter> set (map fst (mapping r)) = {}" "inputs_ok fs"
    using Cons.prems(3,5) pos(2) by (auto simp: inputs_ok_def)
  from Cons.IH [OF r(2) pos(1) this(2) Cons.prems(4) this(1)]
  obtain m where "placement_ok base_size q" "mapping q = mapping r @ m"
      "map fst m = map input_key fs" "map (layout \<circ> snd) m = map input_layout fs"
      "seq_chain packing (pl_offset r) m" by blast
  with pos show ?case
    by (intro exI [of _ "(input_key f, FieldLayout pos (input_layout f)) # m"]) (simp add: comp_def)
qed (simp add: inputs_ok_def)

lemma place_fields_sequentially_Ok:
  assumes "(place_fields_sequentially fs base_size base_alignment packing
            :: ('e, 'td placement \<times> nat) outcome) = Ok (p, t)"
    and "inputs_ok fs" and "0 < packing"
  shows "placement_ok base_size p" and "map fst (mapping p) = map input_key fs"
    and "map (layout \<circ> snd) (mapping p) = map input_layout fs"
    and "seq_chain packing base_size (mapping p)"
    and "pl_offset p \<le> t" and "max_alignment p dvd t"
proof -
  obtain q where q: "(fold_outcome (place_sequential_field packing) fs
      (placement_start base_size base_alignment) :: ('e, 'td placement) outcome) = Ok q"
    and t: "(align_up (pl_offset q) (max_alignment q) :: ('e, nat) outcome) = Ok t" "p = q"
    using assms(1) by (auto simp: place_fields_sequentially_def outcome_simps)
  have "\<exists>m. placement_ok base_size q \<and> mapping q = m \<and>
     map fst m = map input_key fs \<and> map (layout \<circ> snd) m = map input_layout fs \<and>
     seq_chain packing base_size m"
    using place_sequential_fields [OF q placement_start_ok assms(2,3)]
    by (simp add: placement_start_def)
  with align_up_Ok [OF t(1)] t(2)
  show "placement_ok base_size p" "map fst (mapping p) = map input_key fs"
    "map (layout \<circ> snd) (mapping p) = map input_layout fs"
    "seq_chain packing base_size (mapping p)" "pl_offset p \<le> t" "max_alignment p dvd t"
    by auto
qed

lemma seq_chain_ge: "seq_chain packing start m \<Longrightarrow> f \<in> set m \<Longrightarrow> start \<le> position (snd f)"
  by (induction packing start m rule: seq_chain.induct) force+

lemma seq_chain_ordered:
  "seq_chain packing start m \<Longrightarrow> i < j \<Longrightarrow> j < length m \<Longrightarrow>
     position (snd (m ! i)) + exact_size (layout (snd (m ! i))) \<le> position (snd (m ! j))"
proof (induction packing start m arbitrary: i j rule: seq_chain.induct)
  case (2 packing start key f m)
  obtain k where j: "j = Suc k" using "2.prems"(2) by (cases j) auto
  show ?case
  proof (cases i)
    case 0
    have "m ! k \<in> set m" using "2.prems"(3) j by simp
    with seq_chain_ge [of packing _ m "m ! k"] "2.prems"(1) show ?thesis by (simp add: 0 j)
  next
    case (Suc i')
    then show ?thesis using "2.IH" [of i' k] "2.prems" j by simp
  qed
qed simp

lemma seq_chain_aligned:
  "seq_chain packing start m \<Longrightarrow> f \<in> set m \<Longrightarrow>
     min (alignment (layout (snd f))) packing dvd position (snd f)"
  by (induction packing start m rule: seq_chain.induct) auto

section \<open>Explicit placement\<close>

definition placed_entry ::
    "'td field_key \<times> 'td field_layout \<Rightarrow> nat \<times> nat \<times> 'td layout_manager" where
  "placed_entry = (\<lambda>(key, f). (position f, position f + exact_size (layout f), layout f))"

text \<open>Two fields may share storage only if neither holds references, or both are one reference.\<close>

definition may_overlap :: "nat \<times> nat \<times> 'td layout_manager \<Rightarrow> nat \<times> nat \<times> 'td layout_manager \<Rightarrow> bool" where
  "may_overlap = (\<lambda>(s1, e1, l1) (s2, e2, l2).
     e2 \<le> s1 \<or> e1 \<le> s2 \<or> (\<not> is_or_contains_refs l1 \<and> \<not> is_or_contains_refs l2) \<or>
     (s1 = s2 \<and> e1 = e2 \<and> is_gc_ptr l1 \<and> is_gc_ptr l2))"

lemma overlap_rejected_iff:
  "overlap_rejected nm s e l prev \<longleftrightarrow> \<not> may_overlap (s, e, l) prev \<and> \<not> substring method_table_name nm"
  by (cases prev) (auto simp: overlap_rejected_def may_overlap_def not_le)

definition explicit_ok ::
    "bool \<Rightarrow> nat \<Rightarrow> 'td placement \<times> (nat \<times> nat \<times> 'td layout_manager) list \<Rightarrow> bool" where
  "explicit_ok strict base_size = (\<lambda>(p, placed). placement_ok base_size p \<and>
     placed = map placed_entry (mapping p) \<and>
     (strict \<longrightarrow> sorted_wrt (\<lambda>prev cur. may_overlap cur prev) placed))"

lemma place_explicit_field_step:
  assumes ok: "explicit_ok strict base_size (p, placed)" and wf: "wf_layout (input_layout f)"
    and fresh: "input_key f \<notin> set (map fst (mapping p))"
    and strict: "strict \<longrightarrow> \<not> substring method_table_name (type_name (fst f))"
    and step: "place_explicit_field type_name base_size f (p, placed) = Ok (q, placed')"
  shows "explicit_ok strict base_size (q, placed')"
    and "\<exists>o'. fst (snd (snd f)) = Some o' \<and> mapping q = mapping p @
           [(input_key f, FieldLayout (base_size + o') (input_layout f))]"
proof -
  obtain own nm off l where [simp]: "f = (own, nm, off, l)" by (cases f)
  obtain o' g s where
    off: "off = Some o'"
    and g: "(populate_gc_desc l (base_size + o') (pl_gc_desc p)
             :: (type_resolution_error, gc_desc) outcome) = Ok g"
    and s: "(layout_size l :: (type_resolution_error, nat) outcome) = Ok s"
    and q: "q = \<lparr>mapping = AList.update (FieldKey own nm) (FieldLayout (base_size + o') l) (mapping p),
        pl_gc_desc = g, pl_has_refs = (pl_has_refs p \<or> has_managed_ptrs l),
        max_alignment = max (max_alignment p) (alignment l),
        pl_offset = max (pl_offset p) (base_size + o' + s)\<rparr>"
    and placed': "placed' = placed @ [(base_size + o', base_size + o' + s, l)]"
    and no: "\<not> list_ex (overlap_rejected (type_name own) (base_size + o') (base_size + o' + s) l) placed"
    using step
    by (auto simp: place_explicit_field_def outcome_simps usize_ops split: option.splits if_splits)
  have s': "s = exact_size l" using s by (rule layout_size_exact)
  have wf': "wf_layout l" using wf by (simp add: input_layout_def)
  have "placement_ok base_size q"
    unfolding q
    by (rule placement_ok_extend [OF _ wf' _ g])
      (use fresh s' ok in \<open>auto simp: explicit_ok_def input_key_def placement_ok_def\<close>)
  moreover show map_q: "\<exists>o'. fst (snd (snd f)) = Some o' \<and> mapping q = mapping p @
           [(input_key f, FieldLayout (base_size + o') (input_layout f))]"
    using fresh off q by (simp add: update_fresh input_key_def input_layout_def)
  moreover have "may_overlap (base_size + o', base_size + o' + s, l) prev"
    if "prev \<in> set placed" strict for prev
    using no that strict by (auto simp: list_ex_iff overlap_rejected_iff)
  ultimately show "explicit_ok strict base_size (q, placed')"
    using ok off s' placed'
    by (auto simp: explicit_ok_def sorted_wrt_append placed_entry_def input_layout_def)
qed

lemma place_explicit_fields:
  assumes "fold_outcome (place_explicit_field type_name base_size) fs (p, placed) = Ok (q, placed')"
    and "explicit_ok strict base_size (p, placed)" and "inputs_ok fs"
    and "input_key ` set fs \<inter> set (map fst (mapping p)) = {}"
    and "strict \<longrightarrow> (\<forall>f \<in> set fs. \<not> substring method_table_name (type_name (fst f)))"
  shows "explicit_ok strict base_size (q, placed') \<and> (\<exists>m. mapping q = mapping p @ m \<and>
     map (\<lambda>(k, f). (k, Some (position f), layout f)) m =
     map (\<lambda>f. (input_key f, map_option ((+) base_size) (fst (snd (snd f))), input_layout f)) fs)"
  using assms
proof (induction fs arbitrary: p placed)
  case (Cons f fs)
  obtain r pl where r: "place_explicit_field type_name base_size f (p, placed) = Ok (r, pl)"
      "fold_outcome (place_explicit_field type_name base_size) fs (r, pl) = Ok (q, placed')"
    using Cons.prems(1) by (auto simp: outcome_simps)
  have "wf_layout (input_layout f)" "input_key f \<notin> set (map fst (mapping p))"
      "strict \<longrightarrow> \<not> substring method_table_name (type_name (fst f))"
    using Cons.prems(3,4,5) by (auto simp: inputs_ok_def)
  note step = place_explicit_field_step [OF Cons.prems(2) this r(1)]
  obtain o' where o': "fst (snd (snd f)) = Some o'"
      "mapping r = mapping p @ [(input_key f, FieldLayout (base_size + o') (input_layout f))]"
    using step(2) by blast
  have "input_key ` set fs \<inter> set (map fst (mapping r)) = {}" "inputs_ok fs"
    using Cons.prems(3,4) o'(2) by (auto simp: inputs_ok_def)
  from Cons.IH [OF r(2) step(1) this(2,1)] Cons.prems(5) o' show ?case by auto
qed (auto simp: inputs_ok_def)

section \<open>The layouts the factory accepts\<close>

lemma create_field_layout_cases:
  assumes "create_field_layout type_name fs lay base_size base_alignment = Ok m"
  obtains (Auto) p t where "lay = Automatic"
      "(place_fields_sequentially fs base_size base_alignment usize_max
        :: (type_resolution_error, 'td placement \<times> nat) outcome) = Ok (p, t)"
      "m = FieldLayoutManager (mapping p) t (max_alignment p) (pl_gc_desc p) (pl_has_refs p)"
      "t \<le> 0x10000000"
  | (Seq) s packing c p t where "lay = Sequential s" "0 < packing"
      "packing = (case s of None \<Rightarrow> 8 | Some (pk, _) \<Rightarrow> if pk = 0 then 8 else pk)"
      "c = (case s of None \<Rightarrow> 0 | Some (_, c) \<Rightarrow> c)"
      "(place_fields_sequentially fs base_size base_alignment packing
        :: (type_resolution_error, 'td placement \<times> nat) outcome) = Ok (p, t)"
      "m = FieldLayoutManager (mapping p) (max t (base_size + c)) (max_alignment p) (pl_gc_desc p)
         (pl_has_refs p)"
      "max t (base_size + c) \<le> 0x10000000"
  | (Expl) e p placed t where "lay = Explicit e"
      "fold_outcome (place_explicit_field type_name base_size) fs
         (placement_start base_size base_alignment, []) = Ok (p, placed)"
      "m = FieldLayoutManager (mapping p) t (max_alignment p) (pl_gc_desc p) (pl_has_refs p)"
      "pl_offset p \<le> t" "t \<le> 0x10000000"
proof (cases lay)
  case Automatic
  with assms obtain p t where "(place_fields_sequentially fs base_size base_alignment usize_max
        :: (type_resolution_error, 'td placement \<times> nat) outcome) = Ok (p, t)" "\<not> t > 0x10000000"
      "m = FieldLayoutManager (mapping p) t (max_alignment p) (pl_gc_desc p) (pl_has_refs p)"
    by (auto simp: create_field_layout_def outcome_simps split: if_splits)
  with Automatic show thesis by (intro Auto [of p t]) simp_all
next
  case (Sequential s)
  define pk where "pk = (case s of None \<Rightarrow> 8 | Some (pk, _) \<Rightarrow> if pk = 0 then 8 else pk)"
  define c where "c = (case s of None \<Rightarrow> 0 | Some (_, c) \<Rightarrow> c)"
  have "(case s of None \<Rightarrow> (8, 0) | Some (pk, c) \<Rightarrow> (if pk = 0 then 8 else pk, c)) = (pk, c)"
    by (simp add: pk_def c_def split: option.splits)
  with Sequential assms obtain p t where "(place_fields_sequentially fs base_size base_alignment pk
        :: (type_resolution_error, 'td placement \<times> nat) outcome) = Ok (p, t)"
      "max t (base_size + c) \<le> 0x10000000"
      "m = FieldLayoutManager (mapping p) (max t (base_size + c)) (max_alignment p) (pl_gc_desc p)
         (pl_has_refs p)"
    by (auto simp: create_field_layout_def outcome_simps usize_ops not_less split: if_splits)
  moreover have "0 < pk" by (simp add: pk_def split: option.splits)
  ultimately show thesis
    using Sequential pk_def c_def by (intro Seq [of s pk c p t])
next
  case (Explicit e)
  with assms obtain p placed t where "fold_outcome (place_explicit_field type_name base_size) fs
         (placement_start base_size base_alignment, []) = Ok (p, placed)"
      "m = FieldLayoutManager (mapping p) t (max_alignment p) (pl_gc_desc p) (pl_has_refs p)"
      "pl_offset p \<le> t" "\<not> t > 0x10000000"
    by (auto simp: create_field_layout_def place_fields_explicitly_def outcome_simps usize_ops
          split: if_splits option.splits)
  with Explicit show thesis by (intro Expl [of e p placed t]) simp_all
qed

lemma explicit_start_ok: "explicit_ok strict base_size (placement_start base_size a, [])"
  using placement_start_ok by (simp add: explicit_ok_def placement_start_def)

lemma create_field_layout_placement:
  assumes "create_field_layout type_name fs lay base_size base_alignment = Ok m" and "inputs_ok fs"
  shows "\<exists>p. placement_ok base_size p \<and> flm_fields m = mapping p \<and> pl_offset p \<le> total_size m \<and>
    flm_alignment m = max_alignment p \<and> flm_gc_desc m = pl_gc_desc p \<and>
    has_ref_fields m = pl_has_refs p \<and> total_size m \<le> 0x10000000 \<and>
    map fst (mapping p) = map input_key fs"
  using assms(1)
proof (cases rule: create_field_layout_cases)
  case (Auto p t)
  note pl = place_fields_sequentially_Ok [OF Auto(2) assms(2) usize_max_pos]
  show ?thesis using pl Auto(3,4) by (intro exI [of _ p]) simp
next
  case (Seq s packing c p t)
  note pl = place_fields_sequentially_Ok [OF Seq(5) assms(2) Seq(2)]
  show ?thesis using pl Seq(6,7) by (intro exI [of _ p]) simp
next
  case (Expl e p placed t)
  have "explicit_ok False base_size (p, placed) \<and> (\<exists>m'. mapping p = m' \<and>
      map (\<lambda>(k, f). (k, Some (position f), layout f)) m' =
      map (\<lambda>f. (input_key f, map_option ((+) base_size) (fst (snd (snd f))), input_layout f)) fs)"
    using place_explicit_fields [OF Expl(2) explicit_start_ok [where strict = False] assms(2)]
    by (simp add: placement_start_def)
  then have "placement_ok base_size p"
    and "map fst (map (\<lambda>(k, f). (k, Some (position f), layout f)) (mapping p)) = map input_key fs"
    by (auto simp: explicit_ok_def)
  then show ?thesis using Expl(3-5) by (intro exI [of _ p]) (simp add: case_prod_unfold comp_def)
qed

lemma wf_layout_of_placement:
  assumes "placement_ok base_size p" and "pl_offset p \<le> t"
  shows "wf_layout (Field (FieldLayoutManager (mapping p) t (max_alignment p) (pl_gc_desc p)
    (pl_has_refs p)))"
  using assms unfolding placement_ok_def wf_layout.simps placed_offsets_def
  by (auto split: field_layout.splits)

lemma create_field_layout_summary:
  assumes "inputs_ok fs"
    and "create_field_layout type_name fs lay base_size base_alignment = Ok m"
  shows "wf_layout (Field m) \<and> map fst (flm_fields m) = map input_key fs \<and>
    base_size \<le> total_size m \<and> total_size m \<le> 0x10000000 \<and>
    (\<forall>(key, f) \<in> set (flm_fields m). base_size \<le> position f) \<and>
    gc_offsets (flm_gc_desc m) = scalar_offsets ObjectRef (Field m)"
proof -
  obtain p where p: "placement_ok base_size p" "flm_fields m = mapping p"
      "pl_offset p \<le> total_size m" "flm_alignment m = max_alignment p"
      "flm_gc_desc m = pl_gc_desc p" "has_ref_fields m = pl_has_refs p"
      "total_size m \<le> 0x10000000" "map fst (mapping p) = map input_key fs"
    using create_field_layout_placement [OF assms(2,1)] by blast
  have m: "m = FieldLayoutManager (mapping p) (total_size m) (max_alignment p) (pl_gc_desc p)
      (pl_has_refs p)" using p by (cases m) simp
  have wf: "wf_layout (Field m)"
    by (subst m) (rule wf_layout_of_placement [OF p(1,3)])
  moreover have "gc_offsets (flm_gc_desc m) = scalar_offsets ObjectRef (Field m)"
    using wf by (cases m) simp
  moreover have "\<forall>(key, f) \<in> set (flm_fields m). base_size \<le> position f"
  proof clarify
    fix key f assume "(key, f) \<in> set (flm_fields m)"
    with p(1,2) show "base_size \<le> position f"
      by (cases f) (auto simp: placement_ok_def)
  qed
  moreover have "base_size \<le> total_size m"
    using p(1,3) by (simp add: placement_ok_def)
  ultimately show ?thesis using p(2,7,8) by simp
qed


text \<open>A concrete type: a reference, a 32-bit integer and a byte.\<close>

definition sample_fields :: "nat field_input list" where
  "sample_fields = [(0, ''r'', None, Scalar ObjectRef), (0, ''i'', None, Scalar Int32),
     (0, ''b'', None, Scalar UInt8)]"

definition sample_layout :: "nat field_layout_manager" where
  "sample_layout = FieldLayoutManager
     [(FieldKey 0 ''r'', FieldLayout 0 (Scalar ObjectRef)),
      (FieldKey 0 ''i'', FieldLayout 8 (Scalar Int32)),
      (FieldKey 0 ''b'', FieldLayout 12 (Scalar UInt8))]
     16 8 \<lparr>bitmap = [1], unaligned_offsets = []\<rparr> False"

lemma sample_fields_ok: "inputs_ok sample_fields"
  by (simp add: inputs_ok_def sample_fields_def input_key_def input_layout_def)

lemma sample_create: "create_field_layout (\<lambda>_. ''T'') sample_fields Automatic 0 1 = Ok sample_layout"
  by (simp add: create_field_layout_def place_fields_sequentially_def place_sequential_field_def
      sample_fields_def sample_layout_def placement_start_def align_up_def alignment_const_def
      object_ref_size_def usize_ops usize_of_def usize_max_def set_offset_def gc_set_def Let_def
      bits_per_word_def resize_words_def gc_desc_default_def usub_def)


text \<open>
  C23: Automatic and sequential layouts place the fields in declaration order without overlap: the
  i-th stored field is the i-th declared one, it ends before every later field starts, and it is
  aligned to its own alignment capped by the packing size.
\<close>

theorem sequential_layout_disjoint:
  assumes "inputs_ok fs"
    and "create_field_layout type_name fs lay base_size base_alignment = Ok m"
    and "case lay of Automatic \<Rightarrow> packing = usize_max
         | Sequential None \<Rightarrow> packing = 8
         | Sequential (Some (pk, _)) \<Rightarrow> packing = (if pk = 0 then 8 else pk)
         | Explicit _ \<Rightarrow> False"
  shows "map (\<lambda>(k, f). (k, layout f)) (flm_fields m) = map (\<lambda>f. (input_key f, input_layout f)) fs \<and>
    (\<forall>j < length (flm_fields m). \<forall>i < j.
      position (snd (flm_fields m ! i)) + exact_size (layout (snd (flm_fields m ! i)))
        \<le> position (snd (flm_fields m ! j))) \<and>
    (\<forall>f \<in> set (flm_fields m). min (alignment (layout (snd f))) packing dvd position (snd f))"
proof -
  have "\<exists>p t. (place_fields_sequentially fs base_size base_alignment packing
        :: (type_resolution_error, 'a placement \<times> nat) outcome) = Ok (p, t) \<and>
      flm_fields m = mapping p \<and> 0 < packing"
    using assms(2)
  proof (cases rule: create_field_layout_cases)
    case (Auto p t)
    then show ?thesis using assms(3) usize_max_pos by auto
  next
    case (Seq s pk c p t)
    then show ?thesis using assms(3) by (auto split: option.splits)
  next
    case (Expl e p placed t)
    then show ?thesis using assms(3) by simp
  qed
  then obtain p t where p: "(place_fields_sequentially fs base_size base_alignment packing
        :: (type_resolution_error, 'a placement \<times> nat) outcome) = Ok (p, t)"
      "flm_fields m = mapping p" "0 < packing" by blast
  note pl = place_fields_sequentially_Ok [OF p(1) assms(1) p(3)]
  have "zip (map fst (mapping p)) (map (layout \<circ> snd) (mapping p)) =
      zip (map input_key fs) (map input_layout fs)"
    by (simp only: pl(2,3))
  then have "map (\<lambda>(k, f). (k, layout f)) (mapping p) = map (\<lambda>f. (input_key f, input_layout f)) fs"
    by (simp add: zip_map_map zip_same_conv_map case_prod_unfold comp_def)
  then show ?thesis
    using p(2) seq_chain_ordered [OF pl(4)] seq_chain_aligned [OF pl(4)] by auto
qed

theorem sequential_layout_disjoint_witness:
  "map (\<lambda>(k, f). (k, layout f)) (flm_fields sample_layout) =
     map (\<lambda>f. (input_key f, input_layout f)) sample_fields \<and>
   position (snd (flm_fields sample_layout ! 0)) + 8 \<le> position (snd (flm_fields sample_layout ! 2))"
  using sequential_layout_disjoint [OF sample_fields_ok sample_create, of usize_max]
  by (simp add: sample_layout_def object_ref_size_def)


text \<open>A union of an integer with two names for one reference behind it.\<close>

definition sample_union :: "nat field_input list" where
  "sample_union = [(0, ''i'', Some 0, Scalar Int32), (0, ''f'', Some 0, Scalar Float32),
     (0, ''r'', Some 8, Scalar ObjectRef), (0, ''s'', Some 8, Scalar ObjectRef)]"

definition sample_union_layout :: "nat field_layout_manager" where
  "sample_union_layout = FieldLayoutManager
     [(FieldKey 0 ''i'', FieldLayout 0 (Scalar Int32)),
      (FieldKey 0 ''f'', FieldLayout 0 (Scalar Float32)),
      (FieldKey 0 ''r'', FieldLayout 8 (Scalar ObjectRef)),
      (FieldKey 0 ''s'', FieldLayout 8 (Scalar ObjectRef))]
     16 8 \<lparr>bitmap = [2], unaligned_offsets = []\<rparr> False"

lemma sample_union_create:
  "create_field_layout (\<lambda>_. ''T'') sample_union (Explicit None) 0 1 = Ok sample_union_layout"
  by (simp add: create_field_layout_def place_fields_explicitly_def place_explicit_field_def
      sample_union_def sample_union_layout_def placement_start_def alignment_const_def
      object_ref_size_def usize_ops usize_of_def usize_max_def set_offset_def gc_set_def Let_def
      bits_per_word_def resize_words_def gc_desc_default_def overlap_rejected_def)


section \<open>Layouts with base types\<close>

lemma fold_update_fresh:
  "distinct (map fst b) \<Longrightarrow> fst ` set b \<inter> fst ` set m = {} \<Longrightarrow>
     fold (\<lambda>(k, f). AList.update k f) b m = m @ b"
  by (induction b arbitrary: m) (auto simp: update_fresh)

lemma case_field_layout:
  "(case f of FieldLayout pos l \<Rightarrow> g pos l) = g (position f) (layout f)"
  by (cases f) simp

lemma wf_layout_Field:
  "wf_layout (Field m) \<longleftrightarrow> flm_alignment m > 0 \<and> distinct (map fst (flm_fields m)) \<and>
     gc_desc_invar (flm_gc_desc m) \<and>
     (\<forall>e \<in> set (flm_fields m). wf_layout (layout (snd e)) \<and>
        position (snd e) + exact_size (layout (snd e)) \<le> total_size m \<and>
        (has_managed_ptrs (layout (snd e)) \<longrightarrow> has_ref_fields m)) \<and>
     gc_offsets (flm_gc_desc m) = (\<Union>e \<in> set (flm_fields m).
       (+) (position (snd e)) ` scalar_offsets ObjectRef (layout (snd e)))"
  by (cases m) (simp add: case_field_layout case_prod_unfold)

lemma merge_base_wf:
  assumes "wf_layout (Field m)" and "wf_layout (Field b)" and "total_size b \<le> total_size m"
    and "fst ` set (flm_fields b) \<inter> fst ` set (flm_fields m) = {}"
  shows "wf_layout (Field (merge_base m (Some b)))"
    and "flm_fields (merge_base m (Some b)) = flm_fields m @ flm_fields b"
proof -
  have d: "distinct (map fst (flm_fields b))" using assms(2) by (simp add: wf_layout_Field)
  show fs: "flm_fields (merge_base m (Some b)) = flm_fields m @ flm_fields b"
    by (simp add: merge_base_def fold_update_fresh [OF d assms(4)])
  have "total_size (merge_base m (Some b)) = total_size m"
    "flm_alignment (merge_base m (Some b)) = flm_alignment m"
    "flm_gc_desc (merge_base m (Some b)) = gc_merge (flm_gc_desc m) (flm_gc_desc b)"
    "has_ref_fields (merge_base m (Some b)) = (has_ref_fields m \<or> has_ref_fields b)"
    by (simp_all add: merge_base_def)
  then show "wf_layout (Field (merge_base m (Some b)))"
    using assms fs d unfolding wf_layout_Field
    by (auto simp: gcd.merge_offsets gcd.merge_invar intro: order_trans)
qed

text \<open>What the metadata of a type and its bases must satisfy: the field layouts come well formed
  from the resolver, the selected field names of each type are distinct, no type occurs twice
  and none is an inline array.\<close>

definition type_info_ok :: "('td field_info \<Rightarrow> bool) \<Rightarrow> 'td type_info \<Rightarrow> bool" where
  "type_info_ok pred ti \<longleftrightarrow> distinct (map fi_name (filter pred (ti_fields ti))) \<and>
     list_all (\<lambda>f. case fi_type_layout f of Ok l \<Rightarrow> wf_layout l | _ \<Rightarrow> True) (ti_fields ti) \<and>
     (case inline_array_length (ti_attributes ti) of Some n \<Rightarrow> n \<le> 1 | None \<Rightarrow> True)"

lemma collect_inputs:
  assumes "collect_outcome (\<lambda>f. map_outcome (\<lambda>x. [x]) (collect_field_input ti f)) fs = Ok inputs"
    and "list_all (\<lambda>f. case fi_type_layout f of Ok l \<Rightarrow> wf_layout l | _ \<Rightarrow> True) fs"
  shows "map input_key inputs = map (\<lambda>f. FieldKey (ti_td ti) (fi_name f)) fs \<and>
    (\<forall>i \<in> set inputs. wf_layout (input_layout i))"
  using assms
proof (induction fs arbitrary: inputs)
  case (Cons f fs)
  obtain x xs where x: "collect_field_input ti f = Ok x" "inputs = x # xs"
      "collect_outcome (\<lambda>f. map_outcome (\<lambda>x. [x]) (collect_field_input ti f)) fs = Ok xs"
    using Cons.prems(1) by (auto simp: outcome_simps)
  have "input_key x = FieldKey (ti_td ti) (fi_name f) \<and> wf_layout (input_layout x)"
    using x(1) Cons.prems(2)
    by (auto simp: outcome_simps collect_field_input_def input_key_def input_layout_def
          split: if_splits)
  with Cons.IH [OF x(3)] Cons.prems(2) x(2) show ?case by simp
qed simp

lemma expand_inline_array_trivial:
  "(case len of Some n \<Rightarrow> n \<le> 1 | None \<Rightarrow> True) \<Longrightarrow> expand_inline_array td len m = Ok m"
  by (auto simp: expand_inline_array_def split: option.splits)

lemma type_fields_layout:
  assumes "type_info_ok pred ti"
    and "collect_outcome (\<lambda>f. map_outcome (\<lambda>x. [x]) (collect_field_input ti f))
           (filter pred (ti_fields ti)) = Ok inputs"
    and "create_field_layout type_name inputs lay base_size base_alignment = Ok m"
  shows "wf_layout (Field m)" and "owner ` fst ` set (flm_fields m) \<subseteq> {ti_td ti}"
    and "base_size \<le> total_size m" and "\<forall>e \<in> set (flm_fields m). base_size \<le> position (snd e)"
proof -
  have inp: "map input_key inputs = map (\<lambda>f. FieldKey (ti_td ti) (fi_name f)) (filter pred (ti_fields ti)) \<and>
      (\<forall>i \<in> set inputs. wf_layout (input_layout i))"
    by (rule collect_inputs [OF assms(2)]) (use assms(1) in \<open>simp add: type_info_ok_def list_all_iff\<close>)
  have "inputs_ok inputs"
    using inp assms(1) by (simp add: inputs_ok_def type_info_ok_def distinct_map inj_on_def)
  note sum = create_field_layout_summary [OF this assms(3)]
  then show "wf_layout (Field m)" "base_size \<le> total_size m" by auto
  have "set (map fst (flm_fields m)) = set (map input_key inputs)" using sum by simp
  then show "owner ` fst ` set (flm_fields m) \<subseteq> {ti_td ti}" using inp by auto
  show "\<forall>e \<in> set (flm_fields m). base_size \<le> position (snd e)"
    using sum by (auto simp: case_prod_unfold)
qed

lemma collect_fields_invariant:
  assumes "\<forall>t \<in> set (ti # bases). type_info_ok pred t"
    and "distinct (map ti_td (ti # bases))"
    and "collect_fields type_name pred include_base ti bases = Ok m"
  shows "wf_layout (Field m) \<and> owner ` fst ` set (flm_fields m) \<subseteq> ti_td ` set (ti # bases) \<and>
    (include_base \<longrightarrow> (case bases of [] \<Rightarrow> True | b # bs \<Rightarrow>
      \<exists>mb. collect_fields type_name pred include_base b bs = Ok mb \<and>
        total_size mb \<le> total_size m \<and> set (flm_fields mb) \<subseteq> set (flm_fields m) \<and>
        (\<forall>e \<in> set (flm_fields m). owner (fst e) = ti_td ti \<longrightarrow> total_size mb \<le> position (snd e))))"
  using assms
proof (induction bases arbitrary: ti m)
  case Nil
  then obtain inputs m' where m': "collect_outcome (\<lambda>f. map_outcome (\<lambda>x. [x])
        (collect_field_input ti f)) (filter pred (ti_fields ti)) = Ok inputs"
      "create_field_layout type_name inputs (ti_layout ti) 0 1 = Ok m'"
      "expand_inline_array (ti_td ti) (inline_array_length (ti_attributes ti)) m' = Ok m"
    by (auto simp: outcome_simps merge_base_def)
  have "m = m'" using m'(3) Nil.prems(1) by (simp add: expand_inline_array_trivial type_info_ok_def)
  with type_fields_layout [OF _ m'(1,2)] Nil.prems(1) show ?case by simp
next
  case (Cons b bs)
  note ti = Cons.prems(1) [simplified, THEN conjunct1]
  show ?case
  proof (cases include_base)
    case False
    with Cons.prems(3) obtain inputs m' where m': "collect_outcome (\<lambda>f. map_outcome (\<lambda>x. [x])
          (collect_field_input ti f)) (filter pred (ti_fields ti)) = Ok inputs"
        "create_field_layout type_name inputs (ti_layout ti) 0 1 = Ok m'"
        "expand_inline_array (ti_td ti) (inline_array_length (ti_attributes ti)) m' = Ok m"
      by (auto simp: outcome_simps merge_base_def)
    have "m = m'" using m'(3) ti by (simp add: expand_inline_array_trivial type_info_ok_def)
    with type_fields_layout [OF ti m'(1,2)] False show ?thesis by auto
  next
    case True
    with Cons.prems(3) obtain mb inputs m' where mb: "collect_fields type_name pred True b bs = Ok mb"
      and m': "collect_outcome (\<lambda>f. map_outcome (\<lambda>x. [x]) (collect_field_input ti f))
          (filter pred (ti_fields ti)) = Ok inputs"
        "create_field_layout type_name inputs (ti_layout ti) (total_size mb) (flm_alignment mb) = Ok m'"
        "expand_inline_array (ti_td ti) (inline_array_length (ti_attributes ti))
           (merge_base m' (Some mb)) = Ok m"
      by (auto simp: outcome_simps simp del: collect_fields.simps simp: collect_fields.simps [of _ _ _ ti])
    have m: "m = merge_base m' (Some mb)"
      using m'(3) ti by (simp add: expand_inline_array_trivial type_info_ok_def)
    have IH: "wf_layout (Field mb)" "owner ` fst ` set (flm_fields mb) \<subseteq> ti_td ` set (b # bs)"
      using Cons.IH [of b mb] Cons.prems(1,2) mb True by auto
    note own = type_fields_layout [OF ti m'(1,2)]
    have ne: "owner (fst e) \<noteq> ti_td ti" if "e \<in> set (flm_fields mb)" for e
    proof -
      have "owner (fst e) \<in> ti_td ` set (b # bs)" using IH(2) that by blast
      moreover have "ti_td ti \<notin> ti_td ` set (b # bs)"
        using Cons.prems(2) by (metis distinct.simps(2) list.map(2) list.set_map)
      ultimately show ?thesis by metis
    qed
    have "fst ` set (flm_fields mb) \<inter> fst ` set (flm_fields m') = {}"
      using ne own(2) by (fastforce simp: image_subset_iff)
    note mg = merge_base_wf [OF own(1) IH(1) own(3) this]
    have sub: "owner ` fst ` set (flm_fields m) \<subseteq> ti_td ` set (ti # b # bs)"
      unfolding m mg(2) set_append image_Un
      by (intro Un_least order_trans [OF own(2)] order_trans [OF IH(2)]) auto
    have size: "total_size m = total_size m'" by (simp add: m merge_base_def)
    have "\<forall>e \<in> set (flm_fields m). owner (fst e) = ti_td ti \<longrightarrow> total_size mb \<le> position (snd e)"
      unfolding m mg(2) using own(4) ne by auto
    moreover have "set (flm_fields mb) \<subseteq> set (flm_fields m)" by (simp add: m mg(2))
    ultimately show ?thesis
      using True mb mg(1) own(3) sub size unfolding m
      by (simp only: list.case simp_thms) blast
  qed
qed

text \<open>
  The instance layout of a class extends the layout of its base class: it is well formed,
  every field the base layout knows is found at the same place in the derived layout (so code
  compiled against the base class reads the same bytes), and the fields the class declares
  itself lie behind the base class's storage.
\<close>

theorem instance_fields_extends_base:
  assumes "\<forall>t \<in> set (ti # b # bs). type_info_ok (\<lambda>f. \<not> fi_static f) t"
    and "distinct (map ti_td (ti # b # bs))"
    and "instance_fields type_name (Ok False) ti (b # bs) = Ok m"
  shows "\<exists>mb. instance_fields type_name (Ok False) b bs = Ok mb \<and> wf_layout (Field m) \<and>
    (\<forall>own nm f. get_field mb own nm = Some f \<longrightarrow> get_field m own nm = Some f) \<and>
    (\<forall>nm f. get_field m (ti_td ti) nm = Some f \<longrightarrow> total_size mb \<le> position f)"
proof -
  have "collect_fields type_name (\<lambda>f. \<not> fi_static f) True ti (b # bs) = Ok m"
    using assms(3) by (simp add: instance_fields_def del: collect_fields.simps)
  from collect_fields_invariant [OF assms(1,2) this]
  obtain mb where mb: "collect_fields type_name (\<lambda>f. \<not> fi_static f) True b bs = Ok mb"
      "wf_layout (Field m)" "set (flm_fields mb) \<subseteq> set (flm_fields m)"
      "\<forall>e \<in> set (flm_fields m). owner (fst e) = ti_td ti \<longrightarrow> total_size mb \<le> position (snd e)"
    by (auto simp del: collect_fields.simps)
  have d: "distinct (map fst (flm_fields m))" using mb(2) by (simp add: wf_layout_Field)
  have "get_field m own nm = Some f" if "get_field mb own nm = Some f" for own nm f
    using that mb(3) map_of_is_SomeI [OF d] by (auto simp: get_field_def dest!: map_of_SomeD)
  moreover have "total_size mb \<le> position f" if "get_field m (ti_td ti) nm = Some f" for nm f
    using that mb(4) by (fastforce simp: get_field_def dest!: map_of_SomeD)
  ultimately show ?thesis
    using mb(1,2) by (auto simp: instance_fields_def simp del: collect_fields.simps)
qed

definition sample_base :: "nat type_info" where
  "sample_base = \<lparr>ti_td = 1, ti_base_generics = Ok (), ti_fields =
     [\<lparr>fi_name = ''x'', fi_offset = None, fi_by_ref = False, fi_static = False,
       fi_handle_slot = False, fi_type_layout = Ok (Scalar ObjectRef)\<rparr>],
     ti_layout = Automatic, ti_byref_like = False, ti_attributes = []\<rparr>"

definition sample_derived :: "nat type_info" where
  "sample_derived = \<lparr>ti_td = 2, ti_base_generics = Ok (), ti_fields =
     [\<lparr>fi_name = ''x'', fi_offset = None, fi_by_ref = False, fi_static = False,
       fi_handle_slot = False, fi_type_layout = Ok (Scalar Int32)\<rparr>],
     ti_layout = Automatic, ti_byref_like = False, ti_attributes = []\<rparr>"

definition sample_derived_layout :: "nat field_layout_manager" where
  "sample_derived_layout = FieldLayoutManager
     [(FieldKey 2 ''x'', FieldLayout 8 (Scalar Int32)),
      (FieldKey 1 ''x'', FieldLayout 0 (Scalar ObjectRef))]
     16 8 \<lparr>bitmap = [1], unaligned_offsets = []\<rparr> False"

lemmas layout_eval = create_field_layout_def place_fields_sequentially_def
  place_sequential_field_def placement_start_def align_up_def alignment_const_def
  object_ref_size_def usize_ops usize_of_def usize_max_def set_offset_def gc_set_def Let_def
  bits_per_word_def resize_words_def gc_desc_default_def usub_def

lemma sample_instance_fields:
  "instance_fields (\<lambda>_. ''T'') (Ok False) sample_derived [sample_base] = Ok sample_derived_layout"
  by (simp add: instance_fields_def sample_derived_def sample_base_def sample_derived_layout_def
      layout_eval collect_field_input_def merge_base_def gc_merge_def expand_inline_array_def)

theorem instance_fields_extends_base_witness:
  "wf_layout (Field sample_derived_layout) \<and>
   instance_fields (\<lambda>_. ''T'') (Ok False) sample_derived [sample_base] = Ok sample_derived_layout"
proof -
  have "\<forall>t \<in> set [sample_derived, sample_base]. type_info_ok (\<lambda>f. \<not> fi_static f) t"
    "distinct (map ti_td [sample_derived, sample_base])"
    by (simp_all add: type_info_ok_def sample_base_def sample_derived_def)
  from instance_fields_extends_base [OF this sample_instance_fields] sample_instance_fields
  show ?thesis by blast
qed

section \<open>Inline arrays\<close>

text \<open>
  Expanding a struct to an inline array of \<open>n\<close> elements makes room for all of them and lets
  the GC descriptor mark exactly the object references of every element, not only of the
  declared one.
\<close>

theorem expand_inline_array_refs:
  assumes "expand_inline_array td (Some n) m = Ok m'" and "1 < n"
    and "first_own_field td (flm_fields m) = Some f" and "wf_layout (layout f)"
    and "is_or_contains_refs (layout f)" and "position f + exact_size (layout f) * n \<le> usize_max"
  shows "gc_offsets (flm_gc_desc m') = (\<Union>i < n.
      (+) (position f + exact_size (layout f) * i) ` scalar_offsets ObjectRef (layout f)) \<and>
    position f + exact_size (layout f) * n \<le> total_size m' \<and> flm_fields m' = flm_fields m"
proof -
  let ?s = "exact_size (layout f)"
  have clamp: "usat (position f + usat (?s * i)) = position f + ?s * i" if "i \<le> n" for i
  proof -
    have "?s * i \<le> ?s * n" using that by (rule mult_le_mono2)
    with assms(6) show ?thesis unfolding usat_def by linarith
  qed
  obtain s t g where s: "(layout_size (layout f) :: (type_resolution_error, nat) outcome) = Ok s"
    and t: "(align_up (usat (position f + usat (s * n))) (max (flm_alignment m) 1)
             :: (type_resolution_error, nat) outcome) = Ok t"
    and loop: "fold_outcome (\<lambda>i. populate_gc_desc (layout f) (usat (position f + usat (s * i))))
         [0..<n] gc_desc_default = (Ok g :: (type_resolution_error, gc_desc) outcome)"
    and m': "m' = FieldLayoutManager (flm_fields m) t (flm_alignment m) g True"
    using assms(1-3,5) by (auto simp: expand_inline_array_def outcome_simps)
  have s': "s = ?s" using s by (rule layout_size_exact)
  have "gc_offsets g = gc_offsets gc_desc_default \<union>
      (\<Union>i \<in> set [0..<n]. (+) (position f + ?s * i) ` scalar_offsets ObjectRef (layout f))"
    by (rule fold_outcome_union(2) [where I = gc_desc_invar, OF loop gcd.empty_invar])
      (use populate_gc_desc_Ok [OF assms(4)] in \<open>auto simp: s' clamp\<close>)
  moreover have "position f + ?s * n \<le> t"
    using align_up_Ok(3) [OF t] by (simp add: s' clamp)
  ultimately show ?thesis by (simp add: m' gcd.empty_offsets atLeast0LessThan)
qed

definition sample_cell :: "nat field_layout_manager" where
  "sample_cell = FieldLayoutManager [(FieldKey 0 ''e'', FieldLayout 0 (Scalar ObjectRef))]
     8 8 \<lparr>bitmap = [1], unaligned_offsets = []\<rparr> False"

definition sample_buffer :: "nat field_layout_manager" where
  "sample_buffer = FieldLayoutManager [(FieldKey 0 ''e'', FieldLayout 0 (Scalar ObjectRef))]
     24 8 \<lparr>bitmap = [7], unaligned_offsets = []\<rparr> True"

lemma sample_buffer_expand: "expand_inline_array 0 (Some 3) sample_cell = Ok sample_buffer"
  by (simp add: expand_inline_array_def sample_cell_def sample_buffer_def first_own_field_def
      layout_eval usat_def upt_rec)

theorem expand_inline_array_refs_witness:
  "gc_offsets (flm_gc_desc sample_buffer) = (\<Union>i < 3. (+) (0 + 8 * i) ` {0})"
  using expand_inline_array_refs [OF sample_buffer_expand, of "FieldLayout 0 (Scalar ObjectRef)"]
  by (simp add: sample_cell_def first_own_field_def object_ref_size_def usize_max_def)

text \<open>
  The byrefs of an inline array are not all visited: the field map of the expanded layout still
  holds one element, so for an inline array of two byrefs the tracer visits the byref of the
  first element only, although the storage has room for both.
\<close>

theorem inline_array_byrefs_visited_once:
  "\<exists>m. expand_inline_array (0 :: nat) (Some 2)
      (FieldLayoutManager [(FieldKey 0 ''e'', FieldLayout 0 (Scalar ManagedPtr))] 24 8
         gc_desc_default True) = Ok m \<and>
     total_size m = 2 * managed_ptr_size \<and>
     (field_trace_offsets m (total_size m) :: (unit, nat list \<times> nat list) outcome) = Ok ([], [0])"
  by (simp add: expand_inline_array_def first_own_field_def layout_eval usat_def upt_rec
      managed_ptr_size_def field_trace_offsets_def gc_trace_offsets_def for_each_word_index_def)

end
