(* ===== verification/Bytes.thy ===== *)
theory Bytes
  imports Prelude
begin

unbundle bit_operations_syntax

text \<open>
  Little-endian byte images of machine words: \<open>to_ne_bytes\<close>, \<open>from_ne_bytes\<close> and the unaligned
  pointer-sized reads and writes on a little-endian host. The interface locale \<open>byte_codec\<close>
  states the round trip the storage code relies on, once per width.
\<close>

definition le_bytes :: "'a::len word \<Rightarrow> u8 list" where
  "le_bytes w = map (\<lambda>i. ucast (drop_bit (8 * i) w)) [0..<LENGTH('a) div 8]"

definition from_le_bytes :: "u8 list \<Rightarrow> 'a::len word" where
  "from_le_bytes bs = foldr (\<lambda>b acc. push_bit 8 acc OR ucast b) bs 0"

lemma length_le_bytes [simp]: "length (le_bytes (w :: 'a::len word)) = LENGTH('a) div 8"
  by (simp add: le_bytes_def)

lemma bit_from_le_bytes:
  "bit (from_le_bytes bs :: 'a::len word) i \<longleftrightarrow>
     i < LENGTH('a) \<and> i div 8 < length bs \<and> bit (bs ! (i div 8)) (i mod 8)"
proof (induction bs arbitrary: i)
  case (Cons b bs)
  have step: "(from_le_bytes (b # bs) :: 'a word) = push_bit 8 (from_le_bytes bs) OR ucast b"
    by (simp add: from_le_bytes_def)
  show ?case
  proof (cases "i < 8")
    case True
    then show ?thesis by (auto simp: step bit_simps)
  next
    case False
    then obtain j where "i = j + 8" by (metis add.commute le_Suc_ex not_less)
    moreover have "(j + 8) div 8 = Suc (j div 8)" "\<not> bit b (j + 8)"
      using bit_imp_le_length [of b "j + 8"] by auto
    ultimately show ?thesis
      by (auto simp: step bit_simps Cons)
  qed
qed (simp add: from_le_bytes_def)

lemma from_le_bytes_le_bytes:
  assumes "8 dvd LENGTH('a)"
  shows "from_le_bytes (le_bytes w) = (w :: 'a::len word)"
proof (rule bit_word_eqI)
  fix i assume i: "i < LENGTH('a)"
  then have "i div 8 < LENGTH('a) div 8"
    using assms by (auto elim!: dvdE simp: div_less_iff_less_mult)
  moreover have "8 * (i div 8) + i mod 8 = i" by simp
  ultimately show "bit (from_le_bytes (le_bytes w) :: 'a word) i = bit w i"
    using i by (auto simp: bit_from_le_bytes le_bytes_def bit_simps add.commute)
qed

lemma le_bytes_from_le_bytes:
  assumes "length bs = LENGTH('a) div 8" and "8 dvd LENGTH('a)"
  shows "le_bytes (from_le_bytes bs :: 'a::len word) = bs"
proof (rule nth_equalityI)
  fix k assume k: "k < length (le_bytes (from_le_bytes bs :: 'a word))"
  show "le_bytes (from_le_bytes bs :: 'a word) ! k = bs ! k"
  proof (rule bit_word_eqI)
    fix j assume "j < LENGTH(8)"
    then have j: "j < 8" by simp
    have "k * 8 + 8 \<le> LENGTH('a)"
      using k assms by (auto elim!: dvdE)
    with j k assms(1) show "bit (le_bytes (from_le_bytes bs :: 'a word) ! k) j = bit (bs ! k) j"
      by (auto simp: le_bytes_def bit_simps bit_from_le_bytes)
  qed
qed (simp add: assms(1))

section \<open>The codec interface\<close>

text \<open>What storage code relies on: a value of a fixed number of bytes can be written and read back.\<close>

locale byte_codec =
  fixes encode :: "'a \<Rightarrow> u8 list" and decode :: "u8 list \<Rightarrow> 'a" and size :: nat
  assumes encode_length: "length (encode v) = size"
    and decode_encode: "decode (encode v) = v"
    and encode_decode: "length bs = size \<Longrightarrow> encode (decode bs) = bs"
begin

lemma encode_inject: "encode v = encode w \<longleftrightarrow> v = w"
  by (metis decode_encode)

lemma decode_prefix: "decode (take size (encode v @ rest)) = v"
  by (simp add: encode_length decode_encode)

lemma decode_at:
  "length pre = n \<Longrightarrow> decode (take size (drop n (pre @ encode v @ rest))) = v"
  using decode_prefix by simp

lemma decode_injective:
  "length bs = size \<Longrightarrow> length cs = size \<Longrightarrow> decode bs = decode cs \<Longrightarrow> bs = cs"
  by (metis encode_decode)

end

interpretation codec8: byte_codec "le_bytes :: u8 \<Rightarrow> u8 list" from_le_bytes 1
  by unfold_locales (simp_all add: from_le_bytes_le_bytes le_bytes_from_le_bytes)

interpretation codec16: byte_codec "le_bytes :: u16 \<Rightarrow> u8 list" from_le_bytes 2
  by unfold_locales (simp_all add: from_le_bytes_le_bytes le_bytes_from_le_bytes)

interpretation codec32: byte_codec "le_bytes :: u32 \<Rightarrow> u8 list" from_le_bytes 4
  by unfold_locales (simp_all add: from_le_bytes_le_bytes le_bytes_from_le_bytes)

interpretation codec64: byte_codec "le_bytes :: u64 \<Rightarrow> u8 list" from_le_bytes 8
  by unfold_locales (simp_all add: from_le_bytes_le_bytes le_bytes_from_le_bytes)

end
