(* ===== verification/Object_Ref.thy ===== *)
theory Object_Ref
  imports Bytes
begin

unbundle bit_operations_syntax

text \<open>
  Object references and their pointer-sized storage form
  (\<open>dotnet-value/src/object/mod.rs\<close>): a live reference is stored with tag 5 and the owner arena in
  the upper bits of the address. The object headers and the arena registry, which the codec
  consults, are the fields of an environment. The model is the build without the optional
  memory validation checks.
\<close>

section \<open>Definitions\<close>

type_synonym object_ref = "usize option"

datatype object_codec_error =
    ShortStorage nat | InvalidAddress usize | UnrepresentableOwner u64 | OwnerUnavailable u64

record arena_env =
  owner_id :: "usize \<Rightarrow> u64"
  arena_leased :: "u64 \<Rightarrow> bool"

definition arena_id_invalid :: u64 where
  "arena_id_invalid = - 1"

definition check_compact_address :: "usize \<Rightarrow> (object_codec_error, unit) outcome" where
  "check_compact_address addr =
     (if addr = 0 \<or> addr AND 7 \<noteq> 0 \<or> addr \<ge> push_bit 48 1 then Err (InvalidAddress addr) else Ok ())"

definition check_object_storage :: "nat \<Rightarrow> (object_codec_error, unit) outcome" where
  "check_object_storage len = (if len < 8 then Err (ShortStorage len) else Ok ())"

definition try_to_storage_ptr :: "arena_env \<Rightarrow> object_ref \<Rightarrow> (object_codec_error, usize) outcome" where
  "try_to_storage_ptr env r =
     (case r of
        None \<Rightarrow> Ok 0
      | Some ptr \<Rightarrow>
          let own = owner_id env ptr in
          if own \<noteq> arena_id_invalid then
            (if uint own < 2 ^ 16 then
               and_then (check_compact_address ptr) (\<lambda>_.
                 if arena_leased env own then Ok (ptr OR 5 OR push_bit 48 own)
                 else Err (OwnerUnavailable own))
             else Err (UnrepresentableOwner own))
          else Ok ptr)"

definition try_from_storage_ptr :: "arena_env \<Rightarrow> usize \<Rightarrow> (object_codec_error, object_ref) outcome" where
  "try_from_storage_ptr env addr =
     (if addr AND 7 = 5 then
        (let own = (ucast (ucast (drop_bit 48 addr) :: u16) :: u64);
             real = addr AND 0x0000FFFFFFFFFFF8
         in and_then (check_compact_address real) (\<lambda>_.
              if arena_leased env own then Ok (Some real) else Err (OwnerUnavailable own)))
      else if addr AND 1 \<noteq> 0 \<or> addr = 0 then Ok None
      else Ok (Some addr))"

definition object_ref_write :: "arena_env \<Rightarrow> object_ref \<Rightarrow> u8 list \<Rightarrow> (object_codec_error, u8 list) outcome" where
  "object_ref_write env r dest =
     (case check_object_storage (length dest) of
        Ok _ \<Rightarrow> (case try_to_storage_ptr env r of
                   Ok ptr \<Rightarrow> Ok (le_bytes ptr @ drop 8 dest) | _ \<Rightarrow> Panic)
      | _ \<Rightarrow> Panic)"

definition try_read_unchecked :: "arena_env \<Rightarrow> u8 list \<Rightarrow> (object_codec_error, object_ref) outcome" where
  "try_read_unchecked env source =
     and_then (check_object_storage (length source)) (\<lambda>_.
       try_from_storage_ptr env (from_le_bytes (take 8 source)))"

section \<open>Round trips\<close>

text \<open>The handle addresses the collector hands out: non-null and eight-byte aligned.\<close>

definition valid_handle :: "usize \<Rightarrow> bool" where
  "valid_handle a \<longleftrightarrow> a \<noteq> 0 \<and> a AND 7 = 0"

definition valid_ref :: "object_ref \<Rightarrow> bool" where
  "valid_ref r \<longleftrightarrow> (case r of None \<Rightarrow> True | Some a \<Rightarrow> valid_handle a)"

lemma low_bits_clear: "(a :: usize) AND 7 = 0 \<Longrightarrow> i < 3 \<Longrightarrow> \<not> bit a i"
proof -
  assume a: "a AND 7 = 0" and i: "i < 3"
  have "bit (a AND mask 3) i \<longleftrightarrow> bit a i" using i by (simp add: bit_simps)
  moreover have "(mask 3 :: usize) = 7" by (simp add: mask_numeral)
  ultimately show ?thesis using a by (metis bit_0_eq bot_apply bot_bool_def)
qed

lemma usize_7: "(7 :: usize) = mask 3"
  by (simp add: mask_numeral)

lemma usize_mask48: "(0x0000FFFFFFFFFFF8 :: usize) = mask 48 AND NOT (mask 3)"
  by (simp add: mask_numeral)

lemma bit_int_5: "bit (5 :: int) i \<longleftrightarrow> i = 0 \<or> i = 2"
proof -
  have five: "(5 :: int) = push_bit 0 1 OR push_bit 2 1" by simp
  show ?thesis
    unfolding five by (simp only: bit_or_iff bit_push_bit_iff bit_1_iff possible_bit_int) auto
qed

lemma take_bit_below:
  fixes a :: "'a::len word"
  assumes "uint a < 2 ^ n"
  shows "take_bit n a = a"
proof -
  have "uint (take_bit n a) = uint a"
    using assms by (simp add: unsigned_take_bit_eq take_bit_int_eq_self_iff)
  then show ?thesis by (simp add: word_uint_eq_iff)
qed

lemma below_48: "(a :: usize) < push_bit 48 1 \<Longrightarrow> 48 \<le> i \<Longrightarrow> \<not> bit a i"
proof -
  assume a: "a < push_bit 48 1" and i: "48 \<le> i"
  have "uint a < 2 ^ 48" using a by (simp add: word_less_def push_bit_eq_mult)
  then have "take_bit 48 a = a" by (rule take_bit_below)
  then show ?thesis using i by (metis bit_take_bit_iff not_less)
qed

lemma tagged_ptr_fields:
  fixes a own :: usize
  assumes "a AND 7 = 0" and "a < push_bit 48 1"
  shows "(a OR 5 OR push_bit 48 own) AND 7 = 5"
    and "(a OR 5 OR push_bit 48 own) AND 0x0000FFFFFFFFFFF8 = a"
    and "drop_bit 48 (a OR 5 OR push_bit 48 own) = take_bit 16 own"
proof -
  note low = low_bits_clear [OF assms(1)] and high = below_48 [OF assms(2)]
  have range: "n < 48" "3 \<le> n" if "bit a n" for n
    using low [of n] high [of n] that by (auto simp: not_less [symmetric])
  have lt3: "i < 3 \<longleftrightarrow> i = 0 \<or> i = 1 \<or> i = 2" for i :: nat by auto
  show "(a OR 5 OR push_bit 48 own) AND 7 = 5"
    unfolding usize_7
    by (rule bit_word_eqI) (use low in \<open>auto simp: bit_simps bit_int_5 lt3\<close>)
  show "(a OR 5 OR push_bit 48 own) AND 0x0000FFFFFFFFFFF8 = a"
    unfolding usize_mask48
    by (rule bit_word_eqI) (auto simp: bit_simps bit_int_5 dest: range)
  show "drop_bit 48 (a OR 5 OR push_bit 48 own) = take_bit 16 own"
    by (rule bit_word_eqI) (use high in \<open>auto simp: bit_simps bit_int_5 dest: bit_imp_le_length\<close>)
qed

lemma storage_ptr_roundtrip:
  assumes "valid_ref r" and "try_to_storage_ptr env r = Ok p"
  shows "try_from_storage_ptr env p = Ok r"
proof (cases r)
  case None
  with assms(2) show ?thesis by (simp add: try_to_storage_ptr_def try_from_storage_ptr_def)
next
  case (Some a)
  have a: "a \<noteq> 0" "a AND 7 = 0" using assms(1) Some by (auto simp: valid_ref_def valid_handle_def)
  let ?own = "owner_id env a"
  show ?thesis
  proof (cases "?own = arena_id_invalid")
    case True
    have "\<not> bit a 0" using low_bits_clear [OF a(2)] by simp
    then have "a AND 1 = 0" by (simp add: and_one_eq bit_0 odd_iff_mod_2_eq_one)
    with True assms(2) Some a show ?thesis
      by (simp add: try_to_storage_ptr_def try_from_storage_ptr_def Let_def)
  next
    case False
    with assms(2) Some have own: "uint ?own < 2 ^ 16" "arena_leased env ?own"
      and lt: "a < push_bit 48 1" and p: "p = a OR 5 OR push_bit 48 ?own"
      by (auto simp: try_to_storage_ptr_def Let_def outcome_simps check_compact_address_def
            not_le split: if_splits)
    note fields = tagged_ptr_fields [OF a(2) lt, of ?own]
    have "take_bit 16 ?own = ?own"
      using own(1) by (rule take_bit_below)
    moreover have "(ucast (ucast (drop_bit 48 p) :: u16) :: u64) = take_bit 16 ?own"
      unfolding p fields(3) by (rule bit_word_eqI) (auto simp: bit_simps)
    ultimately show ?thesis
      using own lt a Some
      by (simp add: try_from_storage_ptr_def p fields(1,2) Let_def check_compact_address_def not_le)
  qed
qed

text \<open>
  C17: Object references survive storage: whenever a reference to an aligned handle can be written
  to a buffer, reading the buffer under the same arena registry gives the same reference back,
  and the bytes behind the slot are untouched.
\<close>

theorem object_ref_roundtrip:
  assumes "valid_ref r" and "object_ref_write env r dest = Ok dest'"
  shows "try_read_unchecked env dest' = Ok r \<and> drop 8 dest' = drop 8 dest \<and>
    length dest' = length dest"
proof -
  obtain p where p: "try_to_storage_ptr env r = Ok p" "dest' = le_bytes p @ drop 8 dest"
    and len: "8 \<le> length dest"
    using assms(2)
    by (auto simp: object_ref_write_def check_object_storage_def split: outcome.splits if_splits)
  have "from_le_bytes (take 8 dest') = p"
    using codec64.decode_prefix p(2) by simp
  then show ?thesis
    using storage_ptr_roundtrip [OF assms(1) p(1)] p(2) len
    by (simp add: try_read_unchecked_def check_object_storage_def)
qed

definition sample_arenas :: arena_env where
  "sample_arenas = \<lparr>owner_id = (\<lambda>_. 7), arena_leased = (\<lambda>a. a = 7)\<rparr>"

theorem object_ref_roundtrip_witness:
  "try_read_unchecked sample_arenas (le_bytes (0x0007000000001005 :: usize)) = Ok (Some 0x1000) \<and>
   object_ref_write sample_arenas (Some 0x1000) (replicate 8 0) =
     Ok (le_bytes (0x0007000000001005 :: usize))"
proof -
  have w: "object_ref_write sample_arenas (Some 0x1000) (replicate 8 0) =
      Ok (le_bytes (0x0007000000001005 :: usize))"
    by (simp add: object_ref_write_def check_object_storage_def try_to_storage_ptr_def
        sample_arenas_def arena_id_invalid_def check_compact_address_def)
  have "valid_ref (Some 0x1000)" by (simp add: valid_ref_def valid_handle_def)
  from object_ref_roundtrip [OF this w] w show ?thesis by simp
qed

end
