(* ===== verification/Managed_Ptr.thy ===== *)
theory Managed_Ptr
  imports Object_Ref Errors
begin

unbundle bit_operations_syntax

text \<open>
  Managed pointers of \<open>dotnet-value/src/pointer\<close>: the origin of a byref, its compact offset, offset
  arithmetic, comparison, and the three-word serialized form with its integrity word. The static
  registry is explicit state; the arena registry and the live storage bases, which other parts of
  the VM own, are fields of an environment. Generic instantiations are a type parameter.
\<close>

section \<open>Data\<close>

datatype type_description = TypeDescription (resolution: nat) (type_index: nat)

definition type_description_null :: type_description where
  "type_description_null = TypeDescription 0 0"

record 'g static_metadata =
  type_desc :: type_description
  md_generics :: 'g

record cross_arena_origin =
  cao_ptr :: usize
  cao_identity :: "u64 \<times> u64"
  cao_token :: u32

record 'g vm_object =
  description :: type_description
  obj_generics :: 'g
  storage_layout :: nat
  storage_data :: "u8 list"
  has_finalizer :: bool
  finalizer_suppressed :: bool

datatype 'g pointer_origin =
    Heap object_ref
  | Static "'g static_metadata"
  | Unmanaged
  | FrameHome u64
  | CrossArenaObjectRef cross_arena_origin
  | Transient "'g vm_object"

fun origin_is_null :: "'g pointer_origin \<Rightarrow> bool" where
  "origin_is_null Unmanaged = True"
| "origin_is_null (Heap r) = (r = None)"
| "origin_is_null _ = False"

fun discriminant :: "'g pointer_origin \<Rightarrow> u8" where
  "discriminant (Heap _) = 0"
| "discriminant (Static _) = 2"
| "discriminant Unmanaged = 3"
| "discriminant (CrossArenaObjectRef _) = 4"
| "discriminant (Transient _) = 5"
| "discriminant (FrameHome _) = 6"

fun normalize :: "'g pointer_origin \<Rightarrow> 'g pointer_origin" where
  "normalize (Heap r) = (if r = None then Unmanaged else Heap r)"
| "normalize p = p"

definition frame_home_serial_next :: "u64 \<Rightarrow> ('e, u64) outcome" where
  "frame_home_serial_next s = (if s = - 1 then Panic else Ok (s + 1))"

record 'g managed_ptr =
  mp_value :: "usize option"
  mp_origin :: "'g pointer_origin"
  inner_type :: type_description
  mp_offset :: u32
  mp_flags :: u8

record 'g managed_ptr_info =
  info_address :: "usize option"
  info_origin :: "'g pointer_origin"
  info_offset :: usize

datatype managed_ptr_offset_error =
    NegativeResult | ArithmeticOverflow | CompactRangeExceeded | NullCachedAddress

datatype managed_ptr_ownership_error = TransientEscapes

text \<open>\<open>NonNull::new\<close> on an address.\<close>

definition non_null :: "usize \<Rightarrow> usize option" where
  "non_null a = (if a = 0 then None else Some a)"

section \<open>Construction and offsets\<close>

definition flag_pinned :: u8 where "flag_pinned = 1"
definition flag_unmanaged_inline_offset :: u8 where "flag_unmanaged_inline_offset = 2"

definition flags_from_pinned :: "bool \<Rightarrow> u8" where
  "flags_from_pinned pinned = (if pinned then flag_pinned else 0)"

definition with_unmanaged_inline_offset_flag :: "u8 \<Rightarrow> bool \<Rightarrow> u8" where
  "with_unmanaged_inline_offset_flag flags enabled =
     (if enabled then flags OR flag_unmanaged_inline_offset
      else flags AND NOT flag_unmanaged_inline_offset)"

definition has_unmanaged_inline_offset :: "'g managed_ptr \<Rightarrow> bool" where
  "has_unmanaged_inline_offset p \<longleftrightarrow> mp_flags p AND flag_unmanaged_inline_offset \<noteq> 0"

definition is_pinned :: "'g managed_ptr \<Rightarrow> bool" where
  "is_pinned p \<longleftrightarrow> mp_flags p AND flag_pinned \<noteq> 0"

text \<open>\<open>ManagedByteOffset::try_from\<close>: an offset that fits in 32 bits.\<close>

definition compact_offset :: "usize \<Rightarrow> u32 option" where
  "compact_offset off = (if uint off < 2 ^ 32 then Some (ucast off) else None)"

definition pack_offset :: "'g pointer_origin \<Rightarrow> usize \<Rightarrow> ('e, u32) outcome" where
  "pack_offset origin off =
     (case origin of
        Unmanaged \<Rightarrow> Ok (case compact_offset off of Some c \<Rightarrow> c | None \<Rightarrow> 0)
      | _ \<Rightarrow> (case compact_offset off of Some c \<Rightarrow> Ok c | None \<Rightarrow> Panic))"

definition unpack_offset :: "'g managed_ptr \<Rightarrow> usize" where
  "unpack_offset p =
     (case mp_origin p of
        Unmanaged \<Rightarrow>
          if has_unmanaged_inline_offset p then ucast (mp_offset p)
          else (case mp_value p of Some a \<Rightarrow> a | None \<Rightarrow> 0)
      | _ \<Rightarrow> ucast (mp_offset p))"

abbreviation byte_offset :: "'g managed_ptr \<Rightarrow> usize" where
  "byte_offset \<equiv> unpack_offset"

text \<open>The packing shared by the constructors: offset, and the inline flag of unmanaged origins.\<close>

definition pack_managed_ptr ::
    "usize option \<Rightarrow> 'g pointer_origin \<Rightarrow> type_description \<Rightarrow> usize \<Rightarrow> u8 \<Rightarrow> ('e, 'g managed_ptr) outcome" where
  "pack_managed_ptr value origin ty off flags =
     and_then (pack_offset origin off) (\<lambda>packed.
       Ok \<lparr>mp_value = value, mp_origin = origin, inner_type = ty, mp_offset = packed,
           mp_flags = with_unmanaged_inline_offset_flag flags
             (origin = Unmanaged \<and> ucast packed = off)\<rparr>)"

definition with_origin :: "'g managed_ptr \<Rightarrow> 'g pointer_origin \<Rightarrow> ('e, 'g managed_ptr) outcome" where
  "with_origin p origin = pack_managed_ptr (mp_value p) origin (inner_type p) (byte_offset p) (mp_flags p)"

definition with_inner_type :: "'g managed_ptr \<Rightarrow> type_description \<Rightarrow> 'g managed_ptr" where
  "with_inner_type p ty = p\<lparr>inner_type := ty\<rparr>"

definition managed_ptr_owner :: "'g managed_ptr \<Rightarrow> object_ref option" where
  "managed_ptr_owner p = (case mp_origin p of Heap r \<Rightarrow> Some r | _ \<Rightarrow> None)"

definition new_transient ::
    "usize option \<Rightarrow> type_description \<Rightarrow> 'g vm_object \<Rightarrow> usize \<Rightarrow> ('e, 'g managed_ptr) outcome" where
  "new_transient value ty obj off =
     and_then (pack_offset (Transient obj) off) (\<lambda>packed.
       Ok \<lparr>mp_value = value, mp_origin = Transient obj, inner_type = ty, mp_offset = packed,
           mp_flags = 0\<rparr>)"

definition managed_ptr_new ::
    "usize option \<Rightarrow> type_description \<Rightarrow> object_ref option \<Rightarrow> bool \<Rightarrow> usize option \<Rightarrow>
     ('e, 'g managed_ptr) outcome" where
  "managed_ptr_new value ty own pinned off =
     (let origin = (case own of Some (Some h) \<Rightarrow> Heap (Some h) | _ \<Rightarrow> Unmanaged);
          off' = (case off of Some o' \<Rightarrow> o'
                  | None \<Rightarrow> if origin = Unmanaged then (case value of Some a \<Rightarrow> a | None \<Rightarrow> 0) else 0)
      in pack_managed_ptr value origin ty off' (flags_from_pinned pinned))"

definition managed_ptr_null :: "'g managed_ptr" where
  "managed_ptr_null = \<lparr>mp_value = None, mp_origin = Unmanaged, inner_type = type_description_null,
     mp_offset = 0, mp_flags = 0\<rparr>"

definition from_info_full ::
    "'g managed_ptr_info \<Rightarrow> type_description \<Rightarrow> bool \<Rightarrow> ('e, 'g managed_ptr) outcome" where
  "from_info_full info ty pinned =
     (let origin = normalize (info_origin info);
          origin' = (if origin_is_null origin \<and> info_offset info = 0 \<and> info_address info = None
                     then Unmanaged else origin)
      in pack_managed_ptr (info_address info) origin' ty (info_offset info) (flags_from_pinned pinned))"

definition into_info :: "'g managed_ptr \<Rightarrow> 'g managed_ptr_info" where
  "into_info p = \<lparr>info_address = mp_value p, info_origin = mp_origin p, info_offset = unpack_offset p\<rparr>"

definition access_window :: "'g managed_ptr \<Rightarrow> nat \<Rightarrow> nat \<Rightarrow> nat \<times> nat" where
  "access_window p source_len requested =
     (let off = unat (byte_offset p) in (off, min requested (source_len - off)))"

definition checked_offset ::
    "'g managed_ptr \<Rightarrow> isize \<Rightarrow> (managed_ptr_offset_error, 'g managed_ptr) outcome" where
  "checked_offset p bytes =
     (let current = byte_offset p;
          unmanaged = (mp_origin p = Unmanaged)
      in if unmanaged \<and> mp_value p = None \<and> current = 0 \<and> bytes = 0 then Ok p
      else and_then
        (if unmanaged then Ok (current + bytes)
         else let r = sint current + sint bytes in
              if \<not> fits_signed 64 r then Err ArithmeticOverflow
              else if r < 0 then Err NegativeResult
              else if r < 2 ^ 32 then Ok (word_of_int r)
              else Err CompactRangeExceeded)
        (\<lambda>new_offset.
          let address =
            (if unmanaged \<and> mp_value p = None \<and> current = 0 then Some (non_null new_offset)
             else map_option (\<lambda>a. non_null (a + bytes)) (mp_value p))
          in if address = Some None then
               (if unmanaged
                then Ok (p\<lparr>mp_value := None, mp_offset := 0,
                      mp_flags := with_unmanaged_inline_offset_flag (mp_flags p) True\<rparr>)
                else Err NullCachedAddress)
             else and_then (pack_offset (mp_origin p) new_offset) (\<lambda>packed.
               Ok (p\<lparr>mp_value := (case address of Some a \<Rightarrow> a | None \<Rightarrow> None),
                     mp_offset := packed,
                     mp_flags := with_unmanaged_inline_offset_flag (mp_flags p)
                       (unmanaged \<and> ucast packed = new_offset)\<rparr>))))"

definition managed_ptr_offset :: "'g managed_ptr \<Rightarrow> isize \<Rightarrow> ('e, 'g managed_ptr) outcome" where
  "managed_ptr_offset p bytes = (case checked_offset p bytes of Ok q \<Rightarrow> Ok q | _ \<Rightarrow> Panic)"

definition managed_ptr_is_null :: "'g managed_ptr \<Rightarrow> bool" where
  "managed_ptr_is_null p =
     (case mp_origin p of Unmanaged \<Rightarrow> mp_value p = None | Heap r \<Rightarrow> r = None | _ \<Rightarrow> False)"

text \<open>Equality compares origin and offset only, the order compares the cached addresses first.\<close>

definition managed_ptr_eq :: "'g managed_ptr \<Rightarrow> 'g managed_ptr \<Rightarrow> bool" where
  "managed_ptr_eq p q \<longleftrightarrow> mp_origin p = mp_origin q \<and> byte_offset p = byte_offset q"

definition managed_ptr_partial_cmp :: "'g managed_ptr \<Rightarrow> 'g managed_ptr \<Rightarrow> ordering option" where
  "managed_ptr_partial_cmp p q =
     (let tie = (case ord_of (discriminant (mp_origin p)) (discriminant (mp_origin q)) of
                   Equal \<Rightarrow> Some (ord_of (byte_offset p) (byte_offset q))
                 | o' \<Rightarrow> Some o')
      in case (mp_value p, mp_value q) of
           (Some a, Some b) \<Rightarrow> (case ord_of a b of Equal \<Rightarrow> tie | o' \<Rightarrow> Some o')
         | (None, None) \<Rightarrow> tie
         | (None, Some _) \<Rightarrow> Some Less
         | (Some _, None) \<Rightarrow> Some Greater)"

text \<open>
  What the rest of the VM provides to pointer resolution: the base addresses of object payloads,
  static storage and frame-home blocks (with their length), and which arena registrations and
  tokens are live.
\<close>

record 'g ptr_env =
  payload_base :: "usize \<Rightarrow> usize"
  static_storage_base :: "'g static_metadata \<Rightarrow> usize option"
  frame_home_block :: "u64 \<Rightarrow> (usize \<times> usize) option"
  identity_leased :: "u64 \<times> u64 \<Rightarrow> bool"
  token_lease :: "u32 \<Rightarrow> (u64 \<times> u64) option"
  object_arenas :: arena_env

definition frame_home_window ::
    "'g ptr_env \<Rightarrow> u64 \<Rightarrow> usize \<Rightarrow> usize \<Rightarrow> (memory_access_error, usize) outcome" where
  "frame_home_window env serial off sz =
     (case frame_home_block env serial of
        None \<Rightarrow> Err InvalidOrigin
      | Some (base, len) \<Rightarrow>
          if uint off + uint sz \<ge> 2 ^ 64 \<or> uint off + uint sz > uint len
          then Err (BoundsCheck off sz len)
          else (case non_null (base + off) of Some a \<Rightarrow> Ok a | None \<Rightarrow> Panic))"

definition observed_address :: "usize \<Rightarrow> usize \<Rightarrow> usize option" where
  "observed_address base off = (if base = 0 then None else non_null (base + off))"

definition observe_address :: "'g ptr_env \<Rightarrow> 'g managed_ptr \<Rightarrow> usize option" where
  "observe_address env p =
     (case mp_origin p of
        Heap None \<Rightarrow> None
      | Heap (Some h) \<Rightarrow> observed_address (payload_base env h) (byte_offset p)
      | CrossArenaObjectRef c \<Rightarrow>
          if identity_leased env (cao_identity c)
          then observed_address (payload_base env (cao_ptr c)) (byte_offset p) else None
      | _ \<Rightarrow> mp_value p)"

definition try_observe_address ::
    "'g ptr_env \<Rightarrow> 'g managed_ptr \<Rightarrow> (managed_ptr_ownership_error, usize option) outcome" where
  "try_observe_address env p =
     (case mp_origin p of Transient _ \<Rightarrow> Err TransientEscapes | _ \<Rightarrow> Ok (observe_address env p))"

section \<open>Serialization\<close>

text \<open>The process-wide registry of static origins: identifiers by metadata and back.\<close>

record 'g static_registry =
  dedup_map :: "'g static_metadata \<Rightarrow> u32 option"
  registry :: "u32 \<Rightarrow> 'g static_metadata option"
  next_static_id :: u32

definition static_registry_new :: "'g static_registry" where
  "static_registry_new = \<lparr>dedup_map = (\<lambda>_. None), registry = (\<lambda>_. None), next_static_id = 1\<rparr>"

definition register_static :: "'g static_metadata \<Rightarrow> 'g static_registry \<Rightarrow> u32 \<times> 'g static_registry" where
  "register_static md reg =
     (case dedup_map reg md of
        Some i \<Rightarrow> (i, reg)
      | None \<Rightarrow> (next_static_id reg,
          \<lparr>dedup_map = (dedup_map reg)(md \<mapsto> next_static_id reg),
           registry = (registry reg)(next_static_id reg \<mapsto> md),
           next_static_id = next_static_id reg + 1\<rparr>))"

definition frame_home_words :: "u64 \<Rightarrow> usize \<Rightarrow> usize \<times> usize" where
  "frame_home_words serial off =
     (7 OR push_bit 3 3 OR push_bit 6 (serial AND 0xFFFFFFFF) OR push_bit 38 (off AND 0x03FFFFFF),
      off OR push_bit 32 (drop_bit 32 serial))"

definition parse_frame_home ::
    "usize \<Rightarrow> usize \<Rightarrow> (pointer_deserialization_error, u64 \<times> usize) outcome" where
  "parse_frame_home w0 w1 =
     (let off = w1 AND 0xFFFFFFFF in
      if drop_bit 38 w0 \<noteq> off AND 0x03FFFFFF then Err OffsetMismatch
      else Ok ((drop_bit 6 w0 AND 0xFFFFFFFF) OR push_bit 32 (drop_bit 32 w1), off))"

definition origin_words ::
    "'g managed_ptr \<Rightarrow> 'g static_registry \<Rightarrow> (usize \<times> usize) \<times> 'g static_registry" where
  "origin_words p reg =
     (let off = byte_offset p in
      case mp_origin p of
        Heap r \<Rightarrow> ((case r of Some h \<Rightarrow> h | None \<Rightarrow> 0, off), reg)
      | Static md \<Rightarrow>
          (let (i, reg') = register_static md reg in
           ((7 OR push_bit 3 1 OR push_bit 6 (ucast i AND 0xFFFFFFFF) OR push_bit 38 off, off), reg'))
      | Unmanaged \<Rightarrow> ((0, case mp_value p of Some a \<Rightarrow> a | None \<Rightarrow> 0), reg)
      | CrossArenaObjectRef c \<Rightarrow>
          ((cao_ptr c OR 5, (off AND 0xFFFFFFFF) OR push_bit 32 (ucast (cao_token c))), reg)
      | FrameHome serial \<Rightarrow> (frame_home_words serial off, reg)
      | Transient _ \<Rightarrow> ((7 OR push_bit 3 2 OR push_bit 6 off, off), reg))"

definition managed_ptr_write ::
    "'g managed_ptr \<Rightarrow> 'g static_registry \<Rightarrow> u8 list \<Rightarrow> ('e, u8 list \<times> 'g static_registry) outcome" where
  "managed_ptr_write p reg dest =
     (let ((w0, w1), reg') = origin_words p reg in
      if length dest < 24 then Panic
      else Ok (le_bytes w0 @ le_bytes w1 @ le_bytes (w0 XOR w1) @ drop 24 dest, reg'))"

definition read_words :: "u8 list \<Rightarrow> usize \<times> usize \<times> usize" where
  "read_words src = (from_le_bytes (take 8 src), from_le_bytes (take 8 (drop 8 src)),
     from_le_bytes (take 8 (drop 16 src)))"

definition decode_words ::
    "'g ptr_env \<Rightarrow> 'g static_registry \<Rightarrow> usize \<Rightarrow> usize \<Rightarrow>
     (pointer_deserialization_error, 'g managed_ptr_info) outcome" where
  "decode_words env reg w0 w1 =
     (let info = (\<lambda>origin off. \<lparr>info_address = None, info_origin = origin, info_offset = off\<rparr>);
          tag = w0 AND 7
      in if tag = 1 then Err (UnknownSubtag 1)
      else if tag = 5 then
        (let token = ucast (drop_bit 32 w1) :: u32 in
         if token = 0 then Err (UnresolvedCrossArenaToken token)
         else (case token_lease env token of
                 None \<Rightarrow> Err (UnresolvedCrossArenaToken token)
               | Some ident \<Rightarrow> Ok (info (CrossArenaObjectRef
                   \<lparr>cao_ptr = w0 AND NOT 7, cao_identity = ident, cao_token = token\<rparr>)
                   (w1 AND 0xFFFFFFFF))))
      else if tag = 7 then
        (let subtag = drop_bit 3 w0 AND 7 in
         if subtag = 1 then
           (let i = ucast (drop_bit 6 w0 AND 0xFFFFFFFF) :: u32 in
            if w1 > 0xFFFFFFFF \<or> drop_bit 38 w0 \<noteq> w1 AND 0x03FFFFFF then Err OffsetMismatch
            else (case registry reg i of
                    None \<Rightarrow> Err (InvalidStaticId i)
                  | Some md \<Rightarrow> Ok (info (Static md) w1)))
         else if subtag = 2 then Err (UnknownSubtag 2)
         else if subtag = 3 then
           map_outcome (\<lambda>(serial, off). info (FrameHome serial) off) (parse_frame_home w0 w1)
         else Err (UnknownSubtag subtag))
      else if tag = 0 then
        (case try_from_storage_ptr (object_arenas env) w0 of
           Ok r \<Rightarrow> Ok (info (case r of None \<Rightarrow> Unmanaged | Some h \<Rightarrow> Heap (Some h)) w1)
         | _ \<Rightarrow> Panic)
      else Err (UnknownTag tag))"

definition read_metadata ::
    "'g ptr_env \<Rightarrow> 'g static_registry \<Rightarrow> u8 list \<Rightarrow>
     (pointer_deserialization_error, 'g managed_ptr_info) outcome" where
  "read_metadata env reg src =
     (if length src < 24 then Panic
      else let (w0, w1, w2) = read_words src in
           if w2 \<noteq> w0 XOR w1 then Err ChecksumMismatch else decode_words env reg w0 w1)"

definition resolve_metadata ::
    "'g ptr_env \<Rightarrow> 'g managed_ptr_info \<Rightarrow> (pointer_deserialization_error, 'g managed_ptr_info) outcome" where
  "resolve_metadata env info =
     (let off = info_offset info;
          at = (\<lambda>a. info\<lparr>info_address := a\<rparr>)
      in case info_origin info of
           Static md \<Rightarrow>
             (case Option.bind (static_storage_base env md) (\<lambda>base. non_null (base + off)) of
                Some a \<Rightarrow> Ok (at (Some a)) | None \<Rightarrow> Err UnresolvedStaticStorage)
         | FrameHome serial \<Rightarrow>
             (case frame_home_window env serial off 0 of
                Ok a \<Rightarrow> Ok (at (Some a))
              | Err _ \<Rightarrow> Err (UnresolvedFrameHome serial)
              | Panic \<Rightarrow> Panic)
         | Heap (Some h) \<Rightarrow> Ok (at (non_null (payload_base env h + off)))
         | Heap None \<Rightarrow> Ok (at None)
         | Unmanaged \<Rightarrow> Ok (at (non_null off))
         | CrossArenaObjectRef c \<Rightarrow>
             if identity_leased env (cao_identity c)
             then Ok (at (non_null (payload_base env (cao_ptr c) + off)))
             else Err (UnknownTag 5)
         | Transient _ \<Rightarrow> Panic)"

definition read_resolved ::
    "'g ptr_env \<Rightarrow> 'g static_registry \<Rightarrow> u8 list \<Rightarrow>
     (pointer_deserialization_error, 'g managed_ptr_info) outcome" where
  "read_resolved env reg src = and_then (read_metadata env reg src) (resolve_metadata env)"

text \<open>The cached read: non-null untagged words are looked up in a cache of decoded handles.\<close>

definition read_resolved_cached ::
    "'g ptr_env \<Rightarrow> 'g static_registry \<Rightarrow> (usize \<Rightarrow> object_ref option) \<Rightarrow> u8 list \<Rightarrow>
     (pointer_deserialization_error, 'g managed_ptr_info) outcome \<times> (usize \<Rightarrow> object_ref option)" where
  "read_resolved_cached env reg cache src =
     (if length src < 24 then (Panic, cache)
      else let (w0, w1, w2) = read_words src in
        if w2 \<noteq> w0 XOR w1 then (Err ChecksumMismatch, cache)
        else if w0 \<noteq> 0 \<and> w0 AND 7 = 0 then
          (let finish = (\<lambda>r. resolve_metadata env
                 \<lparr>info_address = None, info_origin = Heap r, info_offset = w1\<rparr>)
           in case cache w0 of
                Some r \<Rightarrow> (finish r, cache)
              | None \<Rightarrow> (case try_from_storage_ptr (object_arenas env) w0 of
                   Ok r \<Rightarrow> (finish r, if r \<noteq> None then cache(w0 \<mapsto> r) else cache)
                 | _ \<Rightarrow> (Panic, cache)))
        else (read_resolved env reg src, cache))"

section \<open>Packed words\<close>

lemma low_masks: "(7 :: usize) = mask 3" "(0xFFFFFFFF :: usize) = mask 32" "(0x03FFFFFF :: usize) = mask 26"
  by (simp_all add: mask_numeral)

lemma and_low_masks:
  "(w :: usize) AND 7 = take_bit 3 w" "w AND 0xFFFFFFFF = take_bit 32 w"
  "w AND 0x03FFFFFF = take_bit 26 w"
  by (simp_all only: low_masks take_bit_eq_mask)

text \<open>The tag-7 word: tag and sub-tag in the low bits, a 32-bit field at 6, a 26-bit field at 38.\<close>

definition tag7_word :: "nat \<Rightarrow> usize \<Rightarrow> usize \<Rightarrow> usize" where
  "tag7_word k field off = mask k OR push_bit 6 (take_bit 32 field) OR push_bit 38 (take_bit 26 off)"

lemma tag7_word_fields:
  assumes "3 \<le> k" and "k \<le> 6"
  shows "take_bit 3 (tag7_word k field off) = 7"
    and "take_bit 3 (drop_bit 3 (tag7_word k field off)) = mask (k - 3)"
    and "take_bit 32 (drop_bit 6 (tag7_word k field off)) = take_bit 32 field"
    and "drop_bit 38 (tag7_word k field off) = take_bit 26 off"
  unfolding low_masks(1)
  by (rule bit_word_eqI, use assms in \<open>auto simp: tag7_word_def bit_simps\<close>)+

lemma static_word_tag7:
  "7 OR push_bit 3 1 OR push_bit 6 (x AND 0xFFFFFFFF) OR push_bit 38 off = tag7_word 4 x off"
proof -
  have "push_bit 38 off = push_bit 38 (take_bit 26 off)"
    by (rule bit_word_eqI) (auto simp: bit_simps)
  then show ?thesis
    by (simp add: tag7_word_def and_low_masks mask_numeral or.assoc [symmetric])
qed

lemma frame_home_word_tag7:
  "fst (frame_home_words serial off) = tag7_word 5 serial off"
  by (simp add: frame_home_words_def tag7_word_def and_low_masks mask_numeral or.assoc [symmetric])

lemma frame_home_word1:
  assumes "take_bit 32 off = off"
  shows "take_bit 32 (snd (frame_home_words serial off)) = off"
    and "drop_bit 32 (snd (frame_home_words serial off)) = drop_bit 32 serial"
proof -
  have small: "i < 32" if "bit off i" for i
    using that assms by (metis bit_take_bit_iff)
  show "take_bit 32 (snd (frame_home_words serial off)) = off"
    by (rule bit_word_eqI) (use small in \<open>auto simp: frame_home_words_def bit_simps\<close>)
  show "drop_bit 32 (snd (frame_home_words serial off)) = drop_bit 32 serial"
    by (rule bit_word_eqI) (auto simp: frame_home_words_def bit_simps dest!: small dest: bit_imp_le_length)
qed

lemma parse_frame_home_words:
  assumes "take_bit 32 off = off"
  shows "parse_frame_home (fst (frame_home_words serial off)) (snd (frame_home_words serial off)) =
    Ok (serial, off)"
proof -
  have "take_bit 32 serial OR push_bit 32 (drop_bit 32 serial) = serial"
  proof (rule bit_word_eqI)
    fix n
    show "bit (take_bit 32 serial OR push_bit 32 (drop_bit 32 serial)) n = bit serial n"
      by (cases "n < 32") (auto simp: bit_simps dest: bit_imp_le_length)
  qed
  then show ?thesis
    using tag7_word_fields [of 5 serial off] frame_home_word1 [OF assms, of serial] assms
    by (simp add: parse_frame_home_def frame_home_word_tag7 and_low_masks Let_def)
qed

lemma cross_arena_words:
  fixes ptr off :: usize and token :: u32
  assumes "ptr AND 7 = 0" and "take_bit 32 off = off"
  shows "(ptr OR 5) AND 7 = 5" and "(ptr OR 5) AND NOT 7 = ptr"
    and "take_bit 32 ((off AND 0xFFFFFFFF) OR push_bit 32 (ucast token)) = off"
    and "(ucast (drop_bit 32 ((off AND 0xFFFFFFFF) OR push_bit 32 (ucast token))) :: u32) = token"
proof -
  have low: "\<not> bit ptr i" if "i < 3" for i using low_bits_clear [OF assms(1) that] .
  have lt3: "i < 3 \<longleftrightarrow> i = 0 \<or> i = 1 \<or> i = 2" for i :: nat by auto
  have range: "3 \<le> i" if "bit ptr i" for i using low [of i] that by (auto simp: not_less [symmetric])
  have small: "i < 32" if "bit off i" for i
    using that assms(2) by (metis bit_take_bit_iff)
  show "(ptr OR 5) AND 7 = 5"
    unfolding low_masks by (rule bit_word_eqI) (use low in \<open>auto simp: bit_simps bit_int_5 lt3\<close>)
  show "(ptr OR 5) AND NOT 7 = ptr"
    unfolding low_masks by (rule bit_word_eqI) (auto simp: bit_simps bit_int_5 dest: range)
  show "take_bit 32 ((off AND 0xFFFFFFFF) OR push_bit 32 (ucast token)) = off"
    unfolding and_low_masks assms(2) by (rule bit_word_eqI) (use small in \<open>auto simp: bit_simps\<close>)
  show "(ucast (drop_bit 32 ((off AND 0xFFFFFFFF) OR push_bit 32 (ucast token))) :: u32) = token"
    unfolding and_low_masks assms(2)
    by (rule bit_word_eqI) (auto simp: bit_simps dest!: small)
qed

section \<open>Round trips\<close>

definition registry_ok :: "'g static_registry \<Rightarrow> bool" where
  "registry_ok reg \<longleftrightarrow> (\<forall>md i. dedup_map reg md = Some i \<longrightarrow>
     registry reg i = Some md \<and> i < next_static_id reg)"

lemma register_static_ok:
  assumes "registry_ok reg" and "register_static md reg = (i, reg')"
  shows "registry reg' i = Some md"
    and "next_static_id reg \<noteq> - 1 \<Longrightarrow> registry_ok reg'"
proof -
  show "registry reg' i = Some md"
    using assms by (auto simp: register_static_def registry_ok_def split: option.splits)
  assume ne: "next_static_id reg \<noteq> - 1"
  then have "next_static_id reg < next_static_id reg + 1" by (rule word_less_succ)
  then show "registry_ok reg'"
    using assms
    by (fastforce simp: register_static_def registry_ok_def split: option.splits if_splits
          intro: less_trans)
qed

text \<open>
  The origins a serialized pointer can carry: aligned handles, live registrations, and anything but
  a transient value.
\<close>

fun serializable :: "'g ptr_env \<Rightarrow> 'g pointer_origin \<Rightarrow> bool" where
  "serializable env (Heap r) = valid_ref r"
| "serializable env (CrossArenaObjectRef c) = (cao_ptr c AND 7 = 0 \<and> cao_token c \<noteq> 0 \<and>
     token_lease env (cao_token c) = Some (cao_identity c))"
| "serializable env (Transient _) = False"
| "serializable env _ = True"

definition serialized_offset :: "'g managed_ptr \<Rightarrow> usize" where
  "serialized_offset p = (case mp_origin p of
     Unmanaged \<Rightarrow> (case mp_value p of Some a \<Rightarrow> a | None \<Rightarrow> 0) | _ \<Rightarrow> byte_offset p)"

lemma take_bit_ucast_u32: "take_bit 32 (ucast (w :: u32) :: usize) = ucast w"
  by (rule bit_word_eqI) (auto simp: bit_simps dest: bit_imp_le_length)

lemma managed_offset_small: "mp_origin p \<noteq> Unmanaged \<Longrightarrow> take_bit 32 (byte_offset p) = byte_offset p"
  by (auto simp: unpack_offset_def take_bit_ucast_u32 split: pointer_origin.splits)

lemma decode_untagged:
  assumes "valid_ref r"
  shows "decode_words env reg (case r of Some h \<Rightarrow> h | None \<Rightarrow> 0) w1 =
    Ok \<lparr>info_address = None, info_origin = (case r of None \<Rightarrow> Unmanaged | Some h \<Rightarrow> Heap (Some h)),
        info_offset = w1\<rparr>"
proof (cases r)
  case (Some h)
  then have h: "h \<noteq> 0" "h AND 7 = 0" using assms by (auto simp: valid_ref_def valid_handle_def)
  then have "\<not> bit h 0" using low_bits_clear by simp
  then have "h AND 1 = 0" by (simp add: and_one_eq bit_0 odd_iff_mod_2_eq_one)
  with h Some show ?thesis by (simp add: decode_words_def try_from_storage_ptr_def Let_def)
qed (simp add: decode_words_def try_from_storage_ptr_def Let_def)

lemma origin_words_static:
  "mp_origin p = Static md \<Longrightarrow> origin_words p reg =
     ((tag7_word 4 (ucast (fst (register_static md reg))) (byte_offset p), byte_offset p),
      snd (register_static md reg))"
  unfolding origin_words_def Let_def static_word_tag7 by (simp add: case_prod_unfold)

lemma decode_static:
  assumes "w0 AND 7 = 7" and "drop_bit 3 w0 AND 7 = 1"
    and "drop_bit 38 w0 = w1 AND 0x03FFFFFF" and "w1 \<le> 0xFFFFFFFF"
    and "registry reg (ucast (drop_bit 6 w0 AND 0xFFFFFFFF)) = Some md"
  shows "decode_words env reg w0 w1 =
    Ok \<lparr>info_address = None, info_origin = Static md, info_offset = w1\<rparr>"
  using assms by (simp add: decode_words_def Let_def not_less)

lemma decode_frame_home:
  assumes "w0 AND 7 = 7" and "drop_bit 3 w0 AND 7 = 3" and "parse_frame_home w0 w1 = Ok (serial, off)"
  shows "decode_words env reg w0 w1 =
    Ok \<lparr>info_address = None, info_origin = FrameHome serial, info_offset = off\<rparr>"
  using assms by (simp add: decode_words_def Let_def)

lemma decode_cross_arena:
  assumes "w0 AND 7 = 5" and "(ucast (drop_bit 32 w1) :: u32) = token" and "token \<noteq> 0"
    and "token_lease env token = Some ident"
  shows "decode_words env reg w0 w1 = Ok \<lparr>info_address = None,
    info_origin = CrossArenaObjectRef \<lparr>cao_ptr = w0 AND NOT 7, cao_identity = ident, cao_token = token\<rparr>,
    info_offset = w1 AND 0xFFFFFFFF\<rparr>"
  using assms by (simp add: decode_words_def Let_def)

lemma decode_origin_words:
  assumes "registry_ok reg" and "serializable env (mp_origin p)"
    and "origin_words p reg = ((w0, w1), reg')"
  shows "decode_words env reg' w0 w1 =
    Ok \<lparr>info_address = None, info_origin = normalize (mp_origin p), info_offset = serialized_offset p\<rparr>"
proof (cases "mp_origin p")
  case (Heap r)
  then show ?thesis
    using assms decode_untagged [of r env reg "byte_offset p"]
    by (auto simp: origin_words_def serialized_offset_def Let_def split: option.splits)
next
  case (Static md)
  define i where "i = fst (register_static md reg)"
  have i: "register_static md reg = (i, reg')"
    and w: "w0 = tag7_word 4 (ucast i) (byte_offset p)" "w1 = byte_offset p"
    using assms(3) unfolding origin_words_static [OF Static] i_def
    by (auto simp: prod_eq_iff)
  have md: "registry reg' i = Some md" by (rule register_static_ok [OF assms(1) i])
  have small: "take_bit 32 w1 = w1" using managed_offset_small [of p] Static w by simp
  have "w1 \<le> 0xFFFFFFFF"
    using word_and_le1 [of w1 "mask 32"] small unfolding low_masks(2) take_bit_eq_mask by simp
  moreover have "(ucast (take_bit 32 (ucast i :: usize)) :: u32) = i"
    by (rule bit_word_eqI) (auto simp: bit_simps)
  ultimately have "decode_words env reg' w0 w1 =
      Ok \<lparr>info_address = None, info_origin = Static md, info_offset = w1\<rparr>"
    using tag7_word_fields [of 4 "ucast i" w1] md w
    by (intro decode_static) (simp_all add: and_low_masks)
  then show ?thesis using Static w by (simp add: serialized_offset_def)
next
  case Unmanaged
  then show ?thesis
    using assms decode_untagged [of None]
    by (auto simp: origin_words_def serialized_offset_def Let_def valid_ref_def)
next
  case (FrameHome serial)
  have small: "take_bit 32 (byte_offset p) = byte_offset p"
    using managed_offset_small [of p] FrameHome by simp
  have "w0 = fst (frame_home_words serial (byte_offset p))"
    and "w1 = snd (frame_home_words serial (byte_offset p))"
    using assms(3) FrameHome by (auto simp: origin_words_def Let_def)
  moreover have "(mask 2 :: usize) = 3" by (simp add: mask_numeral)
  ultimately have "decode_words env reg' w0 w1 =
      Ok \<lparr>info_address = None, info_origin = FrameHome serial, info_offset = byte_offset p\<rparr>"
    using parse_frame_home_words [OF small, of serial] tag7_word_fields [of 5 serial "byte_offset p"]
    by (intro decode_frame_home) (simp_all add: and_low_masks frame_home_word_tag7)
  then show ?thesis using FrameHome by (simp add: serialized_offset_def)
next
  case (CrossArenaObjectRef c)
  have small: "take_bit 32 (byte_offset p) = byte_offset p"
    using managed_offset_small [of p] CrossArenaObjectRef by simp
  have c: "cao_ptr c AND 7 = 0" "cao_token c \<noteq> 0" "token_lease env (cao_token c) = Some (cao_identity c)"
    using assms(2) CrossArenaObjectRef by auto
  have w: "w0 = cao_ptr c OR 5"
    "w1 = (byte_offset p AND 0xFFFFFFFF) OR push_bit 32 (ucast (cao_token c))"
    using assms(3) CrossArenaObjectRef by (auto simp: origin_words_def Let_def)
  note f = cross_arena_words [OF c(1) small]
  show ?thesis
    using decode_cross_arena [OF f(1) f(4) c(2,3), of reg'] f(2,3) CrossArenaObjectRef
    by (simp add: w serialized_offset_def and_low_masks(2))
next
  case (Transient obj)
  then show ?thesis using assms(2) by simp
qed

lemma read_words_written:
  "read_words (le_bytes w0 @ le_bytes w1 @ le_bytes w2 @ rest) = (w0, w1, w2)"
proof -
  have "drop 16 (le_bytes w0 @ le_bytes w1 @ le_bytes w2 @ rest) = le_bytes w2 @ rest"
    by (simp add: drop_Cons')
  then show ?thesis
    unfolding read_words_def
    using codec64.decode_prefix [of w0] codec64.decode_prefix [of w1] codec64.decode_prefix [of w2]
    by simp
qed


definition sample_ptr_env :: "unit ptr_env" where
  "sample_ptr_env = \<lparr>payload_base = (\<lambda>h. h + 16), static_storage_base = (\<lambda>_. Some 0x5000),
     frame_home_block = (\<lambda>s. if s = 3 then Some (0x8000, 64) else None),
     identity_leased = (\<lambda>_. True), token_lease = (\<lambda>t. if t = 9 then Some (1, 1) else None),
     object_arenas = sample_arenas\<rparr>"

definition sample_frame_ptr :: "unit managed_ptr" where
  "sample_frame_ptr = \<lparr>mp_value = None, mp_origin = FrameHome 3, inner_type = TypeDescription 1 2,
     mp_offset = 16, mp_flags = 0\<rparr>"


lemma xor_right_cancel: "(a :: usize) XOR c = b XOR c \<longleftrightarrow> a = b"
proof
  assume "a XOR c = b XOR c"
  then have "(a XOR c) XOR c = (b XOR c) XOR c" by (rule arg_cong)
  then show "a = b" by (simp add: xor.assoc)
qed simp

lemma xor_left_cancel: "(c :: usize) XOR a = c XOR b \<longleftrightarrow> a = b"
  using xor_right_cancel [of a c b] by (simp add: xor.commute)

text \<open>
  The integrity word detects corruption of a stored pointer: if the bytes of a valid encoding
  are changed inside exactly one of its three words, decoding fails with a checksum mismatch and
  no pointer is formed.
\<close>

theorem corrupted_word_rejected:
  assumes "read_words src = (w0, w1, w0 XOR w1)" and "read_words src' = (v0, v1, v2)"
    and "24 \<le> length src'"
    and "(v0 \<noteq> w0 \<and> v1 = w1 \<and> v2 = w0 XOR w1) \<or> (v0 = w0 \<and> v1 \<noteq> w1 \<and> v2 = w0 XOR w1) \<or>
         (v0 = w0 \<and> v1 = w1 \<and> v2 \<noteq> w0 XOR w1)"
  shows "read_metadata env reg src' = Err ChecksumMismatch"
proof -
  have "v2 \<noteq> v0 XOR v1"
    using assms(4) by (auto simp: xor_right_cancel xor_left_cancel)
  then show ?thesis using assms(2,3) by (simp add: read_metadata_def)
qed

theorem corrupted_word_rejected_witness:
  "read_metadata sample_ptr_env static_registry_new
     (le_bytes (0x1000 :: usize) @ le_bytes (8 :: usize) @ le_bytes (0x1000 :: usize)) =
   Err ChecksumMismatch"
  by (rule corrupted_word_rejected [OF read_words_written [of "0x1000" 0 "0x1000 XOR 0" "[]"]
        read_words_written [of "0x1000" 8 "0x1000" "[]", simplified append_Nil2]]) simp_all

section \<open>Offset arithmetic\<close>

lemma uint_ucast_u32: "uint (ucast (w :: u32) :: usize) = uint w"
proof -
  have "uint w < 2 ^ 32" using unsigned_less [of w] by simp
  then show ?thesis by (simp add: unsigned_ucast_eq take_bit_int_eq_self_iff)
qed

lemma managed_offset_bound: "mp_origin p \<noteq> Unmanaged \<Longrightarrow> uint (byte_offset p) < 2 ^ 32"
  using unsigned_less [of "mp_offset p"]
  by (auto simp: unpack_offset_def uint_ucast_u32 split: pointer_origin.splits)

lemma compact_offset_exact: "compact_offset off = Some c \<Longrightarrow> ucast c = off"
proof -
  assume a: "compact_offset off = Some c"
  then have c: "c = ucast off" and lt: "uint off < 2 ^ 32"
    by (auto simp: compact_offset_def split: if_splits)
  have "(ucast (ucast off :: u32) :: usize) = take_bit 32 off"
    by (rule bit_word_eqI) (auto simp: bit_simps)
  with take_bit_below [OF lt] c show ?thesis by simp
qed

lemma small_sint: "uint (w :: usize) < 2 ^ 63 \<Longrightarrow> sint w = uint w"
  unfolding sint_uint by (rule signed_take_bit_int_eq_self) (auto intro: order_trans [of _ 0])

lemma managed_pack:
  "origin \<noteq> Unmanaged \<Longrightarrow> uint off < 2 ^ 32 \<Longrightarrow>
     (pack_offset origin off :: ('e, u32) outcome) = Ok (ucast off)"
  by (cases origin) (auto simp: pack_offset_def compact_offset_def)

text \<open>
  C25: Byref arithmetic on managed storage is exact: offsetting a pointer whose origin is not
  unmanaged never panics, succeeds exactly when the new offset is in the compact range and the
  cached address does not become null, and then moves offset and address by exactly the given
  number of bytes while origin, type and pinning stay the same.
\<close>

theorem checked_offset_exact:
  assumes "mp_origin p \<noteq> Unmanaged"
  shows "checked_offset p bytes \<noteq> Panic \<and>
    ((\<exists>q. checked_offset p bytes = Ok q) \<longleftrightarrow>
       0 \<le> uint (byte_offset p) + sint bytes \<and> uint (byte_offset p) + sint bytes < 2 ^ 32 \<and>
       (\<forall>a. mp_value p = Some a \<longrightarrow> a + bytes \<noteq> 0)) \<and>
    (\<forall>q. checked_offset p bytes = Ok q \<longrightarrow>
       uint (byte_offset q) = uint (byte_offset p) + sint bytes \<and> mp_origin q = mp_origin p \<and>
       mp_value q = map_option (\<lambda>a. a + bytes) (mp_value p) \<and> inner_type q = inner_type p \<and>
       is_pinned q = is_pinned p)"
proof -
  let ?r = "uint (byte_offset p) + sint bytes"
  have bound: "uint (byte_offset p) < 2 ^ 32" by (rule managed_offset_bound [OF assms])
  have cur: "sint (byte_offset p) = uint (byte_offset p)"
    using bound by (intro small_sint) simp
  have lo: "- (2 ^ 63) \<le> sint bytes" using sint_ge [of bytes] by simp
  show ?thesis
  proof (cases "0 \<le> ?r \<and> ?r < 2 ^ 32")
    case False
    then have "\<exists>e. checked_offset p bytes = Err e"
      using assms by (auto simp: checked_offset_def cur Let_def)
    with False show ?thesis by auto
  next
    case True
    define off where "off = byte_offset p + bytes"
    have "off = word_of_int ?r" by (simp add: off_def)
    then have off: "uint off = ?r"
      using True by (simp only:) (rule uint_word_of_int_fits, simp add: fits_unsigned_def)
    have fits: "fits_signed 64 ?r" using True by (simp add: fits_signed_def)
    have pack: "(pack_offset (mp_origin p) off :: (managed_ptr_offset_error, u32) outcome) = Ok (ucast off)"
      using True off by (intro managed_pack [OF assms]) simp
    have recast: "(ucast (ucast off :: u32) :: usize) = off"
      using True off compact_offset_exact [of off "ucast off"] by (simp add: compact_offset_def)
    have unpack: "byte_offset (p\<lparr>mp_value := v, mp_offset := ucast off, mp_flags := f\<rparr>) = off" for v f
      using assms recast by (auto simp: unpack_offset_def split: pointer_origin.splits)
    have pin: "is_pinned (p\<lparr>mp_value := v, mp_offset := c,
        mp_flags := with_unmanaged_inline_offset_flag (mp_flags p) False\<rparr>) = is_pinned p" for v c
      by (simp add: is_pinned_def with_unmanaged_inline_offset_flag_def flag_pinned_def
          flag_unmanaged_inline_offset_def and.assoc)
    show ?thesis
      using assms True fits pack off unpack pin
      by (cases "mp_value p") (auto simp: checked_offset_def cur Let_def off_def [symmetric] non_null_def)
  qed
qed

theorem checked_offset_exact_witness:
  "\<exists>q. checked_offset sample_frame_ptr (- 8) = Ok q \<and> uint (byte_offset q) = 8"
proof -
  have off: "byte_offset sample_frame_ptr = 16"
    by (simp add: unpack_offset_def sample_frame_ptr_def)
  have "\<exists>q. checked_offset sample_frame_ptr (- 8) = Ok q"
    using checked_offset_exact [of sample_frame_ptr "- 8"] off
    by (simp add: sample_frame_ptr_def)
  then show ?thesis
    using checked_offset_exact [of sample_frame_ptr "- 8"] off
    by (auto simp: sample_frame_ptr_def)
qed

text \<open>An unmanaged pointer whose offset is its address, as every constructor builds it.\<close>

definition unmanaged_at :: "usize \<Rightarrow> 'g managed_ptr \<Rightarrow> bool" where
  "unmanaged_at a p \<longleftrightarrow> mp_origin p = Unmanaged \<and> mp_value p = non_null a \<and> byte_offset p = a"

lemma inline_flag_set: "with_unmanaged_inline_offset_flag f True AND flag_unmanaged_inline_offset \<noteq> 0"
proof -
  have "bit (with_unmanaged_inline_offset_flag f True AND flag_unmanaged_inline_offset) 1"
    by (simp add: with_unmanaged_inline_offset_flag_def flag_unmanaged_inline_offset_def bit_simps)
  then show ?thesis by auto
qed

lemma inline_flag_clear: "with_unmanaged_inline_offset_flag f False AND flag_unmanaged_inline_offset = 0"
  by (simp add: with_unmanaged_inline_offset_flag_def and.assoc)

lemma inline_flag_iff:
  "with_unmanaged_inline_offset_flag f b AND flag_unmanaged_inline_offset = 0 \<longleftrightarrow> \<not> b"
  using inline_flag_set inline_flag_clear by (cases b) auto

text \<open>
  Arithmetic on unmanaged pointers is arithmetic on the address, modulo the address width:
  offsetting a pointer at address \<open>a\<close> always succeeds and gives a pointer at address \<open>a + bytes\<close>,
  which is the null pointer exactly when that address is zero. No result depends on whether the
  compact field could hold the offset.
\<close>

theorem checked_offset_unmanaged:
  assumes "unmanaged_at a p"
  shows "\<exists>q. checked_offset p bytes = Ok q \<and> unmanaged_at (a + bytes) q \<and>
    (managed_ptr_is_null q \<longleftrightarrow> a + bytes = 0)"
proof -
  have p: "mp_origin p = Unmanaged" "mp_value p = non_null a" "byte_offset p = a"
    using assms by (auto simp: unmanaged_at_def)
  have packed: "(ucast (case compact_offset n of Some c \<Rightarrow> c | None \<Rightarrow> 0) :: usize) = n \<longleftrightarrow>
      compact_offset n \<noteq> None \<or> n = 0" for n
    using compact_offset_exact [of n] by (auto split: option.splits)
  have c0: "compact_offset 0 = Some 0" by (simp add: compact_offset_def)
  show ?thesis
    using p compact_offset_exact [of "a + bytes"] c0
    by (auto simp: checked_offset_def Let_def pack_offset_def non_null_def unmanaged_at_def
          managed_ptr_is_null_def unpack_offset_def has_unmanaged_inline_offset_def inline_flag_iff packed
          split: if_splits option.splits)
qed

theorem checked_offset_unmanaged_witness:
  "\<exists>q. checked_offset (managed_ptr_null :: unit managed_ptr) 0x10 = Ok q \<and> unmanaged_at (0 + 0x10) q"
  using checked_offset_unmanaged [of 0 "managed_ptr_null :: unit managed_ptr" "0x10"]
  by (auto simp: unmanaged_at_def managed_ptr_null_def non_null_def unpack_offset_def
        has_unmanaged_inline_offset_def)

text \<open>
  C27: A frame-home byref never reaches outside its frame's block: resolving a window succeeds only
  for a live block that contains the whole window, and gives the address at that offset from the
  block's base.
\<close>

theorem frame_home_window_in_block:
  assumes "frame_home_window env serial off sz = Ok a"
  shows "\<exists>base len. frame_home_block env serial = Some (base, len) \<and> a = base + off \<and>
    uint off + uint sz \<le> uint len"
  using assms
  by (auto simp: frame_home_window_def non_null_def split: option.splits if_splits)

theorem frame_home_window_in_block_witness:
  "\<exists>base len. frame_home_block sample_ptr_env 3 = Some (base, len) \<and> 0x8010 = base + 0x10 \<and>
    uint (0x10 :: usize) + uint (8 :: usize) \<le> uint len"
  by (rule frame_home_window_in_block)
    (simp add: frame_home_window_def sample_ptr_env_def non_null_def)

section \<open>The handle cache\<close>

definition cache_ok :: "'g ptr_env \<Rightarrow> (usize \<Rightarrow> object_ref option) \<Rightarrow> bool" where
  "cache_ok env cache \<longleftrightarrow> (\<forall>w r. cache w = Some r \<longrightarrow>
     try_from_storage_ptr (object_arenas env) w = Ok r)"



section \<open>Equality and order\<close>

text \<open>
  The order on managed pointers is not consistent with their equality: two pointers to the
  same byte of the same object compare as equal with \<open>==\<close> but as ordered with \<open>partial_cmp\<close> when
  only one of them has its address cached.
\<close>

theorem managed_ptr_order_inconsistent:
  "\<exists>p q :: unit managed_ptr. managed_ptr_eq p q \<and> managed_ptr_partial_cmp p q = Some Less"
proof -
  define p :: "unit managed_ptr" where "p = \<lparr>mp_value = None, mp_origin = Heap (Some 0x1000),
    inner_type = TypeDescription 1 1, mp_offset = 8, mp_flags = 0\<rparr>"
  have "managed_ptr_eq p (p\<lparr>mp_value := Some 0x1018\<rparr>) \<and>
      managed_ptr_partial_cmp p (p\<lparr>mp_value := Some 0x1018\<rparr>) = Some Less"
    by (simp add: managed_ptr_eq_def managed_ptr_partial_cmp_def unpack_offset_def p_def Let_def)
  then show ?thesis by blast
qed

end
