(* ===== verification/Float_Bits.thy ===== *)
theory Float_Bits
  imports Prelude
begin

unbundle bit_operations_syntax

text \<open>
  IEEE 754 binary64 and binary32 values as Rust's \<open>f64\<close> and \<open>f32\<close>: bit patterns with the
  operators, comparisons and \<open>as\<close> casts the interpreter uses. Every finite binary64 value is an
  integer multiple of \<open>2 ^ -1074\<close>; the integer is its \<open>scaled\<close> value, and all operations are exact on
  it before one rounding to nearest, ties to even. The payload and sign of a NaN result, which
  Rust leaves open, are those of the quiet NaN.
\<close>

section \<open>Representation\<close>

datatype f64 = F64 (f64_bits: "64 word")
datatype f32 = F32 (f32_bits: "32 word")

text \<open>A binary format: significand bits without the hidden bit, exponent field, and its scale.\<close>

definition magnitude_of :: "nat \<Rightarrow> nat \<Rightarrow> nat" where
  "magnitude_of mant_bits m =
     (let e = m div 2 ^ mant_bits; f = m mod 2 ^ mant_bits
      in if e = 0 then f else (2 ^ mant_bits + f) * 2 ^ (e - 1))"

definition f64_negative :: "f64 \<Rightarrow> bool" where
  "f64_negative x \<longleftrightarrow> 2 ^ 63 \<le> unat (f64_bits x)"

definition f64_mag :: "f64 \<Rightarrow> nat" where
  "f64_mag x = unat (f64_bits x) mod 2 ^ 63"

definition f64_inf_mag :: nat where
  "f64_inf_mag = 2047 * 2 ^ 52"

definition is_nan :: "f64 \<Rightarrow> bool" where
  "is_nan x \<longleftrightarrow> f64_mag x > f64_inf_mag"

definition is_infinite :: "f64 \<Rightarrow> bool" where
  "is_infinite x \<longleftrightarrow> f64_mag x = f64_inf_mag"

definition is_finite :: "f64 \<Rightarrow> bool" where
  "is_finite x \<longleftrightarrow> f64_mag x < f64_inf_mag"

definition scaled :: "f64 \<Rightarrow> int" where
  "scaled x = (if f64_negative x then - int (magnitude_of 52 (f64_mag x))
               else int (magnitude_of 52 (f64_mag x)))"

definition f64_of :: "bool \<Rightarrow> nat \<Rightarrow> f64" where
  "f64_of neg m = F64 (of_nat (m + (if neg then 2 ^ 63 else 0)))"

definition f64_nan :: f64 where
  "f64_nan = F64 0x7FF8000000000000"

section \<open>Rounding\<close>

fun bit_len :: "nat \<Rightarrow> nat" where
  "bit_len n = (if n = 0 then 0 else Suc (bit_len (n div 2)))"

declare bit_len.simps [simp del]

text \<open>The magnitude field nearest to \<open>num / den\<close>, in units of the smallest subnormal.\<close>

definition round_mag :: "nat \<Rightarrow> nat \<Rightarrow> nat \<Rightarrow> nat \<Rightarrow> nat" where
  "round_mag mant_bits inf_mag num den =
     (let q = bit_len (num div den) - Suc mant_bits;
          d = den * 2 ^ q;
          r = num div d;
          rest = num mod d;
          r' = (if 2 * rest > d \<or> (2 * rest = d \<and> odd r) then Suc r else r)
      in min (q * 2 ^ mant_bits + r') inf_mag)"

definition round_f64 :: "bool \<Rightarrow> nat \<Rightarrow> nat \<Rightarrow> f64" where
  "round_f64 neg num den = f64_of neg (round_mag 52 f64_inf_mag num den)"

section \<open>Arithmetic\<close>

definition f64_neg :: "f64 \<Rightarrow> f64" where
  "f64_neg x = F64 (f64_bits x XOR push_bit 63 1)"

definition f64_add :: "f64 \<Rightarrow> f64 \<Rightarrow> f64" where
  "f64_add x y =
     (if is_nan x \<or> is_nan y then f64_nan
      else if is_infinite x then
        (if is_infinite y \<and> f64_negative x \<noteq> f64_negative y then f64_nan else x)
      else if is_infinite y then y
      else let s = scaled x + scaled y in
        if s = 0 then f64_of (f64_negative x \<and> f64_negative y) 0
        else round_f64 (s < 0) (nat \<bar>s\<bar>) 1)"

definition f64_sub :: "f64 \<Rightarrow> f64 \<Rightarrow> f64" where
  "f64_sub x y = f64_add x (f64_neg y)"

definition f64_mul :: "f64 \<Rightarrow> f64 \<Rightarrow> f64" where
  "f64_mul x y =
     (let neg = (f64_negative x \<noteq> f64_negative y) in
      if is_nan x \<or> is_nan y then f64_nan
      else if is_infinite x \<or> is_infinite y then
        (if f64_mag x = 0 \<or> f64_mag y = 0 then f64_nan else f64_of neg f64_inf_mag)
      else round_f64 neg (nat \<bar>scaled x * scaled y\<bar>) (2 ^ 1074))"

definition f64_div :: "f64 \<Rightarrow> f64 \<Rightarrow> f64" where
  "f64_div x y =
     (let neg = (f64_negative x \<noteq> f64_negative y) in
      if is_nan x \<or> is_nan y \<or> (is_infinite x \<and> is_infinite y) \<or> (f64_mag x = 0 \<and> f64_mag y = 0)
      then f64_nan
      else if is_infinite x \<or> f64_mag y = 0 then f64_of neg f64_inf_mag
      else if is_infinite y then f64_of neg 0
      else round_f64 neg (nat \<bar>scaled x\<bar> * 2 ^ 1074) (nat \<bar>scaled y\<bar>))"

definition f64_rem :: "f64 \<Rightarrow> f64 \<Rightarrow> f64" where
  "f64_rem x y =
     (if is_nan x \<or> is_nan y \<or> is_infinite x \<or> f64_mag y = 0 then f64_nan
      else if is_infinite y then x
      else round_f64 (f64_negative x) (nat \<bar>scaled x\<bar> mod nat \<bar>scaled y\<bar>) 1)"

section \<open>Comparison and casts\<close>

definition f64_partial_cmp :: "f64 \<Rightarrow> f64 \<Rightarrow> ordering option" where
  "f64_partial_cmp x y = (if is_nan x \<or> is_nan y then None else Some (ord_of (scaled x) (scaled y)))"

definition f64_eq :: "f64 \<Rightarrow> f64 \<Rightarrow> bool" where
  "f64_eq x y \<longleftrightarrow> f64_partial_cmp x y = Some Equal"

definition f64_of_int :: "int \<Rightarrow> f64" where
  "f64_of_int n = round_f64 (n < 0) (nat \<bar>n\<bar> * 2 ^ 1074) 1"

text \<open>The integer part, rounding towards zero.\<close>

definition f64_trunc :: "f64 \<Rightarrow> int" where
  "f64_trunc x = (if scaled x < 0 then - (- scaled x div 2 ^ 1074) else scaled x div 2 ^ 1074)"

definition clamp_int :: "int \<Rightarrow> int \<Rightarrow> int \<Rightarrow> int" where
  "clamp_int lo hi v = (if v < lo then lo else if v > hi then hi else v)"

definition f64_to_signed :: "f64 \<Rightarrow> 'a::len word" where
  "f64_to_signed x = (if is_nan x then 0
     else word_of_int (clamp_int (- (2 ^ (LENGTH('a) - 1))) (2 ^ (LENGTH('a) - 1) - 1) (f64_trunc x)))"

definition f64_to_unsigned :: "f64 \<Rightarrow> 'a::len word" where
  "f64_to_unsigned x = (if is_nan x then 0
     else word_of_int (clamp_int 0 (2 ^ LENGTH('a) - 1) (f64_trunc x)))"

definition f32_negative :: "f32 \<Rightarrow> bool" where
  "f32_negative x \<longleftrightarrow> 2 ^ 31 \<le> unat (f32_bits x)"

definition f32_mag :: "f32 \<Rightarrow> nat" where
  "f32_mag x = unat (f32_bits x) mod 2 ^ 31"

definition f32_inf_mag :: nat where
  "f32_inf_mag = 255 * 2 ^ 23"

definition f32_of :: "bool \<Rightarrow> nat \<Rightarrow> f32" where
  "f32_of neg m = F32 (of_nat (m + (if neg then 2 ^ 31 else 0)))"

definition f64_of_f32 :: "f32 \<Rightarrow> f64" where
  "f64_of_f32 x =
     (if f32_mag x > f32_inf_mag then f64_nan
      else if f32_mag x = f32_inf_mag then f64_of (f32_negative x) f64_inf_mag
      else round_f64 (f32_negative x) (magnitude_of 23 (f32_mag x) * 2 ^ 925) 1)"

definition f32_of_f64 :: "f64 \<Rightarrow> f32" where
  "f32_of_f64 x =
     (if is_nan x then F32 0x7FC00000
      else if is_infinite x then f32_of (f64_negative x) f32_inf_mag
      else f32_of (f64_negative x) (round_mag 23 f32_inf_mag (nat \<bar>scaled x\<bar>) (2 ^ 925)))"

definition f32_of_int :: "int \<Rightarrow> f32" where
  "f32_of_int n = f32_of (n < 0) (round_mag 23 f32_inf_mag (nat \<bar>n\<bar> * 2 ^ 149) 1)"

section \<open>Exactness\<close>

lemma bit_len_0 [simp]: "bit_len 0 = 0"
  by (simp add: bit_len.simps)

lemma bit_len_le_iff: "bit_len n \<le> k \<longleftrightarrow> n < 2 ^ k"
proof (induction k arbitrary: n)
  case 0
  then show ?case by (simp add: bit_len.simps)
next
  case (Suc k)
  show ?case
  proof (cases "n = 0")
    case False
    then have "bit_len n \<le> Suc k \<longleftrightarrow> bit_len (n div 2) \<le> k" by (simp add: bit_len.simps [of n])
    also have "\<dots> \<longleftrightarrow> n div 2 < 2 ^ k" by (rule Suc)
    also have "\<dots> \<longleftrightarrow> n < 2 ^ Suc k" by auto
    finally show ?thesis .
  qed simp
qed

lemma bit_len_eqI: "2 ^ k \<le> n \<Longrightarrow> n < 2 ^ Suc k \<Longrightarrow> bit_len n = Suc k"
  using bit_len_le_iff [of n k] bit_len_le_iff [of n "Suc k"] by simp

text \<open>A magnitude with a significand of at most \<open>M + 1\<close> bits, normalised.\<close>

definition normal_mag :: "nat \<Rightarrow> nat \<Rightarrow> nat \<Rightarrow> bool" where
  "normal_mag M q r \<longleftrightarrow> r < 2 ^ Suc M \<and> (q = 0 \<or> 2 ^ M \<le> r)"

lemma round_mag_exact:
  assumes "normal_mag M q r" and "q * 2 ^ M + r \<le> inf_mag"
  shows "round_mag M inf_mag (r * 2 ^ q) 1 = q * 2 ^ M + r"
proof -
  have "bit_len (r * 2 ^ q) - Suc M = q"
  proof (cases "q = 0")
    case True
    then show ?thesis using assms(1) bit_len_le_iff [of r "Suc M"] by (simp add: normal_mag_def)
  next
    case False
    then have "2 ^ (M + q) \<le> r * 2 ^ q" "r * 2 ^ q < 2 ^ Suc (M + q)"
      using assms(1) by (auto simp: normal_mag_def power_add)
    from bit_len_eqI [OF this] show ?thesis by simp
  qed
  then show ?thesis
    using assms(2) by (simp add: round_mag_def Let_def)
qed

lemma magnitude_of_exact:
  assumes "normal_mag M q r"
  shows "magnitude_of M (q * 2 ^ M + r) = r * 2 ^ q"
proof (cases "r < 2 ^ M")
  case True
  then have "q = 0" using assms by (simp add: normal_mag_def)
  with True show ?thesis by (simp add: magnitude_of_def)
next
  case False
  define f where "f = r - 2 ^ M"
  have f: "r = 2 ^ M + f" "f < 2 ^ M" using False assms by (auto simp: f_def normal_mag_def)
  then have "q * 2 ^ M + r = Suc q * 2 ^ M + f" by simp
  then have "(q * 2 ^ M + r) div 2 ^ M = Suc q" "(q * 2 ^ M + r) mod 2 ^ M = f"
    using f(2) by (simp_all add: div_mult_self3 del: mult_Suc)
  then show ?thesis using f(1) by (simp add: magnitude_of_def Let_def)
qed

lemma f64_of_fields:
  assumes "m < 2 ^ 63"
  shows "f64_mag (f64_of neg m) = m" and "f64_negative (f64_of neg m) = neg"
proof -
  have "unat (of_nat (m + (if neg then 2 ^ 63 else 0)) :: 64 word) = m + (if neg then 2 ^ 63 else 0)"
    using assms by (intro of_nat_inverse [OF refl]) simp
  then show "f64_mag (f64_of neg m) = m" and "f64_negative (f64_of neg m) = neg"
    using assms by (auto simp: f64_mag_def f64_negative_def f64_of_def)
qed

lemma normal_mag_shift:
  assumes "0 < n" and "n < 2 ^ 53"
  shows "\<exists>q r. n * 2 ^ 1074 = r * 2 ^ q \<and> normal_mag 52 q r \<and> q \<le> 1074"
proof -
  define k where "k = bit_len n"
  have k: "n < 2 ^ k" "k \<le> 53" "0 < k"
    using bit_len_le_iff [of n k] bit_len_le_iff [of n 53] bit_len_le_iff [of n 0] assms
    by (auto simp: k_def)
  then have lo: "2 ^ (k - 1) \<le> n"
    using bit_len_le_iff [of n "k - 1"] by (auto simp: k_def not_less [symmetric])
  have "n * 2 ^ (53 - k) < 2 ^ k * 2 ^ (53 - k)" using k(1) by simp
  also have "\<dots> = 2 ^ 53" using k(2) by (simp add: power_add [symmetric])
  finally have up: "n * 2 ^ (53 - k) < 2 ^ 53" .
  have "(2 :: nat) ^ 52 = 2 ^ (k - 1) * 2 ^ (53 - k)" using k by (simp add: power_add [symmetric])
  also have "\<dots> \<le> n * 2 ^ (53 - k)" using lo by simp
  finally have "normal_mag 52 (1074 - (53 - k)) (n * 2 ^ (53 - k))"
    using up by (simp add: normal_mag_def)
  moreover have "n * 2 ^ 1074 = n * 2 ^ (53 - k) * 2 ^ (1074 - (53 - k))"
    using k by (simp add: power_add [symmetric])
  ultimately show ?thesis by (intro exI [of _ "1074 - (53 - k)"] exI [of _ "n * 2 ^ (53 - k)"]) simp
qed

text \<open>Integers of at most 53 bits are represented exactly.\<close>

lemma f64_of_int_exact:
  assumes "\<bar>n\<bar> < 2 ^ 53"
  shows "scaled (f64_of_int n) = n * 2 ^ 1074" and "is_finite (f64_of_int n)"
proof -
  have "\<exists>m. f64_of_int n = f64_of (n < 0) m \<and> m < f64_inf_mag \<and> magnitude_of 52 m = nat \<bar>n\<bar> * 2 ^ 1074"
  proof (cases "n = 0")
    case True
    then show ?thesis
      by (auto simp: f64_of_int_def round_f64_def round_mag_def f64_inf_mag_def magnitude_of_def)
  next
    case False
    then have "0 < nat \<bar>n\<bar>" "nat \<bar>n\<bar> < 2 ^ 53" using assms by (auto simp: nat_less_iff)
    then obtain q r where qr: "nat \<bar>n\<bar> * 2 ^ 1074 = r * 2 ^ q" "normal_mag 52 q r" "q \<le> 1074"
      using normal_mag_shift by blast
    have "q * 2 ^ 52 + r < 1076 * 2 ^ 52"
      using qr(2,3) by (simp add: normal_mag_def)
    then have lt: "q * 2 ^ 52 + r < f64_inf_mag" by (simp add: f64_inf_mag_def)
    then show ?thesis
      using round_mag_exact [OF qr(2), of f64_inf_mag] magnitude_of_exact [OF qr(2)] qr(1)
      by (auto simp: f64_of_int_def round_f64_def)
  qed
  then obtain m where m: "f64_of_int n = f64_of (n < 0) m" "m < f64_inf_mag"
      "magnitude_of 52 m = nat \<bar>n\<bar> * 2 ^ 1074" by blast
  have "m < 2 ^ 63" using m(2) by (simp add: f64_inf_mag_def)
  note fields = f64_of_fields [OF this]
  show "scaled (f64_of_int n) = n * 2 ^ 1074"
    by (cases "n < 0") (simp_all add: scaled_def m(1,3) fields)
  show "is_finite (f64_of_int n)" using m(2) by (simp add: is_finite_def m(1) fields)
qed

lemma f64_trunc_of_int: "\<bar>n\<bar> < 2 ^ 53 \<Longrightarrow> f64_trunc (f64_of_int n) = n"
proof -
  assume n: "\<bar>n\<bar> < 2 ^ 53"
  have "(- n * 2 ^ 1074) div 2 ^ 1074 = - n" "(n * 2 ^ 1074) div 2 ^ 1074 = n"
    by (rule nonzero_mult_div_cancel_right, simp)+
  then show ?thesis
    by (simp add: f64_trunc_def f64_of_int_exact(1) [OF n] mult_less_0_iff)
qed

lemma f64_cmp_of_int:
  "\<bar>a\<bar> < 2 ^ 53 \<Longrightarrow> \<bar>b\<bar> < 2 ^ 53 \<Longrightarrow> f64_partial_cmp (f64_of_int a) (f64_of_int b) = Some (ord_of a b)"
  using f64_of_int_exact [of a] f64_of_int_exact [of b]
  by (auto simp: f64_partial_cmp_def is_nan_def is_finite_def ord_of_def)

lemma f64_partial_cmp_flip: "f64_partial_cmp y x = map_option reverse_ordering (f64_partial_cmp x y)"
  by (auto simp: f64_partial_cmp_def cmp_simps)

end
