(* ===== verification/Stack_Value.thy ===== *)
theory Stack_Value
  imports Managed_Ptr Float_Bits
begin

unbundle bit_operations_syntax

text \<open>
  Evaluation stack values (\<open>dotnet-value/src/stack_value.rs\<close>): the value kinds of the CLI stack and
  the arithmetic, bitwise, shift and comparison operations the instruction handlers apply to them.
  A panic of a plain Rust operator is the \<open>Panic\<close> outcome, a managed exception an error value.
\<close>

section \<open>Values\<close>

datatype managed_exception = OverflowException | DivideByZeroException

datatype stack_value_error = ManagedException managed_exception | Execution execution_error

datatype number_sign = Signed | Unsigned

datatype 'g stack_value =
    Int32 i32
  | Int64 i64
  | NativeInt isize
  | NativeFloat f64
  | ObjectRef object_ref
  | UnmanagedPtr usize
  | ManagedPtr "'g managed_ptr"
  | ValueType "'g vm_object"
  | TypedRef "'g managed_ptr" type_description
  | UninitializedTypedRef

type_synonym 'g exec_result = "(execution_error, 'g stack_value) outcome"
type_synonym 'g value_result = "(stack_value_error, 'g stack_value) outcome"

fun stack_value_kind :: "'g stack_value \<Rightarrow> string" where
  "stack_value_kind (Int32 _) = ''Int32''"
| "stack_value_kind (Int64 _) = ''Int64''"
| "stack_value_kind (NativeInt _) = ''NativeInt''"
| "stack_value_kind (NativeFloat _) = ''NativeFloat''"
| "stack_value_kind (ObjectRef _) = ''ObjectRef''"
| "stack_value_kind (UnmanagedPtr _) = ''UnmanagedPtr''"
| "stack_value_kind (ManagedPtr _) = ''ManagedPtr''"
| "stack_value_kind (ValueType _) = ''ValueType''"
| "stack_value_kind (TypedRef _ _) = ''TypedRef''"
| "stack_value_kind UninitializedTypedRef = ''UninitializedTypedRef''"

definition mismatch1 :: "string \<Rightarrow> 'g stack_value \<Rightarrow> execution_error" where
  "mismatch1 expected v = TypeMismatch expected (stack_value_kind v)"

definition mismatch2 :: "string \<Rightarrow> 'g stack_value \<Rightarrow> 'g stack_value \<Rightarrow> execution_error" where
  "mismatch2 expected l r = TypeMismatch expected (stack_value_kind l @ '', '' @ stack_value_kind r)"

definition stack_null :: "'g stack_value" where
  "stack_null = ObjectRef None"

definition unmanaged_ptr :: "usize \<Rightarrow> 'g stack_value" where
  "unmanaged_ptr a = (case non_null a of Some p \<Rightarrow> UnmanagedPtr p | None \<Rightarrow> NativeInt 0)"

definition unmanaged_ptr_offset :: "usize \<Rightarrow> isize \<Rightarrow> 'g stack_value" where
  "unmanaged_ptr_offset p delta =
     unmanaged_ptr (case non_null (p + delta) of Some a \<Rightarrow> a | None \<Rightarrow> 0)"

fun is_zero :: "'g stack_value \<Rightarrow> bool" where
  "is_zero (Int32 i) = (i = 0)"
| "is_zero (Int64 i) = (i = 0)"
| "is_zero (NativeInt i) = (i = 0)"
| "is_zero _ = False"

fun is_null :: "'g stack_value \<Rightarrow> bool" where
  "is_null (ObjectRef r) = (r = None)"
| "is_null (ManagedPtr m) = managed_ptr_is_null m"
| "is_null (UnmanagedPtr _) = False"
| "is_null v = is_zero v"

section \<open>Typed access\<close>

fun try_as_i32 :: "'g stack_value \<Rightarrow> (execution_error, i32) outcome" where
  "try_as_i32 (Int32 i) = Ok i"
| "try_as_i32 (NativeInt i) = Ok (ucast i)"
| "try_as_i32 v = Err (mismatch1 ''Int32'' v)"

fun try_as_i64 :: "'g stack_value \<Rightarrow> (execution_error, i64) outcome" where
  "try_as_i64 (Int64 i) = Ok i"
| "try_as_i64 v = Err (mismatch1 ''Int64'' v)"

fun try_as_f64 :: "'g stack_value \<Rightarrow> (execution_error, f64) outcome" where
  "try_as_f64 (NativeFloat f) = Ok f"
| "try_as_f64 v = Err (mismatch1 ''NativeFloat'' v)"

fun try_as_isize :: "'g stack_value \<Rightarrow> (execution_error, isize) outcome" where
  "try_as_isize (NativeInt i) = Ok i"
| "try_as_isize (Int32 i) = Ok (scast i)"
| "try_as_isize v = Err (mismatch1 ''NativeInt'' v)"

fun try_as_object_ref :: "'g stack_value \<Rightarrow> (execution_error, object_ref) outcome" where
  "try_as_object_ref (ObjectRef r) = Ok r"
| "try_as_object_ref v = Err (mismatch1 ''ObjectRef'' v)"

fun try_as_managed_ptr :: "'g stack_value \<Rightarrow> (execution_error, 'g managed_ptr) outcome" where
  "try_as_managed_ptr (ManagedPtr m) = Ok m"
| "try_as_managed_ptr v = Err (mismatch1 ''ManagedPtr'' v)"

fun try_as_value_type :: "'g stack_value \<Rightarrow> (execution_error, 'g vm_object) outcome" where
  "try_as_value_type (ValueType v) = Ok v"
| "try_as_value_type v = Err (mismatch1 ''ValueType'' v)"

text \<open>The panicking accessors \<open>as_i32\<close> to \<open>as_value_type\<close> panic where the checked ones fail.\<close>

definition or_panic :: "('e, 'a) outcome \<Rightarrow> ('f, 'a) outcome" where
  "or_panic r = (case r of Ok a \<Rightarrow> Ok a | _ \<Rightarrow> Panic)"

section \<open>Pointer addresses\<close>

definition managed_ptr_to_raw :: "'g ptr_env \<Rightarrow> 'g managed_ptr \<Rightarrow> usize" where
  "managed_ptr_to_raw env m = (case observe_address env m of Some a \<Rightarrow> a | None \<Rightarrow> 0)"

fun pointer_address :: "'g ptr_env \<Rightarrow> 'g stack_value \<Rightarrow> usize option" where
  "pointer_address env (NativeInt i) = Some i"
| "pointer_address env (UnmanagedPtr p) = Some p"
| "pointer_address env (ManagedPtr m) = Some (managed_ptr_to_raw env m)"
| "pointer_address env _ = None"

definition pointer_difference :: "'g ptr_env \<Rightarrow> 'g stack_value \<Rightarrow> 'g stack_value \<Rightarrow> ('e, isize) outcome" where
  "pointer_difference env l r =
     (case (pointer_address env l, pointer_address env r) of
        (Some a, Some b) \<Rightarrow> Ok (a - b) | _ \<Rightarrow> Panic)"

section \<open>Arithmetic\<close>

definition overflow_err :: "'a option \<Rightarrow> (stack_value_error, 'a) outcome" where
  "overflow_err = ok_or (ManagedException OverflowException)"

text \<open>
  The operation tables take the operation at each width and signedness: 32-bit signed and
  unsigned, 64-bit signed and unsigned.
\<close>

definition checked_arithmetic_op ::
    "(i32 \<Rightarrow> i32 \<Rightarrow> i32 option) \<Rightarrow> (u32 \<Rightarrow> u32 \<Rightarrow> u32 option) \<Rightarrow>
     (i64 \<Rightarrow> i64 \<Rightarrow> i64 option) \<Rightarrow> (u64 \<Rightarrow> u64 \<Rightarrow> u64 option) \<Rightarrow>
     'g stack_value \<Rightarrow> 'g stack_value \<Rightarrow> number_sign \<Rightarrow> 'g value_result" where
  "checked_arithmetic_op s32 u32 s64 u64 l r ns =
     (let mismatch =
        Err (Execution (mismatch2 ''checked arithmetic operands (Int32, Int64, NativeInt)'' l r))
      in case l of
        Int32 a \<Rightarrow>
          (case r of
             Int32 b \<Rightarrow> map_outcome Int32 (overflow_err
               (case ns of Signed \<Rightarrow> s32 a b | Unsigned \<Rightarrow> u32 a b))
           | NativeInt b \<Rightarrow> map_outcome NativeInt (overflow_err
               (case ns of Signed \<Rightarrow> s64 (scast a) b | Unsigned \<Rightarrow> u64 (ucast a) b))
           | _ \<Rightarrow> mismatch)
      | Int64 a \<Rightarrow>
          (case r of
             Int64 b \<Rightarrow> map_outcome Int64 (overflow_err
               (case ns of Signed \<Rightarrow> s64 a b | Unsigned \<Rightarrow> u64 a b))
           | _ \<Rightarrow> mismatch)
      | NativeInt a \<Rightarrow>
          (case r of
             NativeInt b \<Rightarrow> map_outcome NativeInt (overflow_err
               (case ns of Signed \<Rightarrow> s64 a b | Unsigned \<Rightarrow> u64 a b))
           | Int32 b \<Rightarrow> map_outcome NativeInt (overflow_err
               (case ns of Signed \<Rightarrow> s64 a (scast b) | Unsigned \<Rightarrow> u64 a (ucast b)))
           | _ \<Rightarrow> mismatch)
      | _ \<Rightarrow> mismatch)"

definition checked_add :: "'g stack_value \<Rightarrow> 'g stack_value \<Rightarrow> number_sign \<Rightarrow> 'g value_result" where
  "checked_add = checked_arithmetic_op (\<lambda>a b. try_signed (sint a + sint b))
     (\<lambda>a b. try_unsigned (uint a + uint b)) (\<lambda>a b. try_signed (sint a + sint b))
     (\<lambda>a b. try_unsigned (uint a + uint b))"

definition checked_sub :: "'g stack_value \<Rightarrow> 'g stack_value \<Rightarrow> number_sign \<Rightarrow> 'g value_result" where
  "checked_sub = checked_arithmetic_op (\<lambda>a b. try_signed (sint a - sint b))
     (\<lambda>a b. try_unsigned (uint a - uint b)) (\<lambda>a b. try_signed (sint a - sint b))
     (\<lambda>a b. try_unsigned (uint a - uint b))"

definition checked_mul :: "'g stack_value \<Rightarrow> 'g stack_value \<Rightarrow> number_sign \<Rightarrow> 'g value_result" where
  "checked_mul = checked_arithmetic_op (\<lambda>a b. try_signed (sint a * sint b))
     (\<lambda>a b. try_unsigned (uint a * uint b)) (\<lambda>a b. try_signed (sint a * sint b))
     (\<lambda>a b. try_unsigned (uint a * uint b))"

definition arithmetic_op ::
    "(i32 \<Rightarrow> i32 \<Rightarrow> (execution_error, i32) outcome) \<Rightarrow> (u32 \<Rightarrow> u32 \<Rightarrow> (execution_error, u32) outcome) \<Rightarrow>
     (i64 \<Rightarrow> i64 \<Rightarrow> (execution_error, i64) outcome) \<Rightarrow> (u64 \<Rightarrow> u64 \<Rightarrow> (execution_error, u64) outcome) \<Rightarrow>
     (f64 \<Rightarrow> f64 \<Rightarrow> f64) \<Rightarrow> 'g stack_value \<Rightarrow> 'g stack_value \<Rightarrow> number_sign \<Rightarrow> 'g exec_result" where
  "arithmetic_op s32 u32 s64 u64 fl l r ns =
     (let mismatch =
        Err (mismatch2 ''arithmetic operands (Int32, Int64, NativeInt, NativeFloat)'' l r)
      in case l of
        Int32 a \<Rightarrow>
          (case r of
             Int32 b \<Rightarrow> map_outcome Int32 (case ns of Signed \<Rightarrow> s32 a b | Unsigned \<Rightarrow> u32 a b)
           | NativeInt b \<Rightarrow> map_outcome NativeInt
               (case ns of Signed \<Rightarrow> s64 (scast a) b | Unsigned \<Rightarrow> u64 (ucast a) b)
           | _ \<Rightarrow> mismatch)
      | Int64 a \<Rightarrow>
          (case r of
             Int64 b \<Rightarrow> map_outcome Int64 (case ns of Signed \<Rightarrow> s64 a b | Unsigned \<Rightarrow> u64 a b)
           | _ \<Rightarrow> mismatch)
      | NativeInt a \<Rightarrow>
          (case r of
             NativeInt b \<Rightarrow> map_outcome NativeInt
               (case ns of Signed \<Rightarrow> s64 a b | Unsigned \<Rightarrow> u64 a b)
           | Int32 b \<Rightarrow> map_outcome NativeInt
               (case ns of Signed \<Rightarrow> s64 a (scast b) | Unsigned \<Rightarrow> u64 a (ucast b))
           | _ \<Rightarrow> mismatch)
      | NativeFloat a \<Rightarrow> (case r of NativeFloat b \<Rightarrow> Ok (NativeFloat (fl a b)) | _ \<Rightarrow> mismatch)
      | _ \<Rightarrow> mismatch)"

definition stack_div :: "'g stack_value \<Rightarrow> 'g stack_value \<Rightarrow> number_sign \<Rightarrow> 'g value_result" where
  "stack_div l r ns =
     (if is_zero r then Err (ManagedException DivideByZeroException)
      else map_err Execution
             (arithmetic_op sdiv_panic udiv_panic sdiv_panic udiv_panic f64_div l r ns))"

definition stack_rem :: "'g stack_value \<Rightarrow> 'g stack_value \<Rightarrow> number_sign \<Rightarrow> 'g value_result" where
  "stack_rem l r ns =
     (if is_zero r then Err (ManagedException DivideByZeroException)
      else map_err Execution
             (arithmetic_op smod_panic umod_panic smod_panic umod_panic f64_rem l r ns))"

fun extract_shift_amount :: "'g stack_value \<Rightarrow> (execution_error, u32) outcome" where
  "extract_shift_amount (Int32 i) = Ok i"
| "extract_shift_amount (NativeInt i) = Ok (ucast i)"
| "extract_shift_amount v = Err (mismatch1 ''shift amount (Int32 or NativeInt)'' v)"

fun shift_op :: "'g stack_value \<Rightarrow> u32 \<Rightarrow> number_sign \<Rightarrow> 'g exec_result" where
  "shift_op (Int32 i) amount Signed = map_outcome Int32 (sshr_panic i amount)"
| "shift_op (Int32 i) amount Unsigned = map_outcome Int32 (ushr_panic i amount)"
| "shift_op (Int64 i) amount Signed = map_outcome Int64 (sshr_panic i amount)"
| "shift_op (Int64 i) amount Unsigned = map_outcome Int64 (ushr_panic i amount)"
| "shift_op (NativeInt i) amount Signed = map_outcome NativeInt (sshr_panic i amount)"
| "shift_op (NativeInt i) amount Unsigned = map_outcome NativeInt (ushr_panic i amount)"
| "shift_op v amount ns = Err (mismatch1 ''shift target (Int32, Int64, NativeInt)'' v)"

definition stack_shr :: "'g stack_value \<Rightarrow> 'g stack_value \<Rightarrow> number_sign \<Rightarrow> 'g exec_result" where
  "stack_shr v other ns = and_then (extract_shift_amount other) (\<lambda>amount. shift_op v amount ns)"

definition stack_shl :: "'g stack_value \<Rightarrow> 'g stack_value \<Rightarrow> 'g exec_result" where
  "stack_shl v other = and_then (extract_shift_amount other) (\<lambda>amount.
     case v of
       Int32 i \<Rightarrow> map_outcome Int32 (shl_panic i amount)
     | Int64 i \<Rightarrow> map_outcome Int64 (shl_panic i amount)
     | NativeInt i \<Rightarrow> map_outcome NativeInt (shl_panic i amount)
     | _ \<Rightarrow> Err (mismatch1 ''shift target (Int32, Int64, NativeInt)'' v))"

definition bitwise_op ::
    "(i32 \<Rightarrow> i32 \<Rightarrow> i32) \<Rightarrow> (i64 \<Rightarrow> i64 \<Rightarrow> i64) \<Rightarrow> 'g stack_value \<Rightarrow> 'g stack_value \<Rightarrow> 'g exec_result" where
  "bitwise_op op32 op64 l r =
     (let mismatch = Err (mismatch2 ''bitwise operands (Int32, Int64, NativeInt)'' l r)
      in case l of
        Int32 a \<Rightarrow>
          (case r of Int32 b \<Rightarrow> Ok (Int32 (op32 a b))
           | NativeInt b \<Rightarrow> Ok (NativeInt (op64 (scast a) b)) | _ \<Rightarrow> mismatch)
      | Int64 a \<Rightarrow>
          (case r of Int64 b \<Rightarrow> Ok (Int64 (op64 a b))
           | NativeInt b \<Rightarrow> Ok (Int64 (op64 a b)) | _ \<Rightarrow> mismatch)
      | NativeInt a \<Rightarrow>
          (case r of Int32 b \<Rightarrow> Ok (NativeInt (op64 a (scast b)))
           | Int64 b \<Rightarrow> Ok (Int64 (op64 a b))
           | NativeInt b \<Rightarrow> Ok (NativeInt (op64 a b)) | _ \<Rightarrow> mismatch)
      | _ \<Rightarrow> mismatch)"

definition stack_and :: "'g stack_value \<Rightarrow> 'g stack_value \<Rightarrow> 'g exec_result" where
  "stack_and = bitwise_op (AND) (AND)"

definition stack_or :: "'g stack_value \<Rightarrow> 'g stack_value \<Rightarrow> 'g exec_result" where
  "stack_or = bitwise_op (OR) (OR)"

definition stack_xor :: "'g stack_value \<Rightarrow> 'g stack_value \<Rightarrow> 'g exec_result" where
  "stack_xor = bitwise_op (XOR) (XOR)"

fun stack_not :: "'g stack_value \<Rightarrow> 'g exec_result" where
  "stack_not (Int32 i) = Ok (Int32 (NOT i))"
| "stack_not (Int64 i) = Ok (Int64 (NOT i))"
| "stack_not (NativeInt i) = Ok (NativeInt (NOT i))"
| "stack_not v = Err (mismatch1 ''not operand (Int32, Int64, NativeInt)'' v)"

fun stack_neg :: "'g stack_value \<Rightarrow> 'g exec_result" where
  "stack_neg (Int32 i) = map_outcome Int32 (neg_panic i)"
| "stack_neg (Int64 i) = map_outcome Int64 (neg_panic i)"
| "stack_neg (NativeInt i) = map_outcome NativeInt (neg_panic i)"
| "stack_neg (NativeFloat f) = Ok (NativeFloat (f64_neg f))"
| "stack_neg v = Err (mismatch1 ''neg operand (Int32, Int64, NativeInt, NativeFloat)'' v)"

definition ref_address :: "object_ref \<Rightarrow> isize" where
  "ref_address r = (case r of Some a \<Rightarrow> a | None \<Rightarrow> 0)"

definition wrapping_arithmetic_op ::
    "(i32 \<Rightarrow> i32 \<Rightarrow> i32) \<Rightarrow> (i64 \<Rightarrow> i64 \<Rightarrow> i64) \<Rightarrow> (f64 \<Rightarrow> f64 \<Rightarrow> f64) \<Rightarrow>
     'g stack_value \<Rightarrow> 'g stack_value \<Rightarrow> 'g exec_result" where
  "wrapping_arithmetic_op op32 op64 fl l r =
     (let mismatch = Err (mismatch2
        ''arithmetic operands (Int32, Int64, NativeInt, NativeFloat, ObjectRef+nint)'' l r)
      in case l of
        Int32 a \<Rightarrow>
          (case r of Int32 b \<Rightarrow> Ok (Int32 (op32 a b))
           | NativeInt b \<Rightarrow> Ok (NativeInt (op64 (scast a) b)) | _ \<Rightarrow> mismatch)
      | Int64 a \<Rightarrow>
          (case r of Int64 b \<Rightarrow> Ok (Int64 (op64 a b))
           | NativeInt b \<Rightarrow> Ok (Int64 (op64 a b)) | _ \<Rightarrow> mismatch)
      | NativeInt a \<Rightarrow>
          (case r of Int32 b \<Rightarrow> Ok (NativeInt (op64 a (scast b)))
           | Int64 b \<Rightarrow> Ok (Int64 (op64 a b))
           | NativeInt b \<Rightarrow> Ok (NativeInt (op64 a b)) | _ \<Rightarrow> mismatch)
      | NativeFloat a \<Rightarrow> (case r of NativeFloat b \<Rightarrow> Ok (NativeFloat (fl a b)) | _ \<Rightarrow> mismatch)
      | ObjectRef a \<Rightarrow>
          (case r of NativeInt b \<Rightarrow> Ok (NativeInt (op64 (ref_address a) b))
           | Int32 b \<Rightarrow> Ok (NativeInt (op64 (ref_address a) (scast b)))
           | ObjectRef b \<Rightarrow> Ok (NativeInt (op64 (ref_address a) (ref_address b))) | _ \<Rightarrow> mismatch)
      | _ \<Rightarrow> mismatch)"

definition managed_offset :: "'g managed_ptr \<Rightarrow> isize \<Rightarrow> 'g exec_result" where
  "managed_offset m bytes = map_err (\<lambda>_. NotImplemented) (map_outcome ManagedPtr (checked_offset m bytes))"

definition stack_add :: "'g stack_value \<Rightarrow> 'g stack_value \<Rightarrow> 'g exec_result" where
  "stack_add l r =
     (case (l, r) of
        (Int32 i, ManagedPtr m) \<Rightarrow> managed_offset m (scast i)
      | (ManagedPtr m, Int32 i) \<Rightarrow> managed_offset m (scast i)
      | (NativeInt i, ManagedPtr m) \<Rightarrow> managed_offset m i
      | (ManagedPtr m, NativeInt i) \<Rightarrow> managed_offset m i
      | (Int32 i, UnmanagedPtr u) \<Rightarrow> Ok (unmanaged_ptr_offset u (scast i))
      | (UnmanagedPtr u, Int32 i) \<Rightarrow> Ok (unmanaged_ptr_offset u (scast i))
      | (NativeInt i, UnmanagedPtr u) \<Rightarrow> Ok (unmanaged_ptr_offset u i)
      | (UnmanagedPtr u, NativeInt i) \<Rightarrow> Ok (unmanaged_ptr_offset u i)
      | _ \<Rightarrow> wrapping_arithmetic_op (+) (+) f64_add l r)"

text \<open>\<open>managed_offset\<close> by the checked negation of the operand.\<close>

definition managed_offset_neg :: "'g managed_ptr \<Rightarrow> isize \<Rightarrow> 'g exec_result" where
  "managed_offset_neg m i =
     and_then (ok_or NotImplemented (try_signed (- sint i))) (managed_offset m)"

definition stack_sub :: "'g ptr_env \<Rightarrow> 'g stack_value \<Rightarrow> 'g stack_value \<Rightarrow> 'g exec_result" where
  "stack_sub env l r =
     (let difference = map_outcome NativeInt (pointer_difference env l r)
      in case (l, r) of
        (ManagedPtr m, Int32 i) \<Rightarrow> managed_offset_neg m (scast i)
      | (ManagedPtr m, NativeInt i) \<Rightarrow> managed_offset_neg m i
      | (ManagedPtr m, Int64 i) \<Rightarrow> managed_offset_neg m i
      | (UnmanagedPtr u, Int32 i) \<Rightarrow> Ok (unmanaged_ptr_offset u (- scast i))
      | (UnmanagedPtr u, NativeInt i) \<Rightarrow> Ok (unmanaged_ptr_offset u (- i))
      | (UnmanagedPtr _, UnmanagedPtr _) \<Rightarrow> difference
      | (NativeInt _, UnmanagedPtr _) \<Rightarrow> difference
      | (UnmanagedPtr _, ManagedPtr _) \<Rightarrow> difference
      | (ManagedPtr _, UnmanagedPtr _) \<Rightarrow> difference
      | (ManagedPtr _, ManagedPtr _) \<Rightarrow> difference
      | _ \<Rightarrow> wrapping_arithmetic_op (-) (-) f64_sub l r)"

definition stack_mul :: "'g stack_value \<Rightarrow> 'g stack_value \<Rightarrow> 'g exec_result" where
  "stack_mul = wrapping_arithmetic_op (*) (*) f64_mul"

section \<open>Comparison\<close>

definition object_ref_partial_cmp :: "object_ref \<Rightarrow> object_ref \<Rightarrow> ordering option" where
  "object_ref_partial_cmp l r =
     (case (l, r) of
        (Some a, Some b) \<Rightarrow> Some (ord_of a b)
      | (None, None) \<Rightarrow> Some Equal
      | (None, Some _) \<Rightarrow> Some Less
      | (Some _, None) \<Rightarrow> Some Greater)"

definition stack_eq :: "'g ptr_env \<Rightarrow> 'g stack_value \<Rightarrow> 'g stack_value \<Rightarrow> bool" where
  "stack_eq env l r =
     (let addresses = (pointer_address env l = pointer_address env r)
      in case l of
        Int32 a \<Rightarrow> (case r of Int32 b \<Rightarrow> a = b | NativeInt b \<Rightarrow> scast a = b | _ \<Rightarrow> False)
      | Int64 a \<Rightarrow> (case r of Int64 b \<Rightarrow> a = b | _ \<Rightarrow> False)
      | NativeInt a \<Rightarrow>
          (case r of Int32 b \<Rightarrow> a = scast b | NativeInt b \<Rightarrow> a = b
           | ManagedPtr _ \<Rightarrow> addresses | UnmanagedPtr _ \<Rightarrow> addresses | _ \<Rightarrow> False)
      | NativeFloat a \<Rightarrow> (case r of NativeFloat b \<Rightarrow> f64_eq a b | _ \<Rightarrow> False)
      | ManagedPtr a \<Rightarrow>
          (case r of ManagedPtr b \<Rightarrow> managed_ptr_eq a b
           | NativeInt _ \<Rightarrow> addresses | UnmanagedPtr _ \<Rightarrow> addresses | _ \<Rightarrow> False)
      | UnmanagedPtr _ \<Rightarrow>
          (case r of ManagedPtr _ \<Rightarrow> addresses | UnmanagedPtr _ \<Rightarrow> addresses
           | NativeInt _ \<Rightarrow> addresses | _ \<Rightarrow> False)
      | ObjectRef a \<Rightarrow> (case r of ObjectRef b \<Rightarrow> a = b | _ \<Rightarrow> False)
      | ValueType a \<Rightarrow> (case r of ValueType b \<Rightarrow> a = b | _ \<Rightarrow> False)
      | _ \<Rightarrow> False)"

text \<open>\<open>Option::partial_cmp\<close> on two observed addresses, as unsigned and as signed integers.\<close>

definition address_cmp :: "'g ptr_env \<Rightarrow> 'g stack_value \<Rightarrow> 'g stack_value \<Rightarrow> ordering option" where
  "address_cmp env l r = object_ref_partial_cmp (pointer_address env l) (pointer_address env r)"

definition signed_address_cmp :: "'g ptr_env \<Rightarrow> 'g stack_value \<Rightarrow> 'g stack_value \<Rightarrow> ordering option" where
  "signed_address_cmp env l r =
     (case (pointer_address env l, pointer_address env r) of
        (Some a, Some b) \<Rightarrow> Some (ord_of (sint a) (sint b))
      | (None, None) \<Rightarrow> Some Equal
      | (None, Some _) \<Rightarrow> Some Less
      | (Some _, None) \<Rightarrow> Some Greater)"

definition stack_partial_cmp :: "'g ptr_env \<Rightarrow> 'g stack_value \<Rightarrow> 'g stack_value \<Rightarrow> ordering option" where
  "stack_partial_cmp env l r =
     (case l of
        Int32 a \<Rightarrow>
          (case r of Int32 b \<Rightarrow> Some (ord_of (sint a) (sint b))
           | NativeInt b \<Rightarrow> Some (ord_of (sint (scast a :: isize)) (sint b)) | _ \<Rightarrow> None)
      | Int64 a \<Rightarrow> (case r of Int64 b \<Rightarrow> Some (ord_of (sint a) (sint b)) | _ \<Rightarrow> None)
      | NativeInt a \<Rightarrow>
          (case r of Int32 b \<Rightarrow> Some (ord_of (sint a) (sint (scast b :: isize)))
           | NativeInt b \<Rightarrow> Some (ord_of (sint a) (sint b))
           | ManagedPtr _ \<Rightarrow> signed_address_cmp env l r
           | UnmanagedPtr _ \<Rightarrow> signed_address_cmp env l r | _ \<Rightarrow> None)
      | NativeFloat a \<Rightarrow> (case r of NativeFloat b \<Rightarrow> f64_partial_cmp a b | _ \<Rightarrow> None)
      | ManagedPtr _ \<Rightarrow>
          (case r of ManagedPtr _ \<Rightarrow> address_cmp env l r | UnmanagedPtr _ \<Rightarrow> address_cmp env l r
           | NativeInt _ \<Rightarrow> signed_address_cmp env l r | _ \<Rightarrow> None)
      | UnmanagedPtr _ \<Rightarrow>
          (case r of ManagedPtr _ \<Rightarrow> address_cmp env l r | UnmanagedPtr _ \<Rightarrow> address_cmp env l r
           | NativeInt _ \<Rightarrow> signed_address_cmp env l r | _ \<Rightarrow> None)
      | ObjectRef a \<Rightarrow> (case r of ObjectRef b \<Rightarrow> object_ref_partial_cmp a b | _ \<Rightarrow> None)
      | _ \<Rightarrow> None)"

definition stack_compare ::
    "'g ptr_env \<Rightarrow> 'g stack_value \<Rightarrow> 'g stack_value \<Rightarrow> number_sign \<Rightarrow> ordering option" where
  "stack_compare env l r ns =
     (if ns = Signed then stack_partial_cmp env l r else
      case l of
        Int32 a \<Rightarrow>
          (case r of Int32 b \<Rightarrow> Some (ord_of a b)
           | NativeInt b \<Rightarrow> Some (ord_of (ucast a) b) | _ \<Rightarrow> stack_partial_cmp env l r)
      | NativeInt a \<Rightarrow>
          (case r of Int32 b \<Rightarrow> Some (ord_of a (ucast b)) | NativeInt b \<Rightarrow> Some (ord_of a b)
           | ManagedPtr _ \<Rightarrow> address_cmp env l r | UnmanagedPtr _ \<Rightarrow> address_cmp env l r
           | _ \<Rightarrow> stack_partial_cmp env l r)
      | Int64 a \<Rightarrow> (case r of Int64 b \<Rightarrow> Some (ord_of a b) | _ \<Rightarrow> stack_partial_cmp env l r)
      | ManagedPtr _ \<Rightarrow>
          (case r of NativeInt _ \<Rightarrow> address_cmp env l r | _ \<Rightarrow> stack_partial_cmp env l r)
      | UnmanagedPtr _ \<Rightarrow>
          (case r of NativeInt _ \<Rightarrow> address_cmp env l r | _ \<Rightarrow> stack_partial_cmp env l r)
      | _ \<Rightarrow> stack_partial_cmp env l r)"

section \<open>Integer reading of the operations\<close>

text \<open>
  The integer kinds, their widths, the integer a value stands for under a signedness, and the kind
  two integer operands combine to. The specifications below are over unbounded integers.
\<close>

datatype int_kind = KInt32 | KInt64 | KNativeInt

fun kind_width :: "int_kind \<Rightarrow> nat" where
  "kind_width KInt32 = 32"
| "kind_width KInt64 = 64"
| "kind_width KNativeInt = 64"

fun int_kind_of :: "'g stack_value \<Rightarrow> int_kind option" where
  "int_kind_of (Int32 _) = Some KInt32"
| "int_kind_of (Int64 _) = Some KInt64"
| "int_kind_of (NativeInt _) = Some KNativeInt"
| "int_kind_of _ = None"

fun int_of_value :: "number_sign \<Rightarrow> 'g stack_value \<Rightarrow> int" where
  "int_of_value ns (Int32 i) = (if ns = Signed then sint i else uint i)"
| "int_of_value ns (Int64 i) = (if ns = Signed then sint i else uint i)"
| "int_of_value ns (NativeInt i) = (if ns = Signed then sint i else uint i)"
| "int_of_value ns _ = 0"

fun of_int_kind :: "int_kind \<Rightarrow> int \<Rightarrow> 'g stack_value" where
  "of_int_kind KInt32 n = Int32 (word_of_int n)"
| "of_int_kind KInt64 n = Int64 (word_of_int n)"
| "of_int_kind KNativeInt n = NativeInt (word_of_int n)"

definition fits_kind :: "number_sign \<Rightarrow> int_kind \<Rightarrow> int \<Rightarrow> bool" where
  "fits_kind ns k n =
     (if ns = Signed then fits_signed (kind_width k) n else fits_unsigned (kind_width k) n)"

fun join_kind :: "int_kind \<Rightarrow> int_kind \<Rightarrow> int_kind option" where
  "join_kind KInt32 KInt32 = Some KInt32"
| "join_kind KInt64 KInt64 = Some KInt64"
| "join_kind KNativeInt KNativeInt = Some KNativeInt"
| "join_kind KNativeInt KInt32 = Some KNativeInt"
| "join_kind KInt32 KNativeInt = Some KNativeInt"
| "join_kind _ _ = None"

definition joint_kind :: "'g stack_value \<Rightarrow> 'g stack_value \<Rightarrow> int_kind option" where
  "joint_kind l r =
     (case (int_kind_of l, int_kind_of r) of (Some a, Some b) \<Rightarrow> join_kind a b | _ \<Rightarrow> None)"

definition checked_spec ::
    "(int \<Rightarrow> int \<Rightarrow> int) \<Rightarrow> 'g stack_value \<Rightarrow> 'g stack_value \<Rightarrow> number_sign \<Rightarrow> 'g value_result" where
  "checked_spec f l r ns =
     (case joint_kind l r of
        None \<Rightarrow> Err (Execution (mismatch2 ''checked arithmetic operands (Int32, Int64, NativeInt)'' l r))
      | Some k \<Rightarrow>
          let n = f (int_of_value ns l) (int_of_value ns r) in
          if fits_kind ns k n then Ok (of_int_kind k n) else Err (ManagedException OverflowException))"

lemma sint_scast_i32 [simp]: "sint (scast (a :: i32) :: i64) = sint a"
  by (rule sint_up_scast) (simp add: is_up)

declare uint_ucast_u32 [simp]

lemmas kind_defs = joint_kind_def checked_spec_def fits_kind_def overflow_err_def
  try_signed_def try_unsigned_def Let_def

lemma checked_arithmetic_op_spec:
  "checked_arithmetic_op (\<lambda>a b. try_signed (f (sint a) (sint b))) (\<lambda>a b. try_unsigned (f (uint a) (uint b)))
     (\<lambda>a b. try_signed (f (sint a) (sint b))) (\<lambda>a b. try_unsigned (f (uint a) (uint b))) l r ns =
   checked_spec f l r ns"
  by (cases l; cases r; cases ns; simp add: checked_arithmetic_op_def kind_defs)

text \<open>
  C7: The checked operations \<open>checked_add\<close>, \<open>checked_sub\<close> and \<open>checked_mul\<close> are exact: on operands of
  compatible integer kinds they compute the unbounded integer result of the operands read with the
  instruction's signedness, return it at the joint kind when that kind can hold it, and raise
  \<open>OverflowException\<close> otherwise; every other pair of operands is a type mismatch.
\<close>
theorem checked_arithmetic_exact:
  "checked_add l r ns = checked_spec (+) l r ns \<and>
   checked_sub l r ns = checked_spec (-) l r ns \<and>
   checked_mul l r ns = checked_spec (*) l r ns"
  by (simp add: checked_add_def checked_sub_def checked_mul_def checked_arithmetic_op_spec)

text \<open>The non-checking operators also combine \<open>Int64\<close> with \<open>NativeInt\<close>.\<close>

fun wrap_kind :: "int_kind \<Rightarrow> int_kind \<Rightarrow> int_kind option" where
  "wrap_kind KInt64 KNativeInt = Some KInt64"
| "wrap_kind KNativeInt KInt64 = Some KInt64"
| "wrap_kind a b = join_kind a b"

definition wrapping_kind :: "'g stack_value \<Rightarrow> 'g stack_value \<Rightarrow> int_kind option" where
  "wrapping_kind l r =
     (case (int_kind_of l, int_kind_of r) of (Some a, Some b) \<Rightarrow> wrap_kind a b | _ \<Rightarrow> None)"

text \<open>
  \<open>add\<close>, \<open>sub\<close> and \<open>mul\<close> on integer operands never fail and never panic: the result has the joint
  kind of the operands and is the unbounded result of the signed operands modulo the width, and the
  bitwise operators act on the operands sign-extended to that kind.
\<close>
theorem wrapping_arithmetic_exact:
  fixes l r :: "'g stack_value"
  assumes "wrapping_kind l r = Some k"
  defines "a \<equiv> int_of_value Signed l" and "b \<equiv> int_of_value Signed r"
  shows "stack_add l r = Ok (of_int_kind k (a + b)) \<and>
         stack_sub env l r = Ok (of_int_kind k (a - b)) \<and>
         stack_mul l r = Ok (of_int_kind k (a * b)) \<and>
         stack_and l r = Ok (of_int_kind k (a AND b)) \<and>
         stack_or l r = Ok (of_int_kind k (a OR b)) \<and>
         stack_xor l r = Ok (of_int_kind k (a XOR b))"
  using assms(1) unfolding a_def b_def
  by (cases l; cases r)
     (auto simp: wrapping_kind_def stack_add_def stack_sub_def stack_mul_def stack_and_def stack_or_def
        stack_xor_def wrapping_arithmetic_op_def bitwise_op_def of_int_and_eq of_int_or_eq
        of_int_xor_eq simp flip: wi_hom_add wi_hom_sub wi_hom_mult)

theorem wrapping_arithmetic_exact_witness:
  "stack_add (Int32 (- 5)) (NativeInt 3) = Ok (NativeInt (- 2) :: unit stack_value) \<and>
   stack_sub sample_ptr_env (Int32 (- 5)) (NativeInt 3) = Ok (NativeInt (- 8) :: unit stack_value)"
  using wrapping_arithmetic_exact [of "Int32 (- 5)" "NativeInt 3 :: unit stack_value" KNativeInt sample_ptr_env]
  by (simp add: wrapping_kind_def)

text \<open>Division as the CLI reads it: truncated towards zero, on the operands of the joint kind.\<close>

definition div_spec ::
    "(int \<Rightarrow> int \<Rightarrow> int) \<Rightarrow> int_kind \<Rightarrow> 'g stack_value \<Rightarrow> 'g stack_value \<Rightarrow> number_sign \<Rightarrow> 'g value_result" where
  "div_spec f k l r ns =
     (let a = int_of_value ns l; b = int_of_value ns r in
      if b = 0 then Err (ManagedException DivideByZeroException)
      else if fits_kind ns k (a sdiv b) then Ok (of_int_kind k (f a b)) else Panic)"

lemma sdiv_nonneg: "0 \<le> (a :: int) \<Longrightarrow> 0 \<le> b \<Longrightarrow> a sdiv b = a div b"
  by (simp add: signed_divide_int_def sgn_if)

lemma smod_nonneg: "0 \<le> (a :: int) \<Longrightarrow> 0 \<le> b \<Longrightarrow> a smod b = a mod b"
  by (cases "a = 0") (auto simp: signed_modulo_int_def)

lemma fits_unsigned_div: "fits_unsigned w a \<Longrightarrow> 0 \<le> b \<Longrightarrow> fits_unsigned w (a div b)"
  using zdiv_mono2 [of a 1 b]
  by (cases "b = 0") (auto simp: fits_unsigned_def pos_imp_zdiv_nonneg_iff intro: le_less_trans)

lemma word_div_of_int: "of_int (uint a div uint b) = (a div b :: 'a::len word)"
  by (simp add: word_div_def)

lemma word_mod_of_int: "of_int (uint a mod uint b) = (a mod b :: 'a::len word)"
  by (simp add: word_mod_def)

lemma scast_i32_eq_0 [simp]: "(scast (a :: i32) :: i64) = 0 \<longleftrightarrow> a = 0"
  by (metis signed_eq_0_iff sint_scast_i32)

lemma ucast_u32_eq_0 [simp]: "(ucast (a :: u32) :: u64) = 0 \<longleftrightarrow> a = 0"
  by (metis uint_0_iff uint_ucast_u32)

lemma fits_unsigned_words [simp]:
  "fits_unsigned 32 (uint (a :: u32))" "fits_unsigned 64 (uint (b :: u64))" "fits_unsigned 64 (uint a)"
  using fits_unsigned_uint [of a] fits_unsigned_uint [of b] by (auto simp: fits_unsigned_def)

lemma word_div_mixed:
  "word_of_int (uint a div uint (b :: u32)) = (a :: u64) div ucast b"
  "word_of_int (uint b div uint a) = ucast b div a"
  "word_of_int (uint a mod uint b) = a mod ucast b"
  "word_of_int (uint b mod uint a) = ucast b mod a"
  using word_div_of_int [of a "ucast b"] word_div_of_int [of "ucast b" a]
    word_mod_of_int [of a "ucast b"] word_mod_of_int [of "ucast b" a] by simp_all

lemmas div_simps = sdiv_panic_def udiv_panic_def smod_panic_def umod_panic_def sdiv_nonneg smod_nonneg
  word_div_of_int word_mod_of_int word_div_mixed fits_unsigned_div
  signed_eq_0_iff unsigned_eq_0_iff

text \<open>
  C26: \<open>div\<close> and \<open>rem\<close> on integer operands are truncated division on the joint kind: a zero divisor raises
  \<open>DivideByZeroException\<close>, a quotient the joint kind can hold is returned with its remainder, and the
  only other outcome is a panic, exactly when the signed quotient leaves the range of the kind.
\<close>
theorem div_rem_exact:
  assumes "joint_kind l r = Some k"
  shows "stack_div l r ns = div_spec (\<lambda>a b. a sdiv b) k l r ns \<and>
         stack_rem l r ns = div_spec (\<lambda>a b. a smod b) k l r ns"
  using assms
  by (cases l; cases r; cases ns)
     (auto simp: joint_kind_def stack_div_def stack_rem_def arithmetic_op_def div_spec_def fits_kind_def
        Let_def div_simps)

theorem div_rem_exact_witness:
  "stack_div (Int32 (- 7)) (Int32 2) Signed = Ok (Int32 (- 3) :: unit stack_value) \<and>
   stack_rem (Int32 (- 7)) (Int32 2) Signed = Ok (Int32 (- 1) :: unit stack_value)"
  using div_rem_exact [of "Int32 (- 7)" "Int32 2 :: unit stack_value" KInt32 Signed]
  by (simp add: joint_kind_def div_spec_def fits_kind_def fits_signed_def signed_divide_int_def
       signed_modulo_int_def)

lemma neg_panic_Panic: "neg_panic (a :: 'a::len word) = Panic \<longleftrightarrow> sint a = - (2 ^ (LENGTH('a) - 1))"
  using sint_ge [of a] sint_lt [of a] by (auto simp: neg_panic_def fits_signed_def)

text \<open>
  C30: Three integer operators abort the machine where the CLI defines a result or an exception: the most
  negative value divided by minus one, its negation, and a shift by the operand's width or more; the
  panics of negation and of the shifts are exactly these, at every integer kind.
\<close>
theorem operator_panics:
  "(stack_neg v = Panic \<longleftrightarrow>
      (\<exists>k. int_kind_of v = Some k \<and> int_of_value Signed v = - (2 ^ (kind_width k - 1)))) \<and>
   (stack_shl v (Int32 n) = Panic \<longleftrightarrow> (\<exists>k. int_kind_of v = Some k \<and> kind_width k \<le> unat n)) \<and>
   (stack_shr v (Int32 n) ns = Panic \<longleftrightarrow> (\<exists>k. int_kind_of v = Some k \<and> kind_width k \<le> unat n)) \<and>
   stack_div (Int32 (- (2 ^ 31))) (Int32 (- 1)) Signed = (Panic :: 'g value_result)"
proof (intro conjI)
  show "stack_neg v = Panic \<longleftrightarrow>
      (\<exists>k. int_kind_of v = Some k \<and> int_of_value Signed v = - (2 ^ (kind_width k - 1)))"
    by (cases v) (auto simp: neg_panic_Panic outcome_simps)
  show "stack_shl v (Int32 n) = Panic \<longleftrightarrow> (\<exists>k. int_kind_of v = Some k \<and> kind_width k \<le> unat n)"
    by (cases v) (auto simp: stack_shl_def shl_panic_def)
  show "stack_shr v (Int32 n) ns = Panic \<longleftrightarrow> (\<exists>k. int_kind_of v = Some k \<and> kind_width k \<le> unat n)"
    by (cases v; cases ns) (auto simp: stack_shr_def sshr_panic_def ushr_panic_def)
  show "stack_div (Int32 (- (2 ^ 31))) (Int32 (- 1)) Signed = (Panic :: 'g value_result)"
    by (simp add: stack_div_def arithmetic_op_def sdiv_panic_def fits_signed_def signed_divide_int_def)
qed

section \<open>Comparison is an order on the comparable kinds\<close>

lemma object_ref_partial_cmp_flip:
  "object_ref_partial_cmp r l = map_option reverse_ordering (object_ref_partial_cmp l r)"
  by (auto simp: object_ref_partial_cmp_def cmp_simps split: option.splits)

lemma map_reverse_reverse [simp]:
  "map_option reverse_ordering (map_option reverse_ordering x) = x"
  by (cases x) auto

lemma address_cmp_flip: "address_cmp env r l = map_option reverse_ordering (address_cmp env l r)"
  unfolding address_cmp_def by (rule object_ref_partial_cmp_flip)

lemma signed_address_cmp_flip:
  "signed_address_cmp env r l = map_option reverse_ordering (signed_address_cmp env l r)"
  by (auto simp: signed_address_cmp_def cmp_simps split: option.splits)

lemma stack_partial_cmp_flip:
  "stack_partial_cmp env r l = map_option reverse_ordering (stack_partial_cmp env l r)"
  by (cases l; cases r)
     (auto simp: stack_partial_cmp_def cmp_simps intro: object_ref_partial_cmp_flip address_cmp_flip
        signed_address_cmp_flip f64_partial_cmp_flip)

definition comparable_kinds :: "'g stack_value \<Rightarrow> 'g stack_value \<Rightarrow> bool" where
  "comparable_kinds l r =
     (case (l, r) of
        (ManagedPtr _, ManagedPtr _) \<Rightarrow> False
      | (ValueType _, ValueType _) \<Rightarrow> False
      | _ \<Rightarrow> True)"

lemma object_ref_cmp_Equal: "object_ref_partial_cmp l r = Some Equal \<longleftrightarrow> l = r"
  by (auto simp: object_ref_partial_cmp_def cmp_simps split: option.splits)

lemma sint_eq_iff: "sint a = sint b \<longleftrightarrow> a = (b :: 'a::len word)"
  using signed_word_eqI by blast

lemma signed_address_cmp_Equal:
  "signed_address_cmp env l r = Some Equal \<longleftrightarrow> pointer_address env l = pointer_address env r"
  by (auto simp: signed_address_cmp_def cmp_simps sint_eq_iff split: option.splits)

lemma sint_eq_scast: "sint (a :: i32) = sint b \<longleftrightarrow> scast a = (b :: i64)"
  by (metis sint_eq_iff sint_scast_i32)

lemma sint_eq_scast': "sint (b :: i64) = sint (a :: i32) \<longleftrightarrow> b = scast a"
  by (metis sint_eq_scast)

text \<open>
  The three-way comparison behind \<open>cgt\<close>, \<open>clt\<close> and the branches is antisymmetric at both
  signednesses: swapping the operands reverses the outcome, and incomparable operands stay so. Under the
  signed reading it finds two values equal exactly when \<open>ceq\<close> does, for all kinds but two managed
  pointers and two value types.
\<close>
theorem compare_consistent:
  "stack_compare env r l ns = map_option reverse_ordering (stack_compare env l r ns) \<and>
   (comparable_kinds l r \<longrightarrow> (stack_eq env l r \<longleftrightarrow> stack_compare env l r Signed = Some Equal))"
proof
  show "stack_compare env r l ns = map_option reverse_ordering (stack_compare env l r ns)"
    by (cases l; cases r)
       (auto simp: stack_compare_def cmp_simps intro: address_cmp_flip stack_partial_cmp_flip)
  show "comparable_kinds l r \<longrightarrow> (stack_eq env l r \<longleftrightarrow> stack_compare env l r Signed = Some Equal)"
    using object_ref_cmp_Equal [of "pointer_address env l" "pointer_address env r"]
    by (cases l; cases r)
       (auto simp: comparable_kinds_def stack_eq_def stack_compare_def stack_partial_cmp_def f64_eq_def
          cmp_simps object_ref_cmp_Equal signed_address_cmp_Equal address_cmp_def sint_eq_iff
          sint_eq_scast sint_eq_scast')
qed

theorem compare_consistent_witness:
  "comparable_kinds (Int32 (- 1)) (NativeInt (- 1) :: unit stack_value) \<and>
   stack_eq sample_ptr_env (Int32 (- 1)) (NativeInt (- 1)) \<and>
   stack_compare sample_ptr_env (Int32 (- 1)) (NativeInt (- 1)) Signed = Some Equal"
  using compare_consistent [of sample_ptr_env "NativeInt (- 1)" "Int32 (- 1)" Signed]
  by (simp add: comparable_kinds_def stack_compare_def stack_partial_cmp_def)

end
