(* ===== verification/Cts_Cli.thy ===== *)
theory Cts_Cli
  imports Stack_Value
begin

unbundle bit_operations_syntax

text \<open>
  Conversion between storage types of the common type system and evaluation stack values
  (\<open>dotnet-value/src/cts_cli_conversion.rs\<close>, the value types of \<open>object/types.rs\<close> and the raw loads
  and stores of \<open>stack_value.rs\<close>). The base type that a type description's \<open>value__\<close> field has, which
  the metadata reader supplies, is the argument \<open>enum_of\<close>.
\<close>

section \<open>Storage types\<close>

datatype enum_base_type =
    BaseBoolean | BaseChar | BaseInt8 | BaseUInt8 | BaseInt16 | BaseUInt16 | BaseInt32 | BaseUInt32
  | BaseInt64 | BaseUInt64 | BaseIntPtr | BaseUIntPtr | BaseFloat32 | BaseFloat64 | BaseOther

datatype cts_scalar_kind =
    SBoolean | SChar | SInt8 | SUInt8 | SInt16 | SUInt16 | SInt32 | SUInt32 | SInt64 | SUInt64
  | SNativeInt | SNativeUInt

datatype load_type =
    LoadInt8 | LoadUInt8 | LoadInt16 | LoadUInt16 | LoadInt32 | LoadUInt32 | LoadInt64
  | LoadFloat32 | LoadFloat64 | LoadIntPtr | LoadObject

datatype store_type =
    StoreInt8 | StoreInt16 | StoreInt32 | StoreInt64 | StoreFloat32 | StoreFloat64 | StoreIntPtr
  | StoreObject

datatype 'g value_type =
    VBool bool
  | VChar u16
  | VInt8 i8
  | VUInt8 u8
  | VInt16 i16
  | VUInt16 u16
  | VInt32 i32
  | VUInt32 u32
  | VInt64 i64
  | VUInt64 u64
  | VNativeInt isize
  | VNativeUInt usize
  | VPointer "'g managed_ptr"
  | VFloat32 f32
  | VFloat64 f64
  | VStruct "'g vm_object"

datatype 'g cts_value = CtsValue "'g value_type" | CtsRef object_ref

fun from_enum_underlying :: "enum_base_type \<Rightarrow> cts_scalar_kind option" where
  "from_enum_underlying BaseBoolean = Some SBoolean"
| "from_enum_underlying BaseChar = Some SChar"
| "from_enum_underlying BaseInt8 = Some SInt8"
| "from_enum_underlying BaseUInt8 = Some SUInt8"
| "from_enum_underlying BaseInt16 = Some SInt16"
| "from_enum_underlying BaseUInt16 = Some SUInt16"
| "from_enum_underlying BaseInt32 = Some SInt32"
| "from_enum_underlying BaseUInt32 = Some SUInt32"
| "from_enum_underlying BaseInt64 = Some SInt64"
| "from_enum_underlying BaseUInt64 = Some SUInt64"
| "from_enum_underlying BaseIntPtr = Some SNativeInt"
| "from_enum_underlying BaseUIntPtr = Some SNativeUInt"
| "from_enum_underlying _ = None"

fun from_load_type :: "load_type \<Rightarrow> cts_scalar_kind option" where
  "from_load_type LoadInt8 = Some SInt8"
| "from_load_type LoadUInt8 = Some SUInt8"
| "from_load_type LoadInt16 = Some SInt16"
| "from_load_type LoadUInt16 = Some SUInt16"
| "from_load_type LoadInt32 = Some SInt32"
| "from_load_type LoadUInt32 = Some SUInt32"
| "from_load_type LoadInt64 = Some SInt64"
| "from_load_type LoadIntPtr = Some SNativeInt"
| "from_load_type _ = None"

fun storage_size :: "cts_scalar_kind \<Rightarrow> nat" where
  "storage_size SBoolean = 1"
| "storage_size SInt8 = 1"
| "storage_size SUInt8 = 1"
| "storage_size SChar = 2"
| "storage_size SInt16 = 2"
| "storage_size SUInt16 = 2"
| "storage_size SInt32 = 4"
| "storage_size SUInt32 = 4"
| "storage_size SInt64 = 8"
| "storage_size SUInt64 = 8"
| "storage_size SNativeInt = 8"
| "storage_size SNativeUInt = 8"

section \<open>Widening\<close>

fun widen_raw :: "cts_scalar_kind \<Rightarrow> u64 \<Rightarrow> 'g stack_value" where
  "widen_raw SBoolean raw = Int32 (ucast (ucast raw :: u8))"
| "widen_raw SUInt8 raw = Int32 (ucast (ucast raw :: u8))"
| "widen_raw SInt8 raw = Int32 (scast (ucast raw :: i8))"
| "widen_raw SChar raw = Int32 (ucast (ucast raw :: u16))"
| "widen_raw SUInt16 raw = Int32 (ucast (ucast raw :: u16))"
| "widen_raw SInt16 raw = Int32 (scast (ucast raw :: i16))"
| "widen_raw SInt32 raw = Int32 (ucast raw)"
| "widen_raw SUInt32 raw = Int32 (ucast raw)"
| "widen_raw SInt64 raw = Int64 raw"
| "widen_raw SUInt64 raw = Int64 raw"
| "widen_raw SNativeInt raw = NativeInt raw"
| "widen_raw SNativeUInt raw = NativeInt raw"

fun widen_value_type :: "'g value_type \<Rightarrow> 'g stack_value" where
  "widen_value_type (VBool v) = widen_raw SBoolean (if v then 1 else 0)"
| "widen_value_type (VChar v) = widen_raw SChar (ucast v)"
| "widen_value_type (VInt8 v) = widen_raw SInt8 (ucast v)"
| "widen_value_type (VUInt8 v) = widen_raw SUInt8 (ucast v)"
| "widen_value_type (VInt16 v) = widen_raw SInt16 (ucast v)"
| "widen_value_type (VUInt16 v) = widen_raw SUInt16 (ucast v)"
| "widen_value_type (VInt32 v) = widen_raw SInt32 (ucast v)"
| "widen_value_type (VUInt32 v) = widen_raw SUInt32 (ucast v)"
| "widen_value_type (VInt64 v) = widen_raw SInt64 v"
| "widen_value_type (VUInt64 v) = widen_raw SUInt64 v"
| "widen_value_type (VNativeInt v) = widen_raw SNativeInt v"
| "widen_value_type (VNativeUInt v) = widen_raw SNativeUInt v"
| "widen_value_type (VPointer p) = ManagedPtr p"
| "widen_value_type (VFloat32 f) = NativeFloat (f64_of_f32 f)"
| "widen_value_type (VFloat64 f) = NativeFloat f"
| "widen_value_type (VStruct obj) = ValueType obj"

fun widen :: "'g cts_value \<Rightarrow> 'g stack_value" where
  "widen (CtsValue v) = widen_value_type v"
| "widen (CtsRef r) = ObjectRef r"

definition read_le_u64_prefix :: "u8 list \<Rightarrow> nat \<Rightarrow> ('e, u64) outcome" where
  "read_le_u64_prefix data width =
     (if width \<le> length data \<and> width \<le> 8 then Ok (from_le_bytes (take width data @ replicate (8 - width) 0))
      else Panic)"

definition widen_enum_underlying_bytes :: "enum_base_type \<Rightarrow> u8 list \<Rightarrow> ('e, 'g stack_value option) outcome" where
  "widen_enum_underlying_bytes base data =
     (case from_enum_underlying base of
        None \<Rightarrow> Ok None
      | Some k \<Rightarrow> map_outcome (\<lambda>raw. Some (widen_raw k raw)) (read_le_u64_prefix data (storage_size k)))"

text \<open>The base type of the \<open>value__\<close> field, where the described type is an enum over a base type.\<close>

type_synonym enum_reader = "type_description \<Rightarrow> enum_base_type option"

definition enum_value_type_to_underlying ::
    "enum_reader \<Rightarrow> 'g vm_object \<Rightarrow> ('e, 'g stack_value option) outcome" where
  "enum_value_type_to_underlying enum_of obj =
     (case enum_of (description obj) of
        None \<Rightarrow> Ok None
      | Some base \<Rightarrow> widen_enum_underlying_bytes base (storage_data obj))"

definition coerce_enum_to_underlying :: "enum_reader \<Rightarrow> 'g stack_value \<Rightarrow> ('e, 'g stack_value) outcome" where
  "coerce_enum_to_underlying enum_of v =
     (case v of
        ValueType obj \<Rightarrow>
          map_outcome (\<lambda>c. case c of Some u \<Rightarrow> u | None \<Rightarrow> v) (enum_value_type_to_underlying enum_of obj)
      | _ \<Rightarrow> Ok v)"

section \<open>Narrowing\<close>

definition managed_ptr_address :: "'g ptr_env \<Rightarrow> 'g managed_ptr \<Rightarrow> (type_resolution_error, usize) outcome" where
  "managed_ptr_address env p =
     and_then (map_err (\<lambda>_. InvalidLayout) (try_observe_address env p)) (\<lambda>observed.
       case mp_origin p of
         Heap _ \<Rightarrow> Ok (case observed of Some a \<Rightarrow> a | None \<Rightarrow> 0)
       | CrossArenaObjectRef _ \<Rightarrow> Ok (case observed of Some a \<Rightarrow> a | None \<Rightarrow> 0)
       | FrameHome _ \<Rightarrow> Ok (case observed of Some a \<Rightarrow> a | None \<Rightarrow> 0)
       | _ \<Rightarrow> (case mp_value p of Some a \<Rightarrow> Ok a | None \<Rightarrow> Panic))"

text \<open>\<open>convert_num\<close> at a target type, given as its \<open>try_from\<close> on the exact value.\<close>

definition convert_num ::
    "(int \<Rightarrow> 'a option) \<Rightarrow> 'g ptr_env \<Rightarrow> enum_reader \<Rightarrow> 'g stack_value \<Rightarrow> (type_resolution_error, 'a) outcome" where
  "convert_num try_from env enum_of data =
     and_then (coerce_enum_to_underlying enum_of data) (\<lambda>v.
       case v of
         Int32 i \<Rightarrow> ok_or InvalidLayout (try_from (sint i))
       | NativeInt i \<Rightarrow> ok_or InvalidLayout (try_from (sint i))
       | UnmanagedPtr p \<Rightarrow> ok_or InvalidLayout (try_from (uint p))
       | ManagedPtr p \<Rightarrow> and_then (managed_ptr_address env p) (\<lambda>a. ok_or InvalidLayout (try_from (uint a)))
       | _ \<Rightarrow> Err InvalidLayout)"

definition convert_u32 ::
    "'g ptr_env \<Rightarrow> enum_reader \<Rightarrow> 'g stack_value \<Rightarrow> (type_resolution_error, u32) outcome" where
  "convert_u32 env enum_of data =
     and_then (coerce_enum_to_underlying enum_of data) (\<lambda>v.
       case v of
         Int32 i \<Rightarrow> Ok i
       | NativeInt i \<Rightarrow> Ok (ucast i)
       | UnmanagedPtr p \<Rightarrow> Ok (ucast p)
       | ManagedPtr p \<Rightarrow> map_outcome ucast (managed_ptr_address env p)
       | _ \<Rightarrow> Err InvalidLayout)"

definition convert_i64 ::
    "(int \<Rightarrow> 'a option) \<Rightarrow> enum_reader \<Rightarrow> 'g stack_value \<Rightarrow> (type_resolution_error, 'a) outcome" where
  "convert_i64 try_from enum_of data =
     and_then (coerce_enum_to_underlying enum_of data) (\<lambda>v.
       case v of Int64 i \<Rightarrow> ok_or InvalidLayout (try_from (sint i)) | _ \<Rightarrow> Err InvalidLayout)"

definition reinterpret_i64_as_u64 ::
    "enum_reader \<Rightarrow> 'g stack_value \<Rightarrow> (type_resolution_error, u64) outcome" where
  "reinterpret_i64_as_u64 enum_of data =
     and_then (coerce_enum_to_underlying enum_of data) (\<lambda>v.
       case v of Int64 i \<Rightarrow> Ok i | _ \<Rightarrow> Err InvalidLayout)"

fun narrow_scalar_value ::
    "'g ptr_env \<Rightarrow> enum_reader \<Rightarrow> 'g stack_value \<Rightarrow> cts_scalar_kind \<Rightarrow>
     (type_resolution_error, 'g value_type) outcome" where
  "narrow_scalar_value env en v SBoolean =
     map_outcome (\<lambda>b :: u8. VBool (b \<noteq> 0)) (convert_num try_unsigned env en v)"
| "narrow_scalar_value env en v SChar = map_outcome VChar (convert_num try_unsigned env en v)"
| "narrow_scalar_value env en v SInt8 = map_outcome VInt8 (convert_num try_signed env en v)"
| "narrow_scalar_value env en v SUInt8 = map_outcome VUInt8 (convert_num try_unsigned env en v)"
| "narrow_scalar_value env en v SInt16 = map_outcome VInt16 (convert_num try_signed env en v)"
| "narrow_scalar_value env en v SUInt16 = map_outcome VUInt16 (convert_num try_unsigned env en v)"
| "narrow_scalar_value env en v SInt32 = map_outcome VInt32 (convert_num try_signed env en v)"
| "narrow_scalar_value env en v SUInt32 = map_outcome VUInt32 (convert_u32 env en v)"
| "narrow_scalar_value env en v SInt64 = map_outcome VInt64 (convert_i64 try_signed en v)"
| "narrow_scalar_value env en v SUInt64 = map_outcome VUInt64 (reinterpret_i64_as_u64 en v)"
| "narrow_scalar_value env en v SNativeInt = map_outcome VNativeInt (convert_num try_signed env en v)"
| "narrow_scalar_value env en v SNativeUInt =
     map_outcome VNativeUInt (convert_num try_unsigned env en v)"

definition narrow_float32 :: "'g stack_value \<Rightarrow> (type_resolution_error, 'g value_type) outcome" where
  "narrow_float32 v =
     (case v of NativeFloat f \<Rightarrow> Ok (VFloat32 (f32_of_f64 f)) | _ \<Rightarrow> Err InvalidLayout)"

definition narrow_float64 :: "'g stack_value \<Rightarrow> (type_resolution_error, 'g value_type) outcome" where
  "narrow_float64 v = (case v of NativeFloat f \<Rightarrow> Ok (VFloat64 f) | _ \<Rightarrow> Err InvalidLayout)"

section \<open>Byte storage\<close>

text \<open>Fixed-width reads require exactly the width; one-byte kinds read the first byte.\<close>

definition exact_word :: "('a::len word \<Rightarrow> 'v) \<Rightarrow> u8 list \<Rightarrow> ('e, 'v) outcome" where
  "exact_word mk data =
     (if length data = LENGTH('a) div 8 then Ok (mk (from_le_bytes data)) else Panic)"

definition first_byte :: "(u8 \<Rightarrow> 'v) \<Rightarrow> u8 list \<Rightarrow> ('e, 'v) outcome" where
  "first_byte mk data = (case data of [] \<Rightarrow> Panic | b # _ \<Rightarrow> Ok (mk b))"

fun read_storage_value :: "cts_scalar_kind \<Rightarrow> u8 list \<Rightarrow> ('e, 'g value_type) outcome" where
  "read_storage_value SBoolean data = first_byte (\<lambda>b. VBool (b \<noteq> 0)) data"
| "read_storage_value SChar data = exact_word VChar data"
| "read_storage_value SInt8 data = first_byte VInt8 data"
| "read_storage_value SUInt8 data = first_byte VUInt8 data"
| "read_storage_value SInt16 data = exact_word VInt16 data"
| "read_storage_value SUInt16 data = exact_word VUInt16 data"
| "read_storage_value SInt32 data = exact_word VInt32 data"
| "read_storage_value SUInt32 data = exact_word VUInt32 data"
| "read_storage_value SInt64 data = exact_word VInt64 data"
| "read_storage_value SUInt64 data = exact_word VUInt64 data"
| "read_storage_value SNativeInt data = exact_word VNativeInt data"
| "read_storage_value SNativeUInt data = exact_word VNativeUInt data"

definition copy_from_slice :: "u8 list \<Rightarrow> u8 list \<Rightarrow> ('e, u8 list) outcome" where
  "copy_from_slice dest src = (if length dest = length src then Ok src else Panic)"

fun scalar_bytes :: "'g value_type \<Rightarrow> u8 list" where
  "scalar_bytes (VBool b) = [if b then 1 else 0]"
| "scalar_bytes (VChar c) = le_bytes c"
| "scalar_bytes (VInt8 i) = le_bytes i"
| "scalar_bytes (VUInt8 i) = le_bytes i"
| "scalar_bytes (VInt16 i) = le_bytes i"
| "scalar_bytes (VUInt16 i) = le_bytes i"
| "scalar_bytes (VInt32 i) = le_bytes i"
| "scalar_bytes (VUInt32 i) = le_bytes i"
| "scalar_bytes (VInt64 i) = le_bytes i"
| "scalar_bytes (VUInt64 i) = le_bytes i"
| "scalar_bytes (VNativeInt i) = le_bytes i"
| "scalar_bytes (VNativeUInt i) = le_bytes i"
| "scalar_bytes (VFloat32 f) = le_bytes (f32_bits f)"
| "scalar_bytes (VFloat64 f) = le_bytes (f64_bits f)"
| "scalar_bytes (VStruct obj) = storage_data obj"
| "scalar_bytes (VPointer _) = []"

definition cts_write ::
    "arena_env \<Rightarrow> 'g cts_value \<Rightarrow> 'g static_registry \<Rightarrow> u8 list \<Rightarrow>
     (object_codec_error, u8 list \<times> 'g static_registry) outcome" where
  "cts_write arenas v reg dest =
     (case v of
        CtsValue (VPointer p) \<Rightarrow> managed_ptr_write p reg dest
      | CtsValue w \<Rightarrow> map_outcome (\<lambda>d. (d, reg)) (copy_from_slice dest (scalar_bytes w))
      | CtsRef r \<Rightarrow> map_outcome (\<lambda>d. (d, reg)) (object_ref_write arenas r dest))"

section \<open>Raw loads and stores\<close>

text \<open>Memory is a map from addresses to bytes; an access of a width covers that many addresses.\<close>

type_synonym memory = "usize \<Rightarrow> u8"

definition mem_load :: "memory \<Rightarrow> usize \<Rightarrow> nat \<Rightarrow> u8 list" where
  "mem_load m p n = map (\<lambda>i. m (p + of_nat i)) [0..<n]"

definition mem_store :: "memory \<Rightarrow> usize \<Rightarrow> u8 list \<Rightarrow> memory" where
  "mem_store m p bs = (\<lambda>a. if unat (a - p) < length bs then bs ! unat (a - p) else m a)"

definition load_atomic_sized :: "memory \<Rightarrow> usize \<Rightarrow> nat \<Rightarrow> ('e, u64) outcome" where
  "load_atomic_sized m p n =
     (if n \<in> {1, 2, 4, 8} then Ok (from_le_bytes (mem_load m p n)) else Panic)"

definition store_atomic_sized :: "memory \<Rightarrow> usize \<Rightarrow> nat \<Rightarrow> u64 \<Rightarrow> ('e, memory) outcome" where
  "store_atomic_sized m p n v =
     (if n \<in> {1, 2, 4, 8} then Ok (mem_store m p (take n (le_bytes v))) else Panic)"

definition widen_load_atomic_raw :: "load_type \<Rightarrow> u64 \<Rightarrow> ('e, 'g stack_value) outcome" where
  "widen_load_atomic_raw t raw =
     (case from_load_type t of
        Some k \<Rightarrow> Ok (widen_raw k raw)
      | None \<Rightarrow>
          (case t of
             LoadFloat32 \<Rightarrow> Ok (NativeFloat (f64_of_f32 (F32 (ucast raw))))
           | LoadFloat64 \<Rightarrow> Ok (NativeFloat (F64 raw))
           | _ \<Rightarrow> Panic))"

fun load_size :: "load_type \<Rightarrow> nat" where
  "load_size LoadInt8 = 1"
| "load_size LoadUInt8 = 1"
| "load_size LoadInt16 = 2"
| "load_size LoadUInt16 = 2"
| "load_size LoadInt32 = 4"
| "load_size LoadUInt32 = 4"
| "load_size LoadFloat32 = 4"
| "load_size LoadInt64 = 8"
| "load_size LoadFloat64 = 8"
| "load_size LoadIntPtr = 8"
| "load_size LoadObject = 8"

definition load_atomic :: "arena_env \<Rightarrow> memory \<Rightarrow> usize \<Rightarrow> load_type \<Rightarrow> ('e, 'g stack_value) outcome" where
  "load_atomic arenas m p t =
     (if t = LoadObject then
        map_outcome ObjectRef
          (or_panic (try_from_storage_ptr arenas (from_le_bytes (mem_load m p 8))))
      else and_then (load_atomic_sized m p (load_size t)) (widen_load_atomic_raw t))"

fun store_bits :: "'g stack_value \<Rightarrow> store_type \<Rightarrow> ('e, u64 \<times> nat) outcome" where
  "store_bits v StoreInt8 = map_outcome (\<lambda>i. (scast i, 1)) (or_panic (try_as_i32 v))"
| "store_bits v StoreInt16 = map_outcome (\<lambda>i. (scast i, 2)) (or_panic (try_as_i32 v))"
| "store_bits v StoreInt32 = map_outcome (\<lambda>i. (scast i, 4)) (or_panic (try_as_i32 v))"
| "store_bits v StoreInt64 = map_outcome (\<lambda>i. (i, 8)) (or_panic (try_as_i64 v))"
| "store_bits v StoreFloat32 =
     map_outcome (\<lambda>f. (ucast (f32_bits (f32_of_f64 f)), 4)) (or_panic (try_as_f64 v))"
| "store_bits v StoreFloat64 = map_outcome (\<lambda>f. (f64_bits f, 8)) (or_panic (try_as_f64 v))"
| "store_bits v StoreIntPtr = map_outcome (\<lambda>i. (i, 8)) (or_panic (try_as_isize v))"
| "store_bits v StoreObject = Panic"

definition store_atomic ::
    "arena_env \<Rightarrow> 'g stack_value \<Rightarrow> memory \<Rightarrow> usize \<Rightarrow> store_type \<Rightarrow> ('e, memory) outcome" where
  "store_atomic arenas v m p t =
     (if t = StoreObject then
        and_then (or_panic (try_as_object_ref v)) (\<lambda>r.
          map_outcome (\<lambda>a. mem_store m p (le_bytes a)) (or_panic (try_to_storage_ptr arenas r)))
      else and_then (store_bits v t) (\<lambda>(bits, n). store_atomic_sized m p n bits))"

section \<open>Round trips\<close>

fun scalar_kind_of :: "'g value_type \<Rightarrow> cts_scalar_kind option" where
  "scalar_kind_of (VBool _) = Some SBoolean"
| "scalar_kind_of (VChar _) = Some SChar"
| "scalar_kind_of (VInt8 _) = Some SInt8"
| "scalar_kind_of (VUInt8 _) = Some SUInt8"
| "scalar_kind_of (VInt16 _) = Some SInt16"
| "scalar_kind_of (VUInt16 _) = Some SUInt16"
| "scalar_kind_of (VInt32 _) = Some SInt32"
| "scalar_kind_of (VUInt32 _) = Some SUInt32"
| "scalar_kind_of (VInt64 _) = Some SInt64"
| "scalar_kind_of (VUInt64 _) = Some SUInt64"
| "scalar_kind_of (VNativeInt _) = Some SNativeInt"
| "scalar_kind_of (VNativeUInt _) = Some SNativeUInt"
| "scalar_kind_of _ = None"

lemma ucast_narrow [simp]:
  "ucast (ucast (a :: u8) :: u64) = a" "ucast (ucast (b :: u16) :: u64) = b"
  "ucast (ucast (c :: u32) :: u64) = c"
  by (rule bit_word_eqI; simp add: bit_simps)+

lemma sint_ucast_less:
  "LENGTH('a) < LENGTH('b) \<Longrightarrow> sint (ucast (a :: 'a::len word) :: 'b::len word) = uint a"
proof -
  assume len: "LENGTH('a) < LENGTH('b)"
  have "(2 :: int) ^ LENGTH('a) \<le> 2 ^ (LENGTH('b) - 1)" using len by (intro power_increasing) auto
  then have "uint a < 2 ^ (LENGTH('b) - 1)" using uint_lt2p [of a] by linarith
  moreover have "- (2 ^ (LENGTH('b) - 1)) \<le> uint a"
    using order_trans [of "- (2 ^ (LENGTH('b) - 1))" 0 "uint a"] by simp
  ultimately have "fits_signed LENGTH('b) (uint a)" by (simp add: fits_signed_def)
  from sint_word_of_int_fits [OF this] show ?thesis by simp
qed

lemma sint_ucast_widen [simp]:
  "sint (ucast (a :: u8) :: i32) = uint a" "sint (ucast (b :: u16) :: i32) = uint b"
  by (simp_all add: sint_ucast_less)

lemma sint_scast_widen [simp]:
  "sint (scast (a :: i8) :: i32) = sint a" "sint (scast (b :: i16) :: i32) = sint b"
  by (rule sint_up_scast; simp add: is_up)+

lemma try_signed_sint [simp]: "try_signed (sint a) = Some (a :: 'a::len word)"
  by (simp add: try_signed_def)

lemma try_unsigned_uint [simp]: "try_unsigned (uint a) = Some (a :: 'a::len word)"
  by (simp add: try_unsigned_def)

lemma try_unsigned_sint:
  "try_unsigned (sint a) = Some (a :: 'a::len word) \<longleftrightarrow> 0 \<le> sint a"
proof -
  have "(2 :: int) ^ (LENGTH('a) - 1) \<le> 2 ^ LENGTH('a)" by (intro power_increasing) auto
  then have "sint a < 2 ^ LENGTH('a)" using sint_lt [of a] by linarith
  then show ?thesis by (simp add: try_unsigned_def fits_unsigned_def)
qed

lemma le_bytes_u8: "le_bytes (a :: u8) = [a]"
  by (simp add: le_bytes_def)

lemma read_storage_scalar_bytes:
  "scalar_kind_of v = Some k \<Longrightarrow> read_storage_value k (scalar_bytes v) = Ok v \<and>
     length (scalar_bytes v) = storage_size k"
  by (cases v) (auto simp: first_byte_def exact_word_def le_bytes_u8 codec16.decode_encode
    codec32.decode_encode codec64.decode_encode)

lemma coerce_widened [simp]:
  "scalar_kind_of v = Some k \<Longrightarrow> coerce_enum_to_underlying en (widen_value_type v) = Ok (widen_value_type v)"
  by (cases v) (auto simp: coerce_enum_to_underlying_def)

lemma uint_1_u8 [simp]: "try_unsigned 1 = Some (1 :: u8)" "try_unsigned 0 = Some (0 :: u8)"
  by (simp_all add: try_unsigned_def fits_unsigned_def)

lemma narrow_widened:
  assumes "scalar_kind_of v = Some k"
  shows "narrow_scalar_value env en (widen_value_type v) k = Ok v \<longleftrightarrow>
    (case v of VNativeUInt u \<Rightarrow> 0 \<le> sint u | _ \<Rightarrow> True)"
  using coerce_widened [OF assms, of en] assms
  by (cases v) (auto simp: convert_num_def convert_u32_def convert_i64_def reinterpret_i64_as_u64_def
     outcome_simps try_unsigned_sint)

text \<open>
  C29: The scalar storage types round-trip. A scalar written to a slot of its size is read back from the
  bytes unchanged; and widening it to the evaluation stack and narrowing it to its own type gives it
  back, with one exception: a native unsigned integer whose top bit is set, which the narrowing rejects.
\<close>
theorem scalar_roundtrip:
  assumes "scalar_kind_of v = Some k" and "length dest = storage_size k"
  shows "(\<exists>bytes. cts_write arenas (CtsValue v) reg dest = Ok (bytes, reg) \<and>
            read_storage_value k bytes = (Ok v :: (unit, _) outcome)) \<and>
         (narrow_scalar_value env en (widen_value_type v) k = Ok v \<longleftrightarrow>
            (case v of VNativeUInt u \<Rightarrow> 0 \<le> sint u | _ \<Rightarrow> True))"
proof -
  have "cts_write arenas (CtsValue v) reg dest = Ok (scalar_bytes v, reg)"
    using read_storage_scalar_bytes [OF assms(1)] assms
    by (cases v) (simp_all add: cts_write_def copy_from_slice_def)
  then show ?thesis
    using read_storage_scalar_bytes [OF assms(1)] narrow_widened [OF assms(1)] by blast
qed

theorem scalar_roundtrip_witness:
  "narrow_scalar_value sample_ptr_env (\<lambda>_. None) (widen_value_type (VInt8 (- 3))) SInt8 = Ok (VInt8 (- 3)) \<and>
   narrow_scalar_value sample_ptr_env (\<lambda>_. None) (widen_value_type (VNativeUInt (push_bit 63 1))) SNativeUInt
     \<noteq> Ok (VNativeUInt (push_bit 63 1))"
  using scalar_roundtrip [of "VInt8 (- 3) :: unit value_type" SInt8 "[0]" sample_arenas static_registry_new sample_ptr_env "\<lambda>_. None"]
    scalar_roundtrip [of "VNativeUInt (push_bit 63 1) :: unit value_type" SNativeUInt "replicate 8 0" sample_arenas
      static_registry_new sample_ptr_env "\<lambda>_. None"]
  by simp

section \<open>Loads after stores\<close>

fun load_of_store :: "store_type \<Rightarrow> load_type" where
  "load_of_store StoreInt8 = LoadInt8"
| "load_of_store StoreInt16 = LoadInt16"
| "load_of_store StoreInt32 = LoadInt32"
| "load_of_store StoreInt64 = LoadInt64"
| "load_of_store StoreFloat32 = LoadFloat32"
| "load_of_store StoreFloat64 = LoadFloat64"
| "load_of_store StoreIntPtr = LoadIntPtr"
| "load_of_store StoreObject = LoadObject"

text \<open>The stack value that a storage cell of a width holds after a store: the operand, truncated.\<close>

fun truncated :: "store_type \<Rightarrow> 'g stack_value \<Rightarrow> ('e, 'g stack_value) outcome" where
  "truncated StoreInt8 v = map_outcome (\<lambda>i. Int32 (scast (ucast i :: i8))) (or_panic (try_as_i32 v))"
| "truncated StoreInt16 v = map_outcome (\<lambda>i. Int32 (scast (ucast i :: i16))) (or_panic (try_as_i32 v))"
| "truncated StoreInt32 v = map_outcome Int32 (or_panic (try_as_i32 v))"
| "truncated StoreInt64 v = map_outcome Int64 (or_panic (try_as_i64 v))"
| "truncated StoreFloat32 v =
     map_outcome (\<lambda>f. NativeFloat (f64_of_f32 (f32_of_f64 f))) (or_panic (try_as_f64 v))"
| "truncated StoreFloat64 v = map_outcome NativeFloat (or_panic (try_as_f64 v))"
| "truncated StoreIntPtr v = map_outcome NativeInt (or_panic (try_as_isize v))"
| "truncated StoreObject v = map_outcome ObjectRef (or_panic (try_as_object_ref v))"

lemma mem_load_store:
  assumes "length bs \<le> 8"
  shows "mem_load (mem_store m p bs) p (length bs) = bs"
proof (rule nth_equalityI)
  fix i assume i: "i < length (mem_load (mem_store m p bs) p (length bs))"
  then have i': "i < length bs" by (simp add: mem_load_def)
  then have "i < 2 ^ LENGTH(64)" using assms by simp
  then have "unat (of_nat i :: usize) = i" by (simp add: unsigned_of_nat take_bit_nat_eq_self)
  with i' show "mem_load (mem_store m p bs) p (length bs) ! i = bs ! i"
    by (simp add: mem_load_def mem_store_def)
qed (simp add: mem_load_def)

lemma from_le_bytes_take: "from_le_bytes (take n (le_bytes w)) = take_bit (8 * n) (w :: u64)"
proof (rule bit_word_eqI)
  fix i assume i: "i < LENGTH(64)"
  have "bit (le_bytes w ! (i div 8)) (i mod 8) = bit w i" if "i div 8 < 8"
  proof -
    have "le_bytes w ! (i div 8) = ucast (drop_bit (8 * (i div 8)) w)"
      using that by (simp add: le_bytes_def)
    then have "bit (le_bytes w ! (i div 8)) (i mod 8) \<longleftrightarrow>
        i mod 8 < LENGTH(8) \<and> bit w (8 * (i div 8) + i mod 8)"
      by (simp only: bit_ucast_iff bit_drop_bit_eq o_def)
    then show ?thesis by simp
  qed
  with i show "bit (from_le_bytes (take n (le_bytes w)) :: u64) i = bit (take_bit (8 * n) w) i"
    by (auto simp: bit_from_le_bytes bit_simps nth_take)
qed

lemma store_load_sized:
  assumes "n \<in> {1, 2, 4, 8}"
  shows "load_atomic_sized (mem_store m p (take n (le_bytes w))) p n = Ok (take_bit (8 * n) w)"
proof -
  have "length (take n (le_bytes w)) = n" using assms by auto
  then show ?thesis
    using mem_load_store [of "take n (le_bytes w)" m p] assms from_le_bytes_take [of n w]
    by (auto simp: load_atomic_sized_def)
qed

lemma ucast_take_bit_64 [simp]:
  "(ucast (take_bit 8 (w :: u64)) :: 8 word) = ucast w" "(ucast (take_bit 16 w) :: 16 word) = ucast w"
  "(ucast (take_bit 32 w) :: 32 word) = ucast w" "take_bit 64 w = w"
  by (rule bit_word_eqI; simp add: bit_simps)+

lemma ucast_scast_64 [simp]:
  "(ucast (scast (i :: i32) :: u64) :: 8 word) = ucast i" "(ucast (scast i :: u64) :: 16 word) = ucast i"
  "(ucast (scast i :: u64) :: 32 word) = i"
  by (rule bit_word_eqI; auto simp: bit_simps)+

text \<open>
  C24: A raw store followed by the load of the matching type gives back the stored operand truncated to
  the width of the cell, floats rounded to the cell's precision and references unchanged, and the store
  leaves every byte outside the cell as it was.
\<close>
theorem store_load_roundtrip:
  assumes "store_atomic arenas v m p t = (Ok m' :: (unit, _) outcome)"
    and "\<And>r. v = ObjectRef r \<Longrightarrow> valid_ref r"
  shows "load_atomic arenas m' p (load_of_store t) = (truncated t v :: (unit, _) outcome) \<and>
         (\<forall>a. load_size (load_of_store t) \<le> unat (a - p) \<longrightarrow> m' a = m a)"
proof (cases "t = StoreObject")
  case True
  then obtain r a where v: "v = ObjectRef r" and a: "try_to_storage_ptr arenas r = Ok a"
    and m': "m' = mem_store m p (le_bytes a)"
    using assms(1) by (cases v) (auto simp: store_atomic_def or_panic_def outcome_simps split: outcome.splits)
  have "from_le_bytes (mem_load m' p 8) = a"
    using mem_load_store [of "le_bytes a" m p] m' by (simp add: codec64.decode_encode)
  moreover have "try_from_storage_ptr arenas a = Ok r"
    using storage_ptr_roundtrip assms(2) v a by blast
  ultimately show ?thesis using True v m'
    by (auto simp: load_atomic_def or_panic_def mem_store_def)
next
  case False
  then obtain bits n where b: "store_bits v t = (Ok (bits, n) :: (unit, _) outcome)" and n: "n \<in> {1, 2, 4, 8}"
    and m': "m' = mem_store m p (take n (le_bytes bits))"
    using assms(1) by (auto simp: store_atomic_def outcome_simps store_atomic_sized_def split: if_splits)
  have size: "n = load_size (load_of_store t)" using b False by (cases t) (auto simp: outcome_simps)
  have "load_atomic_sized m' p n = (Ok (take_bit (8 * n) bits) :: (unit, _) outcome)"
    unfolding m' by (rule store_load_sized [OF n])
  then have "load_atomic arenas m' p (load_of_store t) =
      (widen_load_atomic_raw (load_of_store t) (take_bit (8 * n) bits) :: (unit, _) outcome)"
    using False size by (cases t) (auto simp: load_atomic_def)
  also have "\<dots> = truncated t v"
    using b False by (cases t) (auto simp: outcome_simps widen_load_atomic_raw_def)
  finally show ?thesis using m' n size by (auto simp: mem_store_def)
qed

theorem store_load_roundtrip_witness:
  "\<exists>m'. store_atomic sample_arenas (Int32 0x1FF :: unit stack_value) (\<lambda>_. 0) 64 StoreInt8 = (Ok m' :: (unit, _) outcome) \<and>
     load_atomic sample_arenas m' 64 LoadInt8 = (Ok (Int32 (- 1) :: unit stack_value) :: (unit, _) outcome)"
proof -
  let ?m = "mem_store (\<lambda>_. 0) 64 (take 1 (le_bytes (scast (0x1FF :: i32) :: u64)))"
  have st: "store_atomic sample_arenas (Int32 0x1FF :: unit stack_value) (\<lambda>_. 0) 64 StoreInt8 = (Ok ?m :: (unit, _) outcome)"
    by (simp add: store_atomic_def or_panic_def store_atomic_sized_def)
  from store_load_roundtrip [OF st] st show ?thesis by (auto simp: or_panic_def)
qed

text \<open>
  Narrowing a null managed pointer to any integer type aborts the machine: the null managed pointer
  has an unmanaged origin and no cached address, and reading its address panics; only the
  64-bit targets, which take no pointer, report the mismatch as an error.
\<close>
theorem narrow_null_managed_ptr:
  "narrow_scalar_value env en (ManagedPtr managed_ptr_null) k =
     (if k \<in> {SInt64, SUInt64} then Err InvalidLayout else Panic)"
  by (cases k) (auto simp: convert_num_def convert_u32_def convert_i64_def reinterpret_i64_as_u64_def
    coerce_enum_to_underlying_def managed_ptr_address_def try_observe_address_def observe_address_def
    managed_ptr_null_def)

end
