(* ===== verification/Sync_Block.thy ===== *)
theory Sync_Block
  imports Object_Ref
begin

text \<open>
  Monitors (\<open>dotnet-vm/src/sync/threaded.rs\<close>): the reentrant lock behind \<open>System.Threading.Monitor\<close> and
  the table of sync blocks. A critical section of the block's mutex is one atomic step; the waits on the
  condition variable, which release the mutex, separate the steps. Clock readings, wake-up causes and
  the stop request of the collector are inputs of the steps.
\<close>

section \<open>One sync block\<close>

type_synonym arena_id = u64

record sync_block_state =
  owner_thread_id :: arena_id
  recursion_count :: nat

definition sync_block_new :: sync_block_state where
  "sync_block_new = \<lparr>owner_thread_id = arena_id_invalid, recursion_count = 0\<rparr>"

datatype lock_result = Success | Timeout | Yield

datatype enter_state = Acquired sync_block_state | Contended

definition mark_entered :: "sync_block_state \<Rightarrow> arena_id \<Rightarrow> sync_block_state" where
  "mark_entered st t = st\<lparr>owner_thread_id := t, recursion_count := 1\<rparr>"

definition lock_and_try_enter :: "sync_block_state \<Rightarrow> arena_id \<Rightarrow> ('e, enter_state) outcome" where
  "lock_and_try_enter st t =
     (if owner_thread_id st = t then
        map_outcome (\<lambda>n. Acquired (st\<lparr>recursion_count := n\<rparr>)) (uadd (recursion_count st) 1)
      else if owner_thread_id st = arena_id_invalid then Ok (Acquired (mark_entered st t))
      else Ok Contended)"

definition try_enter :: "sync_block_state \<Rightarrow> arena_id \<Rightarrow> ('e, bool \<times> sync_block_state) outcome" where
  "try_enter st t =
     (if owner_thread_id st = arena_id_invalid then
        Ok (True, st\<lparr>owner_thread_id := t, recursion_count := 1\<rparr>)
      else if owner_thread_id st = t then
        map_outcome (\<lambda>n. (True, st\<lparr>recursion_count := n\<rparr>)) (uadd (recursion_count st) 1)
      else Ok (False, st))"

text \<open>The result of \<open>exit\<close>, the new state, and whether a waiter is notified.\<close>

definition sync_exit :: "sync_block_state \<Rightarrow> arena_id \<Rightarrow> bool \<times> sync_block_state \<times> bool" where
  "sync_exit st t =
     (if owner_thread_id st \<noteq> t \<or> t = arena_id_invalid then (False, st, False)
      else if recursion_count st = 0 then (False, st, False)
      else let n = recursion_count st - 1 in
        if n = 0 then (True, st\<lparr>recursion_count := 0, owner_thread_id := arena_id_invalid\<rparr>, True)
        else (True, st\<lparr>recursion_count := n\<rparr>, False))"

section \<open>The blocking entries\<close>

text \<open>
  \<open>enter\<close>, \<open>enter_with_timeout\<close> (with a non-zero timeout), \<open>enter_safe\<close> and \<open>enter_with_timeout_safe\<close> as
  the sequences of critical sections they run. \<open>late\<close> says that the clock has passed the deadline when it
  is read, \<open>timed_out\<close> that the wait ended by its timeout, \<open>stop\<close> that a collection has been requested.
\<close>

datatype enter_op = Enter | EnterWithTimeout | EnterSafe | EnterWithTimeoutSafe

record wake_inputs =
  late :: bool
  timed_out :: bool
  stop :: bool

datatype phase = Idle | Starting enter_op | Waiting enter_op | StopCheck enter_op | Done lock_result

definition has_deadline :: "enter_op \<Rightarrow> bool" where
  "has_deadline op \<longleftrightarrow> op = EnterWithTimeout \<or> op = EnterWithTimeoutSafe"

definition entering ::
    "enter_op \<Rightarrow> wake_inputs \<Rightarrow> arena_id \<Rightarrow> sync_block_state \<Rightarrow> ('e, phase \<times> sync_block_state) outcome" where
  "entering op inp t st =
     map_outcome (\<lambda>r. case r of
         Acquired st' \<Rightarrow> (Done Success, st')
       | Contended \<Rightarrow> (if has_deadline op \<and> late inp then Done Timeout else Waiting op, st))
       (lock_and_try_enter st t)"

fun woken :: "enter_op \<Rightarrow> wake_inputs \<Rightarrow> arena_id \<Rightarrow> sync_block_state \<Rightarrow> phase \<times> sync_block_state" where
  "woken Enter inp t st =
     (if owner_thread_id st \<noteq> arena_id_invalid then (Waiting Enter, st)
      else (Done Success, mark_entered st t))"
| "woken EnterWithTimeout inp t st =
     (if timed_out inp \<and> owner_thread_id st \<noteq> arena_id_invalid then (Done Timeout, st)
      else if owner_thread_id st \<noteq> arena_id_invalid
        then (if late inp then Done Timeout else Waiting EnterWithTimeout, st)
      else (Done Success, mark_entered st t))"
| "woken op inp t st =
     (if owner_thread_id st = arena_id_invalid then (Done Success, mark_entered st t)
      else (StopCheck op, st))"

fun enter_step ::
    "wake_inputs \<Rightarrow> arena_id \<Rightarrow> phase \<Rightarrow> sync_block_state \<Rightarrow> ('e, phase \<times> sync_block_state) outcome" where
  "enter_step inp t (Starting op) st = entering op inp t st"
| "enter_step inp t (Waiting op) st = Ok (woken op inp t st)"
| "enter_step inp t (StopCheck op) st = Ok (if stop inp then Done Yield else Starting op, st)"
| "enter_step inp t ph st = Ok (ph, st)"

text \<open>A zero timeout asks without waiting.\<close>

definition enter_with_timeout_start ::
    "nat \<Rightarrow> arena_id \<Rightarrow> sync_block_state \<Rightarrow> ('e, phase \<times> sync_block_state) outcome" where
  "enter_with_timeout_start timeout_ms t st =
     (if timeout_ms = 0
      then map_outcome (\<lambda>(ok, st'). (Done (if ok then Success else Timeout), st')) (try_enter st t)
      else Ok (Starting EnterWithTimeout, st))"

section \<open>The monitor system\<close>

text \<open>
  One block shared by any number of threads. \<open>holds\<close> counts, per thread, the successful entries that have
  not been matched by a successful exit. The callers assert that a thread has a valid identifier.
\<close>

record monitor =
  block :: sync_block_state
  phase_of :: "arena_id \<Rightarrow> phase"
  holds :: "arena_id \<Rightarrow> nat"

definition monitor_new :: monitor where
  "monitor_new = \<lparr>block = sync_block_new, phase_of = (\<lambda>_. Idle), holds = (\<lambda>_. 0)\<rparr>"

definition bump :: "bool \<Rightarrow> arena_id \<Rightarrow> (arena_id \<Rightarrow> nat) \<Rightarrow> arena_id \<Rightarrow> nat" where
  "bump won t h = (if won then h(t := h t + 1) else h)"

inductive monitor_step :: "monitor \<Rightarrow> monitor \<Rightarrow> bool" where
  call: "t \<noteq> arena_id_invalid \<Longrightarrow> phase_of m t = Idle \<Longrightarrow>
    monitor_step m (m\<lparr>phase_of := (phase_of m)(t := Starting op)\<rparr>)"
| timed: "t \<noteq> arena_id_invalid \<Longrightarrow> phase_of m t = Idle \<Longrightarrow>
    enter_with_timeout_start ms t (block m) = (Ok (ph, st) :: (unit, _) outcome) \<Longrightarrow>
    monitor_step m (m\<lparr>block := st, phase_of := (phase_of m)(t := ph),
      holds := bump (ph = Done Success) t (holds m)\<rparr>)"
| run: "t \<noteq> arena_id_invalid \<Longrightarrow> phase_of m t = ph \<Longrightarrow> (\<forall>r. ph \<noteq> Done r) \<Longrightarrow>
    enter_step inp t ph (block m) = (Ok (ph', st) :: (unit, _) outcome) \<Longrightarrow>
    monitor_step m (m\<lparr>block := st, phase_of := (phase_of m)(t := ph'),
      holds := bump (ph' = Done Success) t (holds m)\<rparr>)"
| return: "phase_of m t = Done r \<Longrightarrow> monitor_step m (m\<lparr>phase_of := (phase_of m)(t := Idle)\<rparr>)"
| attempt: "t \<noteq> arena_id_invalid \<Longrightarrow> phase_of m t = Idle \<Longrightarrow>
    try_enter (block m) t = (Ok (won, st) :: (unit, _) outcome) \<Longrightarrow>
    monitor_step m (m\<lparr>block := st, holds := bump won t (holds m)\<rparr>)"
| leave: "t \<noteq> arena_id_invalid \<Longrightarrow> phase_of m t = Idle \<Longrightarrow> sync_exit (block m) t = (ok, st, notify) \<Longrightarrow>
    monitor_step m (m\<lparr>block := st,
      holds := (if ok then (holds m)(t := holds m t - 1) else holds m)\<rparr>)"

definition monitor_reachable :: "monitor \<Rightarrow> bool" where
  "monitor_reachable m \<longleftrightarrow> monitor_step\<^sup>*\<^sup>* monitor_new m"

section \<open>The reentrant lock it implements\<close>

text \<open>
  The contract of a reentrant lock over an abstract view: who holds it and how often. \<open>enter\<close> and \<open>leave\<close>
  give the state after a successful attempt.
\<close>

locale reentrant_lock =
  fixes invar :: "'s \<Rightarrow> bool" and holder :: "'s \<Rightarrow> ('t \<times> nat) option" and valid :: "'t \<Rightarrow> bool"
    and enter :: "'s \<Rightarrow> 't \<Rightarrow> 's option" and leave :: "'s \<Rightarrow> 't \<Rightarrow> 's option"
  assumes enter_free: "invar s \<Longrightarrow> valid t \<Longrightarrow> holder s = None \<Longrightarrow>
      \<exists>s'. enter s t = Some s' \<and> invar s' \<and> holder s' = Some (t, 1)"
    and enter_held: "invar s \<Longrightarrow> valid t \<Longrightarrow> holder s = Some (u, n) \<Longrightarrow> enter s t = Some s' \<Longrightarrow>
      u = t \<and> invar s' \<and> holder s' = Some (t, n + 1)"
    and leave_held: "invar s \<Longrightarrow> valid t \<Longrightarrow> leave s t = Some s' \<Longrightarrow>
      invar s' \<and> (\<exists>n. holder s = Some (t, n + 1) \<and> holder s' = (if n = 0 then None else Some (t, n)))"
    and leave_enabled: "invar s \<Longrightarrow> valid t \<Longrightarrow> holder s = Some (t, n) \<Longrightarrow> leave s t \<noteq> None"
begin

lemma enter_cases:
  assumes "invar s" "valid t" "enter s t = Some s'"
  shows "invar s' \<and> (\<exists>n. holder s' = Some (t, n + 1) \<and> holder s = (if n = 0 then None else Some (t, n)) \<or>
    holder s = Some (t, 0) \<and> holder s' = Some (t, 1))"
proof (cases "holder s")
  case None
  then show ?thesis using enter_free [OF assms(1,2)] assms(3) by (auto intro!: exI [of _ 0])
next
  case (Some un)
  obtain u n where "holder s = Some (u, n)" using Some by (cases un) auto
  then show ?thesis using enter_held [OF assms(1,2) _ assms(3)] by (cases n) auto
qed

lemma leave_undoes_enter:
  assumes "invar s" "valid t" "holder s \<noteq> Some (t, 0)" "enter s t = Some s'"
  shows "\<exists>s''. leave s' t = Some s'' \<and> invar s'' \<and> holder s'' = holder s"
proof -
  obtain n where n: "invar s'" "holder s' = Some (t, n + 1)"
      "holder s = (if n = 0 then None else Some (t, n))"
    using enter_cases [OF assms(1,2,4)] assms(3) by auto
  then obtain s'' where "leave s' t = Some s''" using leave_enabled [OF n(1) assms(2)] by auto
  then show ?thesis using leave_held [OF n(1) assms(2)] n by auto
qed

lemma enter_excludes:
  "invar s \<Longrightarrow> valid t \<Longrightarrow> holder s = Some (u, n) \<Longrightarrow> u \<noteq> t \<Longrightarrow> enter s t = None"
  using enter_held by (metis option.exhaust)

end

definition sync_ok :: "sync_block_state \<Rightarrow> bool" where
  "sync_ok st \<longleftrightarrow> (owner_thread_id st = arena_id_invalid \<longleftrightarrow> recursion_count st = 0)"

definition abs_lock :: "sync_block_state \<Rightarrow> (arena_id \<times> nat) option" where
  "abs_lock st = (if owner_thread_id st = arena_id_invalid then None
     else Some (owner_thread_id st, recursion_count st))"

definition attempt_enter :: "sync_block_state \<Rightarrow> arena_id \<Rightarrow> sync_block_state option" where
  "attempt_enter st t = (case (try_enter st t :: (unit, _) outcome) of Ok (True, st') \<Rightarrow> Some st' | _ \<Rightarrow> None)"

definition attempt_leave :: "sync_block_state \<Rightarrow> arena_id \<Rightarrow> sync_block_state option" where
  "attempt_leave st t = (case sync_exit st t of (True, st', _) \<Rightarrow> Some st' | _ \<Rightarrow> None)"

lemma uadd_one_Ok: "uadd n 1 = (Ok m :: ('e, nat) outcome) \<longleftrightarrow> m = n + 1 \<and> n + 1 \<le> usize_max"
  by (auto simp: uadd_def usize_of_def)

interpretation blk: reentrant_lock sync_ok abs_lock "\<lambda>t. t \<noteq> arena_id_invalid" attempt_enter attempt_leave
proof unfold_locales
  fix s t assume "sync_ok s" "t \<noteq> arena_id_invalid" "abs_lock s = None"
  then show "\<exists>s'. attempt_enter s t = Some s' \<and> sync_ok s' \<and> abs_lock s' = Some (t, 1)"
    by (auto simp: attempt_enter_def try_enter_def abs_lock_def sync_ok_def split: if_splits)
next
  fix s t u n s'
  assume "sync_ok s" "t \<noteq> arena_id_invalid" "abs_lock s = Some (u, n)" "attempt_enter s t = Some s'"
  then show "u = t \<and> sync_ok s' \<and> abs_lock s' = Some (t, n + 1)"
    by (auto simp: attempt_enter_def try_enter_def abs_lock_def sync_ok_def uadd_def usize_of_def
        split: if_splits outcome.splits)
next
  fix s t s' assume "sync_ok s" "t \<noteq> arena_id_invalid" "attempt_leave s t = Some s'"
  then show "sync_ok s' \<and> (\<exists>n. abs_lock s = Some (t, n + 1) \<and>
      abs_lock s' = (if n = 0 then None else Some (t, n)))"
    by (auto simp: attempt_leave_def sync_exit_def abs_lock_def sync_ok_def Let_def
        intro!: exI [of _ "recursion_count s - 1"] split: if_splits)
next
  fix s t n assume "sync_ok s" "t \<noteq> arena_id_invalid" "abs_lock s = Some (t, n)"
  then show "attempt_leave s t \<noteq> None"
    by (auto simp: attempt_leave_def sync_exit_def abs_lock_def sync_ok_def Let_def split: if_splits)
qed

section \<open>Every entry is an acquisition of the lock\<close>

fun op_of :: "phase \<Rightarrow> enter_op option" where
  "op_of (Starting op) = Some op"
| "op_of (Waiting op) = Some op"
| "op_of (StopCheck op) = Some op"
| "op_of _ = None"

lemma lock_and_try_enter_cases:
  assumes "lock_and_try_enter st t = (Ok r :: (unit, _) outcome)" "t \<noteq> arena_id_invalid"
  shows "r = Contended \<and> owner_thread_id st \<notin> {t, arena_id_invalid} \<or>
    (\<exists>st'. r = Acquired st' \<and> attempt_enter st t = Some st')"
  using assms by (auto simp: lock_and_try_enter_def attempt_enter_def try_enter_def mark_entered_def
      uadd_def usize_of_def split: if_splits)

lemma mark_entered_attempt:
  "owner_thread_id st = arena_id_invalid \<Longrightarrow> attempt_enter st t = Some (mark_entered st t)"
  by (simp add: attempt_enter_def try_enter_def mark_entered_def)

lemma held_by_other:
  "owner_thread_id st \<notin> {t, arena_id_invalid} \<Longrightarrow> \<exists>u n. abs_lock st = Some (u, n) \<and> u \<noteq> t"
  by (auto simp: abs_lock_def)

text \<open>What a step of an entry may do: nothing, or end with the outcome it reports.\<close>

definition step_outcome :: "wake_inputs \<Rightarrow> arena_id \<Rightarrow> enter_op \<Rightarrow> sync_block_state \<Rightarrow> phase \<Rightarrow> sync_block_state \<Rightarrow> bool" where
  "step_outcome inp t op st ph' st' \<longleftrightarrow>
     (case ph' of
        Done Success \<Rightarrow> attempt_enter st t = Some st'
      | Done Timeout \<Rightarrow> st' = st \<and> has_deadline op \<and> (late inp \<or> timed_out inp) \<and> attempt_enter st t = None
      | Done Yield \<Rightarrow> st' = st \<and> stop inp \<and> op \<in> {EnterSafe, EnterWithTimeoutSafe}
      | _ \<Rightarrow> st' = st \<and> op_of ph' = Some op)"

lemma attempt_enter_other: "owner_thread_id st \<notin> {t, arena_id_invalid} \<Longrightarrow> attempt_enter st t = None"
  by (simp add: attempt_enter_def try_enter_def)

lemma entering_outcome:
  assumes "t \<noteq> arena_id_invalid" "entering op inp t st = (Ok (ph', st') :: (unit, _) outcome)"
  shows "step_outcome inp t op st ph' st'"
proof -
  obtain r where "lock_and_try_enter st t = (Ok r :: (unit, _) outcome)"
    and "(ph', st') = (case r of Acquired st' \<Rightarrow> (Done Success, st')
       | Contended \<Rightarrow> (if has_deadline op \<and> late inp then Done Timeout else Waiting op, st))"
    using assms(2) by (auto simp: entering_def outcome_simps)
  with lock_and_try_enter_cases [OF this(1) assms(1)] show ?thesis
    by (auto simp: step_outcome_def attempt_enter_other)
qed

lemma woken_outcome:
  assumes "owner_thread_id st \<noteq> t" "woken op inp t st = (ph', st')"
  shows "step_outcome inp t op st ph' st'"
  using assms by (cases op) (auto simp: step_outcome_def mark_entered_attempt attempt_enter_other
      has_deadline_def split: if_splits)

text \<open>
  C31: The four ways of entering a monitor implement the reentrant lock. A step of an entry that ends with
  success has acquired the lock for the thread exactly as the lock's contract says; every other step leaves
  the lock as it is, times out only with a deadline that has passed while another thread holds the lock, and
  yields only when a collection has been requested. A woken thread that finds the lock free always gets it.
\<close>
theorem enter_step_refines:
  assumes "t \<noteq> arena_id_invalid" and "op_of ph = Some op"
    and "enter_step inp t ph st = (Ok (ph', st') :: (unit, _) outcome)"
    and "case ph of Waiting _ \<Rightarrow> owner_thread_id st \<noteq> t | StopCheck op \<Rightarrow> \<not> op \<in> {Enter, EnterWithTimeout} | _ \<Rightarrow> True"
  shows "step_outcome inp t op st ph' st' \<and>
    (case ph of Waiting _ \<Rightarrow> abs_lock st = None \<longrightarrow> ph' = Done Success | _ \<Rightarrow> True)"
proof (cases ph)
  case (Starting op')
  then show ?thesis using assms entering_outcome by simp
next
  case (Waiting op')
  have "abs_lock st = None \<longrightarrow> ph' = Done Success"
    using assms(3) Waiting by (cases op') (auto simp: abs_lock_def split: if_splits)
  with Waiting assms woken_outcome show ?thesis by simp
next
  case (StopCheck op')
  then show ?thesis using assms by (cases op') (auto simp: step_outcome_def)
qed (use assms in auto)

theorem enter_step_refines_witness:
  "\<exists>st'. enter_step \<lparr>late = False, timed_out = True, stop = False\<rparr> 7 (Waiting EnterSafe) sync_block_new =
      (Ok (Done Success, st') :: (unit, _) outcome) \<and> abs_lock st' = Some (7, 1)"
proof -
  let ?i = "\<lparr>late = False, timed_out = True, stop = False\<rparr>"
  have w: "enter_step ?i 7 (Waiting EnterSafe) sync_block_new =
      (Ok (Done Success, mark_entered sync_block_new 7) :: (unit, _) outcome)"
    by (simp add: sync_block_new_def)
  have "attempt_enter sync_block_new 7 = Some (mark_entered sync_block_new 7)"
    using enter_step_refines [OF _ _ w, of EnterSafe]
    by (simp add: step_outcome_def sync_block_new_def arena_id_invalid_def)
  with blk.enter_free [of sync_block_new 7] w show ?thesis
    by (auto simp: sync_block_new_def sync_ok_def abs_lock_def arena_id_invalid_def)
qed

section \<open>Mutual exclusion\<close>

definition lock_view :: "monitor \<Rightarrow> bool" where
  "lock_view m \<longleftrightarrow> sync_ok (block m) \<and>
     (\<forall>t. t \<noteq> arena_id_invalid \<longrightarrow>
        holds m t = (case abs_lock (block m) of Some (u, n) \<Rightarrow> if u = t then n else 0 | None \<Rightarrow> 0))"

fun wait_ok :: "arena_id \<Rightarrow> arena_id \<Rightarrow> phase \<Rightarrow> bool" where
  "wait_ok own t (Waiting op) \<longleftrightarrow> own \<noteq> t"
| "wait_ok own t (StopCheck op) \<longleftrightarrow> own \<noteq> t \<and> op \<notin> {Enter, EnterWithTimeout}"
| "wait_ok own t _ \<longleftrightarrow> True"

definition phases_ok :: "arena_id \<Rightarrow> (arena_id \<Rightarrow> phase) \<Rightarrow> bool" where
  "phases_ok own ph \<longleftrightarrow> ph arena_id_invalid = Idle \<and> (\<forall>t. wait_ok own t (ph t))"

abbreviation waits_ok :: "monitor \<Rightarrow> bool" where
  "waits_ok m \<equiv> phases_ok (owner_thread_id (block m)) (phase_of m)"

lemma lock_view_acquire:
  assumes "lock_view m" "t \<noteq> arena_id_invalid" "attempt_enter (block m) t = Some st"
  shows "lock_view (m\<lparr>block := st, phase_of := p, holds := bump True t (holds m)\<rparr>)"
proof -
  have inv: "sync_ok (block m)" using assms(1) by (simp add: lock_view_def)
  have "holds m t \<noteq> 0 \<or> abs_lock (block m) \<noteq> Some (t, 0)"
    using inv by (auto simp: abs_lock_def sync_ok_def)
  then show ?thesis
    using blk.enter_cases [OF inv assms(2,3)] assms inv
    by (auto simp: lock_view_def bump_def split: option.splits if_splits)
qed

lemma lock_view_release:
  assumes "lock_view m" "t \<noteq> arena_id_invalid" "attempt_leave (block m) t = Some st"
  shows "lock_view (m\<lparr>block := st, holds := (holds m)(t := holds m t - 1)\<rparr>)"
  using blk.leave_held [OF _ assms(2,3)] assms(1,2)
  by (auto simp: lock_view_def split: option.splits if_splits)

lemma attempt_enter_owner: "attempt_enter st t = Some st' \<Longrightarrow> owner_thread_id st' = t"
  by (auto simp: attempt_enter_def try_enter_def uadd_def usize_of_def split: if_splits outcome.splits)

lemma attempt_leave_owner:
  "attempt_leave st t = Some st' \<Longrightarrow> owner_thread_id st' \<in> {t, arena_id_invalid}"
  by (auto simp: attempt_leave_def sync_exit_def Let_def split: if_splits)

text \<open>The two ways a step changes the block: another thread's wait is never turned into a hold.\<close>

lemma wait_ok_other: "own \<noteq> t \<Longrightarrow> wait_ok own t ph \<longleftrightarrow> (case ph of StopCheck op \<Rightarrow> op \<notin> {Enter, EnterWithTimeout} | _ \<Rightarrow> True)"
  by (cases ph) auto

lemma wait_ok_change: "wait_ok own t ph \<Longrightarrow> own' \<noteq> t \<Longrightarrow> wait_ok own' t ph"
  by (cases ph) auto

lemma phases_ok_change:
  assumes "phases_ok own phs" "t \<noteq> arena_id_invalid" "own' \<in> {own, t, arena_id_invalid}" "wait_ok own' t ph"
  shows "phases_ok own' (phs(t := ph))"
  unfolding phases_ok_def
proof (intro conjI allI)
  show "(phs(t := ph)) arena_id_invalid = Idle" using assms by (simp add: phases_ok_def)
  fix u show "wait_ok own' u ((phs(t := ph)) u)"
  proof (cases "u = t \<or> u = arena_id_invalid")
    case False
    then have "wait_ok own u (phs u)" using assms(1) by (simp add: phases_ok_def)
    then show ?thesis using wait_ok_change [of own u "phs u" own'] False assms(3) by auto
  qed (use assms in \<open>auto simp: phases_ok_def\<close>)
qed

lemma entering_phase:
  assumes "t \<noteq> arena_id_invalid" "entering op inp t st = (Ok (ph', st') :: (unit, _) outcome)"
  shows "ph' = Done Success \<or> owner_thread_id st \<noteq> t \<and> (ph' = Done Timeout \<or> ph' = Waiting op)"
proof -
  obtain r where r: "lock_and_try_enter st t = (Ok r :: (unit, _) outcome)"
    and "(ph', st') = (case r of Acquired st' \<Rightarrow> (Done Success, st')
       | Contended \<Rightarrow> (if has_deadline op \<and> late inp then Done Timeout else Waiting op, st))"
    using assms(2) by (auto simp: entering_def outcome_simps)
  with lock_and_try_enter_cases [OF r assms(1)] show ?thesis by (auto split: if_splits)
qed

lemma enter_step_waits:
  assumes "t \<noteq> arena_id_invalid" "enter_step inp t ph st = (Ok (ph', st') :: (unit, _) outcome)"
    and "wait_ok (owner_thread_id st) t ph"
  shows "wait_ok (owner_thread_id st) t ph'"
proof (cases ph)
  case (Starting op)
  then show ?thesis using entering_phase [OF assms(1), of op inp st ph' st'] assms(2) by auto
next
  case (Waiting op)
  then show ?thesis using assms by (cases op) (auto split: if_splits)
qed (use assms in \<open>auto split: if_splits\<close>)

lemma run_preserves:
  assumes "lock_view m" "waits_ok m" "t \<noteq> arena_id_invalid" "op_of (phase_of m t) = Some op"
    and st: "enter_step inp t (phase_of m t) (block m) = (Ok (ph', st) :: (unit, _) outcome)"
  defines "m' \<equiv> m\<lparr>block := st, phase_of := (phase_of m)(t := ph'), holds := bump (ph' = Done Success) t (holds m)\<rparr>"
  shows "lock_view m' \<and> waits_ok m'"
proof -
  have ph: "wait_ok (owner_thread_id (block m)) t (phase_of m t)" using assms(2) by (simp add: phases_ok_def)
  have out: "step_outcome inp t op (block m) ph' st"
    using enter_step_refines [OF assms(3,4) st] ph by (cases "phase_of m t") auto
  show ?thesis
  proof (cases "ph' = Done Success")
    case True
    with out have a: "attempt_enter (block m) t = Some st" by (simp add: step_outcome_def)
    with True lock_view_acquire [OF assms(1,3) a] phases_ok_change [OF assms(2,3), of t ph']
      attempt_enter_owner [OF a]
    show ?thesis unfolding m'_def by simp
  next
    case False
    with out have same: "st = block m"
      by (auto simp: step_outcome_def split: phase.splits lock_result.splits)
    from phases_ok_change [OF assms(2,3) _ enter_step_waits [OF assms(3) st ph]] same False assms(1)
    show ?thesis unfolding m'_def by (simp add: bump_def lock_view_def)
  qed
qed

lemma timed_preserves:
  assumes "lock_view m" "waits_ok m" "t \<noteq> arena_id_invalid"
    and st: "enter_with_timeout_start ms t (block m) = (Ok (ph, st) :: (unit, _) outcome)"
  defines "m' \<equiv> m\<lparr>block := st, phase_of := (phase_of m)(t := ph), holds := bump (ph = Done Success) t (holds m)\<rparr>"
  shows "lock_view m' \<and> waits_ok m'"
proof (cases "ph = Done Success")
  case True
  with st have a: "attempt_enter (block m) t = Some st"
    by (auto simp: enter_with_timeout_start_def attempt_enter_def outcome_simps split: if_splits)
  with True lock_view_acquire [OF assms(1,3) a] phases_ok_change [OF assms(2,3), of t ph]
    attempt_enter_owner [OF a] show ?thesis unfolding m'_def by simp
next
  case False
  with st have "st = block m" "wait_ok (owner_thread_id (block m)) t ph"
    by (auto simp: enter_with_timeout_start_def try_enter_def outcome_simps split: if_splits)
  with phases_ok_change [OF assms(2,3), of _ ph] False assms(1) show ?thesis
    unfolding m'_def by (simp add: bump_def lock_view_def)
qed

lemma attempt_preserves:
  assumes "lock_view m" "waits_ok m" "t \<noteq> arena_id_invalid" "phase_of m t = Idle"
    and st: "try_enter (block m) t = (Ok (won, st) :: (unit, _) outcome)"
  shows "lock_view (m\<lparr>block := st, holds := bump won t (holds m)\<rparr>) \<and>
    waits_ok (m\<lparr>block := st, holds := bump won t (holds m)\<rparr>)"
proof (cases won)
  case True
  with st have a: "attempt_enter (block m) t = Some st" by (simp add: attempt_enter_def)
  have p: "(phase_of m)(t := Idle) = phase_of m" using assms(4) by auto
  from lock_view_acquire [OF assms(1,3) a, of "phase_of m"] phases_ok_change [OF assms(2,3), of t Idle] True
  show ?thesis unfolding p using attempt_enter_owner [OF a] by simp
next
  case False
  with st have "st = block m" by (auto simp: try_enter_def outcome_simps split: if_splits)
  with False assms show ?thesis by (simp add: lock_view_def bump_def)
qed

lemma leave_preserves:
  assumes "lock_view m" "waits_ok m" "t \<noteq> arena_id_invalid" "phase_of m t = Idle"
    and st: "sync_exit (block m) t = (ok, st, notify)"
  defines "m' \<equiv> m\<lparr>block := st, holds := (if ok then (holds m)(t := holds m t - 1) else holds m)\<rparr>"
  shows "lock_view m' \<and> waits_ok m'"
proof (cases ok)
  case True
  with st have l: "attempt_leave (block m) t = Some st" by (simp add: attempt_leave_def)
  have p: "(phase_of m)(t := Idle) = phase_of m" using assms(4) by auto
  from lock_view_release [OF assms(1,3) l] attempt_leave_owner [OF l] True
    phases_ok_change [OF assms(2,3), of "owner_thread_id st" Idle]
  show ?thesis unfolding p m'_def by simp
next
  case False
  with st have "st = block m" by (auto simp: sync_exit_def Let_def split: if_splits)
  with False assms show ?thesis unfolding m'_def by (simp add: lock_view_def)
qed

lemma phases_preserve:
  "lock_view m \<Longrightarrow> phases_ok (owner_thread_id (block m)) phs \<Longrightarrow>
     lock_view (m\<lparr>phase_of := phs\<rparr>) \<and> waits_ok (m\<lparr>phase_of := phs\<rparr>)"
  by (simp add: lock_view_def)

lemma monitor_step_preserves:
  "monitor_step m m' \<Longrightarrow> lock_view m \<Longrightarrow> waits_ok m \<Longrightarrow> lock_view m' \<and> waits_ok m'"
proof (induction rule: monitor_step.induct)
  case (call t m op)
  show ?case by (rule phases_preserve [OF call(3)], rule phases_ok_change [OF call(4,1)]) auto
next
  case (timed t m ms ph st)
  then show ?case using timed_preserves by blast
next
  case (run t m ph inp ph' st)
  show ?case
  proof (cases "op_of ph")
    case None
    then have "ph = Idle" using run(3) by (cases ph) auto
    moreover from this run(4) have "ph' = Idle" "st = block m" by auto
    moreover have "(phase_of m)(t := Idle) = phase_of m" using run(2) \<open>ph = Idle\<close> by auto
    ultimately show ?thesis using run(5,6) by (simp add: bump_def)
  next
    case (Some op)
    with run(2,4) have "op_of (phase_of m t) = Some op"
      "enter_step inp t (phase_of m t) (block m) = (Ok (ph', st) :: (unit, _) outcome)" by simp_all
    from run_preserves [OF run(5,6,1) this] show ?thesis .
  qed
next
  case (return m t r)
  have t: "t \<noteq> arena_id_invalid" using return(1,3) by (auto simp: phases_ok_def)
  show ?case by (rule phases_preserve [OF return(2)], rule phases_ok_change [OF return(3) t]) auto
next
  case (attempt t m won st)
  then show ?case using attempt_preserves by blast
next
  case (leave t m ok st notify)
  then show ?case using leave_preserves by blast
qed

lemma monitor_invariant: "monitor_reachable m \<Longrightarrow> lock_view m \<and> waits_ok m"
  unfolding monitor_reachable_def
proof (induction rule: rtranclp_induct)
  case base
  show ?case by (auto simp: monitor_new_def lock_view_def phases_ok_def sync_block_new_def sync_ok_def abs_lock_def)
next
  case (step m m')
  then show ?case using monitor_step_preserves by blast
qed

text \<open>
  C9: Monitors give mutual exclusion. In every state that any interleaving of entries, timeouts, attempts
  and exits can reach, the block's owner and recursion count agree with the entries the threads have not
  yet left: a thread that holds the monitor is the owner, as often as the recursion count says, and no two
  threads hold it at once.
\<close>
theorem monitor_mutual_exclusion:
  assumes "monitor_reachable m"
  shows "(\<forall>t. t \<noteq> arena_id_invalid \<longrightarrow> holds m t =
            (if owner_thread_id (block m) = t then recursion_count (block m) else 0)) \<and>
         (\<forall>t u. t \<noteq> arena_id_invalid \<and> u \<noteq> arena_id_invalid \<and> 0 < holds m t \<and> 0 < holds m u \<longrightarrow> t = u) \<and>
         (owner_thread_id (block m) = arena_id_invalid \<longleftrightarrow> recursion_count (block m) = 0)"
proof -
  have view: "holds m t = (if owner_thread_id (block m) = t then recursion_count (block m) else 0)"
    if "t \<noteq> arena_id_invalid" for t
    using monitor_invariant [OF assms] that by (auto simp: lock_view_def abs_lock_def)
  have "t = u" if "t \<noteq> arena_id_invalid" "u \<noteq> arena_id_invalid" "0 < holds m t" "0 < holds m u" for t u
    using that view by (metis less_irrefl)
  moreover have "sync_ok (block m)" using monitor_invariant [OF assms] by (simp add: lock_view_def)
  ultimately show ?thesis using view unfolding sync_ok_def by blast
qed

theorem monitor_mutual_exclusion_witness:
  "\<exists>m. monitor_reachable m \<and> holds m 7 = 1 \<and> holds m 8 = 0 \<and> owner_thread_id (block m) = 7"
proof -
  let ?st = "\<lparr>owner_thread_id = 7, recursion_count = 1\<rparr>"
  let ?m = "monitor_new\<lparr>block := ?st, holds := bump True 7 (holds monitor_new)\<rparr>"
  have "monitor_step monitor_new ?m"
    by (rule monitor_step.attempt)
       (simp_all add: monitor_new_def arena_id_invalid_def try_enter_def sync_block_new_def)
  then have r: "monitor_reachable ?m" unfolding monitor_reachable_def by (rule r_into_rtranclp)
  note excl = monitor_mutual_exclusion [OF r, THEN conjunct1, THEN spec]
  from excl [of 7] have "holds ?m 7 = 1" by (simp add: arena_id_invalid_def)
  moreover from excl [of 8] have "holds ?m 8 = 0" by (simp add: arena_id_invalid_def)
  moreover have "owner_thread_id (block ?m) = 7" by simp
  ultimately show ?thesis using r by blast
qed

section \<open>The table of blocks\<close>

record sync_block_manager =
  blocks :: "nat \<Rightarrow> sync_block_state option"
  next_index :: nat

definition sync_block_manager_new :: sync_block_manager where
  "sync_block_manager_new = \<lparr>blocks = (\<lambda>_. None), next_index = 1\<rparr>"

definition create_sync_block :: "sync_block_manager \<Rightarrow> ('e, nat \<times> sync_block_manager) outcome" where
  "create_sync_block mgr =
     and_then (uadd (next_index mgr) 1) (\<lambda>next.
       if next_index mgr = 0 then Panic
       else Ok (next_index mgr,
         mgr\<lparr>blocks := (blocks mgr)(next_index mgr \<mapsto> sync_block_new), next_index := next\<rparr>))"

definition get_or_create_sync_block ::
    "sync_block_manager \<Rightarrow> nat option \<Rightarrow> ('e, nat \<times> sync_block_manager) outcome" where
  "get_or_create_sync_block mgr current =
     (case current of
        Some i \<Rightarrow> (case blocks mgr i of Some _ \<Rightarrow> Ok (i, mgr) | None \<Rightarrow> create_sync_block mgr)
      | None \<Rightarrow> create_sync_block mgr)"

definition get_sync_block :: "sync_block_manager \<Rightarrow> nat \<Rightarrow> sync_block_state option" where
  "get_sync_block mgr i = blocks mgr i"

definition manager_ok :: "sync_block_manager \<Rightarrow> bool" where
  "manager_ok mgr \<longleftrightarrow> 0 < next_index mgr \<and> (\<forall>i. blocks mgr i \<noteq> None \<longrightarrow> 0 < i \<and> i < next_index mgr)"

lemma manager_ok_new: "manager_ok sync_block_manager_new"
  by (simp add: manager_ok_def sync_block_manager_new_def)

lemma create_sync_block_Ok:
  assumes "manager_ok mgr" "create_sync_block mgr = (Ok (i, mgr') :: (unit, _) outcome)"
  shows "manager_ok mgr' \<and> blocks mgr i = None \<and> blocks mgr' = (blocks mgr)(i \<mapsto> sync_block_new)"
proof -
  have i: "i = next_index mgr" and mgr': "mgr' = mgr\<lparr>blocks := (blocks mgr)(i \<mapsto> sync_block_new), next_index := i + 1\<rparr>"
    using assms(2) by (auto simp: create_sync_block_def outcome_simps uadd_def usize_of_def split: if_splits)
  have "blocks mgr i = None" using assms(1) unfolding i manager_ok_def by blast
  moreover have "manager_ok mgr'"
    using assms(1) i unfolding mgr' manager_ok_def by (auto simp: less_Suc_eq)
  ultimately show ?thesis using mgr' by simp
qed

text \<open>
  The table of sync blocks never hands out one index for two blocks: asking for a known index gives it
  back and changes nothing, any other request gives an index that no block had, with a free block under it,
  and leaves all other blocks in place.
\<close>
theorem get_or_create_sync_block_fresh:
  assumes "manager_ok mgr" and "get_or_create_sync_block mgr current = (Ok (i, mgr') :: (unit, _) outcome)"
  shows "manager_ok mgr' \<and> get_sync_block mgr' i \<noteq> None \<and>
    (\<forall>j. j \<noteq> i \<longrightarrow> get_sync_block mgr' j = get_sync_block mgr j) \<and>
    (if get_sync_block mgr i = None then get_sync_block mgr' i = Some sync_block_new
     else current = Some i \<and> mgr' = mgr)"
proof (cases "\<exists>b. current = Some i \<and> blocks mgr i = Some b")
  case True
  then have "mgr' = mgr" using assms(2) by (auto simp: get_or_create_sync_block_def)
  with True assms(1) show ?thesis by (auto simp: get_sync_block_def)
next
  case False
  then have "create_sync_block mgr = (Ok (i, mgr') :: (unit, _) outcome)"
    using assms(2) by (auto simp: get_or_create_sync_block_def split: option.splits)
  from create_sync_block_Ok [OF assms(1) this] assms(1) show ?thesis
    by (simp add: get_sync_block_def)
qed

theorem get_or_create_sync_block_fresh_witness:
  "\<exists>mgr'. get_or_create_sync_block sync_block_manager_new None = (Ok (1, mgr') :: (unit, _) outcome) \<and>
     get_sync_block mgr' 1 = Some sync_block_new"
proof -
  let ?mgr = "\<lparr>blocks = [1 \<mapsto> sync_block_new], next_index = 2\<rparr>"
  have "uadd 1 1 = (Ok 2 :: (unit, _) outcome)" by (simp add: uadd_def usize_of_def usize_max_def)
  then have g: "get_or_create_sync_block sync_block_manager_new None = (Ok (1, ?mgr) :: (unit, _) outcome)"
    by (simp add: get_or_create_sync_block_def create_sync_block_def sync_block_manager_new_def)
  from get_or_create_sync_block_fresh [OF manager_ok_new g] g show ?thesis
    by (simp add: get_sync_block_def sync_block_manager_new_def)
qed

end
