(* ===== verification/Frame_Alloc.thy ===== *)
theory Frame_Alloc
  imports Layouts Managed_Ptr
begin

text \<open>
  Storage owned by call frames: raw blocks (\<open>dotnet-utils/src/raw_block.rs\<close>), the \<open>localloc\<close> ledger
  with its budgets (\<open>dotnet-vm-data/src/frame_alloc.rs\<close>) and the home blocks of variables whose address is
  taken (\<open>dotnet-vm-data/src/frame_homes.rs\<close>). The host allocator is a function from a size and an alignment
  to an address, zero when it fails; the thread-local gauges are passed along.
\<close>

section \<open>Raw blocks\<close>

definition isize_max :: nat where
  "isize_max = 2 ^ 63 - 1"

fun is_power_of_two :: "nat \<Rightarrow> bool" where
  "is_power_of_two n = (if n \<le> 1 then n = 1 else if odd n then False else is_power_of_two (n div 2))"

declare is_power_of_two.simps [simp del]

datatype raw_block_error = InvalidAlignment | LayoutOverflow | AllocationFailed

record raw_block =
  rb_base :: usize
  payload_len :: nat
  rb_size :: nat
  rb_align :: nat

text \<open>\<open>Layout::from_size_align\<close> of the standard library, for an alignment that is a power of two.\<close>

definition layout_fits :: "nat \<Rightarrow> nat \<Rightarrow> bool" where
  "layout_fits sz align \<longleftrightarrow> sz + align \<le> isize_max + 1"

record alloc_thread =
  thread_bytes :: nat
  live_blocks :: nat

record host =
  alloc_fn :: "nat \<Rightarrow> nat \<Rightarrow> usize"
  reserve_ok :: bool

definition raw_block_zeroed ::
    "host \<Rightarrow> alloc_thread \<Rightarrow> nat \<Rightarrow> nat \<Rightarrow> (raw_block_error, raw_block \<times> alloc_thread) outcome" where
  "raw_block_zeroed host th len align =
     (if \<not> is_power_of_two align then Err InvalidAlignment
      else if \<not> layout_fits (max len 1) (max align 16) then Err LayoutOverflow
      else case non_null (alloc_fn host (max len 1) (max align 16)) of
        None \<Rightarrow> Err AllocationFailed
      | Some base \<Rightarrow>
          and_then (uadd (live_blocks th) 1) (\<lambda>live.
            Ok (\<lparr>rb_base = base, payload_len = len, rb_size = max len 1, rb_align = max align 16\<rparr>,
                th\<lparr>live_blocks := live\<rparr>)))"

definition accounted_bytes :: "raw_block \<Rightarrow> nat" where
  "accounted_bytes b = max (rb_size b) 64"

definition ptr_at :: "raw_block \<Rightarrow> nat \<Rightarrow> usize option" where
  "ptr_at b off = (if off > payload_len b then None else Some (rb_base b + of_nat off))"

text \<open>Dropping blocks returns them to the allocator and lowers the gauge by one each.\<close>

definition drop_blocks :: "raw_block list \<Rightarrow> alloc_thread \<Rightarrow> ('e, alloc_thread) outcome" where
  "drop_blocks bs th = map_outcome (\<lambda>n. th\<lparr>live_blocks := n\<rparr>) (usub (live_blocks th) (length bs))"

section \<open>The ledger of a frame\<close>

record frame_budget =
  max_request :: nat
  per_frame :: nat
  per_thread :: nat

definition frame_budget_default :: frame_budget where
  "frame_budget_default = \<lparr>max_request = 0x8000000, per_frame = 0x8000000, per_thread = 0x20000000\<rparr>"

datatype frame_allocation_error =
    NegativeSize | RequestTooLarge | FrameBudgetExceeded | ThreadBudgetExceeded
  | HostAllocationFailed raw_block_error

definition check_request :: "frame_budget \<Rightarrow> nat \<Rightarrow> (frame_allocation_error, unit) outcome" where
  "check_request budget sz = (if sz > max_request budget then Err RequestTooLarge else Ok ())"

record frame_allocations =
  fa_blocks :: "raw_block list"
  fa_used :: nat

definition frame_allocations_default :: frame_allocations where
  "frame_allocations_default = \<lparr>fa_blocks = [], fa_used = 0\<rparr>"

definition request_size :: "isize \<Rightarrow> (frame_allocation_error, nat) outcome" where
  "request_size sz = (if sint sz < 0 then Err NegativeSize else Ok (nat (sint sz)))"

text \<open>\<open>checked_add\<close> followed by the comparison with the limit.\<close>

definition charge_within :: "nat \<Rightarrow> nat \<Rightarrow> nat \<Rightarrow> nat option" where
  "charge_within bytes charge limit =
     (if bytes + charge \<le> usize_max \<and> bytes + charge \<le> limit then Some (bytes + charge) else None)"

definition allocate_external ::
    "host \<Rightarrow> alloc_thread \<Rightarrow> frame_allocations \<Rightarrow> nat \<Rightarrow> nat \<Rightarrow> frame_budget \<Rightarrow>
     (frame_allocation_error, raw_block \<times> frame_allocations \<times> alloc_thread) outcome" where
  "allocate_external host th fa sz align budget =
     and_then (check_request budget sz) (\<lambda>_.
       let charge = max sz 64 in
       and_then (ok_or FrameBudgetExceeded (charge_within (fa_used fa) charge (per_frame budget))) (\<lambda>frame_bytes.
       and_then (ok_or ThreadBudgetExceeded (charge_within (thread_bytes th) charge (per_thread budget))) (\<lambda>bytes.
       and_then (map_err HostAllocationFailed (raw_block_zeroed host th sz align)) (\<lambda>(block, th').
         Ok (block, fa\<lparr>fa_used := frame_bytes\<rparr>, th'\<lparr>thread_bytes := bytes\<rparr>)))))"

definition allocate_within ::
    "host \<Rightarrow> alloc_thread \<Rightarrow> frame_allocations \<Rightarrow> nat \<Rightarrow> frame_budget \<Rightarrow>
     (frame_allocation_error, usize \<times> frame_allocations \<times> alloc_thread) outcome" where
  "allocate_within host th fa sz budget =
     (if \<not> reserve_ok host then Err (HostAllocationFailed AllocationFailed)
      else map_outcome (\<lambda>(block, fa', th'). (rb_base block, fa'\<lparr>fa_blocks := fa_blocks fa' @ [block]\<rparr>, th'))
             (allocate_external host th fa sz 16 budget))"

definition frame_allocate ::
    "host \<Rightarrow> alloc_thread \<Rightarrow> frame_allocations \<Rightarrow> nat \<Rightarrow>
     (frame_allocation_error, usize \<times> frame_allocations \<times> alloc_thread) outcome" where
  "frame_allocate host th fa sz = allocate_within host th fa sz frame_budget_default"

definition release_all ::
    "frame_allocations \<Rightarrow> alloc_thread \<Rightarrow> ('e, frame_allocations \<times> alloc_thread) outcome" where
  "release_all fa th =
     and_then (drop_blocks (fa_blocks fa) th) (\<lambda>th'.
     and_then (usub (thread_bytes th') (fa_used fa)) (\<lambda>bytes.
       Ok (\<lparr>fa_blocks = [], fa_used = 0\<rparr>, th'\<lparr>thread_bytes := bytes\<rparr>)))"

section \<open>Home blocks\<close>

record 'g home_value_type =
  hvt_description :: type_description
  hvt_generics :: 'g
  hvt_fields :: "type_description field_layout_manager"

record 'g variable_home =
  home_offset :: nat
  home_layout :: "type_description layout_manager"
  home_value_type :: "'g home_value_type option"
  home_scalar_type :: "type_description option"

record 'g frame_home_layout =
  home_fields :: "type_description field_layout_manager"
  home_locals :: "'g variable_home option list"
  home_arguments :: "'g variable_home option list"
  needs_trace :: bool

definition frame_home_layout_new ::
    "type_description field_layout_manager \<Rightarrow> 'g variable_home option list \<Rightarrow> 'g variable_home option list \<Rightarrow>
     'g frame_home_layout" where
  "frame_home_layout_new block locals arguments =
     \<lparr>home_fields = block, home_locals = locals, home_arguments = arguments,
      needs_trace = (has_ref_fields block \<or> unaligned_offsets (flm_gc_desc block) \<noteq> [] \<or>
        list_ex (\<lambda>word. word \<noteq> 0) (bitmap (flm_gc_desc block)))\<rparr>"

definition home_at :: "'a option list \<Rightarrow> nat \<Rightarrow> 'a option" where
  "home_at homes i = (if i < length homes then homes ! i else None)"

definition home_alignment :: "'g frame_home_layout \<Rightarrow> nat" where
  "home_alignment l = max (flm_alignment (home_fields l)) 16"

definition home_size :: "'g frame_home_layout \<Rightarrow> nat" where
  "home_size l = total_size (home_fields l)"

definition homed_arguments :: "'g frame_home_layout \<Rightarrow> (nat \<times> 'g variable_home) list" where
  "homed_arguments l =
     List.map_filter (\<lambda>(i, home). map_option (Pair i) home)
       (zip [0..<length (home_arguments l)] (home_arguments l))"

record 'g home_block =
  hb_block :: raw_block
  hb_layout :: "'g frame_home_layout"
  hb_serial :: u64

record 'g frame_homes =
  primary :: "'g home_block option"
  temporaries :: "'g home_block list"

definition frame_homes_default :: "'g frame_homes" where
  "frame_homes_default = \<lparr>primary = None, temporaries = []\<rparr>"

definition homes_allocate ::
    "host \<Rightarrow> alloc_thread \<Rightarrow> 'g frame_home_layout \<Rightarrow> u64 \<Rightarrow>
     (raw_block_error, 'g frame_homes \<times> alloc_thread) outcome" where
  "homes_allocate host th l serial =
     map_outcome (\<lambda>(block, th'). (\<lparr>primary = Some \<lparr>hb_block = block, hb_layout = l, hb_serial = serial\<rparr>,
        temporaries = []\<rparr>, th'))
       (raw_block_zeroed host th (home_size l) (home_alignment l))"

definition home_blocks :: "'g frame_homes \<Rightarrow> 'g home_block list" where
  "home_blocks h = (case primary h of None \<Rightarrow> [] | Some b \<Rightarrow> [b]) @ temporaries h"

definition homes_release :: "'g frame_homes \<Rightarrow> alloc_thread \<Rightarrow> ('e, 'g frame_homes \<times> alloc_thread) outcome" where
  "homes_release h th = map_outcome (Pair frame_homes_default) (drop_blocks (map hb_block (home_blocks h)) th)"

definition homes_is_empty :: "'g frame_homes \<Rightarrow> bool" where
  "homes_is_empty h \<longleftrightarrow> primary h = None \<and> temporaries h = []"

text \<open>A homed variable of a live frame: its address, the serial of its block and its home.\<close>

definition home_slot :: "'g home_block \<Rightarrow> 'g variable_home \<Rightarrow> ('e, usize \<times> u64 \<times> 'g variable_home) outcome" where
  "home_slot hb home = (case ptr_at (hb_block hb) (home_offset home) of
      None \<Rightarrow> Panic | Some a \<Rightarrow> Ok (a, hb_serial hb, home))"

definition slot_in ::
    "('g frame_home_layout \<Rightarrow> 'g variable_home option list) \<Rightarrow> 'g frame_homes \<Rightarrow> nat \<Rightarrow>
     ('e, (usize \<times> u64 \<times> 'g variable_home) option) outcome" where
  "slot_in vars h i = (case primary h of
      None \<Rightarrow> Ok None
    | Some hb \<Rightarrow> (case home_at (vars (hb_layout hb)) i of
        None \<Rightarrow> Ok None | Some home \<Rightarrow> map_outcome Some (home_slot hb home)))"

definition homes_local :: "'g frame_homes \<Rightarrow> nat \<Rightarrow> ('e, (usize \<times> u64 \<times> 'g variable_home) option) outcome" where
  "homes_local = slot_in home_locals"

definition homes_argument :: "'g frame_homes \<Rightarrow> nat \<Rightarrow> ('e, (usize \<times> u64 \<times> 'g variable_home) option) outcome" where
  "homes_argument = slot_in home_arguments"

definition block_for :: "'g frame_homes \<Rightarrow> u64 \<Rightarrow> (usize \<times> nat) option" where
  "block_for h serial =
     map_option (\<lambda>hb. (rb_base (hb_block hb), payload_len (hb_block hb)))
       (find (\<lambda>hb. hb_serial hb = serial) (home_blocks h))"

definition allocate_temporary ::
    "host \<Rightarrow> alloc_thread \<Rightarrow> 'g frame_homes \<Rightarrow> 'g frame_home_layout \<Rightarrow> u64 \<Rightarrow> frame_allocations \<Rightarrow>
     (frame_allocation_error, usize \<times> 'g frame_homes \<times> frame_allocations \<times> alloc_thread) outcome" where
  "allocate_temporary host th h l serial fa =
     (if block_for h serial \<noteq> None then Panic
      else if \<not> reserve_ok host then Err (HostAllocationFailed AllocationFailed)
      else map_outcome (\<lambda>(block, fa', th').
             (rb_base block,
              h\<lparr>temporaries := temporaries h @ [\<lparr>hb_block = block, hb_layout = l, hb_serial = serial\<rparr>]\<rparr>, fa', th'))
           (allocate_external host th fa (home_size l) (home_alignment l) frame_budget_default))"

definition is_byref_var :: "nat \<Rightarrow> 'g variable_home option \<Rightarrow> bool" where
  "is_byref_var off v = (case v of None \<Rightarrow> False
     | Some home \<Rightarrow> home_offset home = off \<and> home_layout home = Scalar Layouts.ManagedPtr)"

definition is_byref_home :: "'g frame_homes \<Rightarrow> u64 \<Rightarrow> nat \<Rightarrow> bool" where
  "is_byref_home h serial off =
     list_ex (\<lambda>hb. hb_serial hb = serial \<and>
       list_ex (is_byref_var off) (home_locals (hb_layout hb) @ home_arguments (hb_layout hb))) (home_blocks h)"

text \<open>
  Tracing as the slots it visits: per traced block its serial, the object references and the managed
  pointers, by offset.
\<close>

definition homes_trace :: "'g frame_homes \<Rightarrow> ('e, (u64 \<times> nat list \<times> nat list) list) outcome" where
  "homes_trace h = collect_outcome (\<lambda>hb.
     if needs_trace (hb_layout hb)
     then map_outcome (\<lambda>slots. [(hb_serial hb, slots)])
            (field_trace_offsets (home_fields (hb_layout hb)) (payload_len (hb_block hb)))
     else Ok []) (home_blocks h)"

section \<open>What allocation does to the gauges\<close>

lemma raw_block_zeroed_Ok:
  assumes "raw_block_zeroed host th len align = Ok (b, th')"
  shows "payload_len b = len \<and> rb_base b \<noteq> 0 \<and> accounted_bytes b = max len 64 \<and>
    th' = th\<lparr>live_blocks := live_blocks th + 1\<rparr>"
  using assms
  by (auto simp: raw_block_zeroed_def accounted_bytes_def non_null_def outcome_simps uadd_def
      split: if_splits option.splits)

lemma allocate_external_Ok:
  assumes "allocate_external host th fa sz align budget = Ok (b, fa', th')"
  shows "payload_len b = sz" and "fa_blocks fa' = fa_blocks fa"
    and "fa_used fa' = fa_used fa + accounted_bytes b" and "fa_used fa' \<le> per_frame budget"
    and "thread_bytes th' = thread_bytes th + accounted_bytes b" and "thread_bytes th' \<le> per_thread budget"
    and "live_blocks th' = live_blocks th + 1"
  using assms
  by (auto simp: allocate_external_def charge_within_def Let_def outcome_simps
      dest!: raw_block_zeroed_Ok split: if_splits)

lemma drop_blocks_Ok [outcome_simps]:
  "drop_blocks bs th = Ok th' \<longleftrightarrow>
     length bs \<le> live_blocks th \<and> th' = th\<lparr>live_blocks := live_blocks th - length bs\<rparr>"
  by (auto simp: drop_blocks_def outcome_simps)

lemma drop_blocks_enough:
  "length bs \<le> live_blocks th \<Longrightarrow> drop_blocks bs th = Ok (th\<lparr>live_blocks := live_blocks th - length bs\<rparr>)"
  by (simp add: drop_blocks_def usub_def)

lemma release_all_enough:
  "length (fa_blocks fa) \<le> live_blocks th \<Longrightarrow> fa_used fa \<le> thread_bytes th \<Longrightarrow>
     release_all fa th = Ok (frame_allocations_default,
       \<lparr>thread_bytes = thread_bytes th - fa_used fa, live_blocks = live_blocks th - length (fa_blocks fa)\<rparr>)"
  by (simp add: release_all_def drop_blocks_enough usub_def frame_allocations_default_def)

lemma homes_release_enough:
  "length (home_blocks h) \<le> live_blocks th \<Longrightarrow>
     homes_release h th = Ok (frame_homes_default, th\<lparr>live_blocks := live_blocks th - length (home_blocks h)\<rparr>)"
  by (simp add: homes_release_def drop_blocks_enough)

lemma home_blocks_default [simp]: "home_blocks frame_homes_default = []"
  by (simp add: home_blocks_def frame_homes_default_def)

text \<open>A block that is not traced holds no references.\<close>

lemma bitmap_zero_no_slots:
  assumes "\<not> list_ex (\<lambda>word. word \<noteq> 0) (bitmap d)"
  shows "gc_slots d = {}"
proof -
  have "bitmap d ! i = 0" if "i < length (bitmap d)" for i
    using assms that by (simp add: list_ex_iff)
  then show ?thesis by (auto simp: gc_slots_def)
qed

lemma untraced_no_refs:
  assumes "wf_layout (Field block)" and "\<not> needs_trace (frame_home_layout_new block ls as)"
  shows "scalar_offsets Layouts.ObjectRef (Field block) = {}" and "scalar_offsets Layouts.ManagedPtr (Field block) = {}"
proof -
  obtain fs tot a g r where b: "block = FieldLayoutManager fs tot a g r" by (cases block)
  have nt: "\<not> r" "unaligned_offsets g = []" "\<not> list_ex (\<lambda>word. word \<noteq> 0) (bitmap g)"
    using assms(2) by (simp_all add: frame_home_layout_new_def b)
  have "gc_offsets g = {}" using nt bitmap_zero_no_slots [OF nt(3)] by (simp add: gc_offsets_def)
  then show "scalar_offsets Layouts.ObjectRef (Field block) = {}" using assms(1) by (simp add: b)
  show "scalar_offsets Layouts.ManagedPtr (Field block) = {}"
    by (rule no_managed_ptrs_no_offsets [OF assms(1)]) (simp add: b nt)
qed

end
