(* ===== verification/Frames.thy ===== *)
theory Frames
  imports Frame_Alloc Stack_Value
begin

text \<open>
  The data of the execution engine: exception metadata (\<open>dotnet-vm-data/src/exceptions.rs\<close>), methods and
  step results (\<open>lib.rs\<close>), and the evaluation and frame stacks (\<open>stack.rs\<close>). A frame owns its \<open>localloc\<close>
  ledger and its home blocks, so the operations that drop frames pass the thread's gauges along.
  Type parameters: \<open>'g\<close> the generic arguments, \<open>'c\<close> the concrete types, \<open>'r\<close> the runtime types of reflection.
\<close>

section \<open>Exception metadata and state\<close>

type_synonym range = "nat \<times> nat"

definition in_range :: "range \<Rightarrow> nat \<Rightarrow> bool" where
  "in_range r i \<longleftrightarrow> fst r \<le> i \<and> i < snd r"

datatype 'c handler_kind = Catch 'c | Filter (clause_offset: nat) | Finally | Fault

record 'c handler =
  h_instructions :: range
  h_kind :: "'c handler_kind"

record 'c protected_section =
  s_instructions :: range
  s_handlers :: "'c handler list"

record handler_address =
  frame_index :: nat
  section_index :: nat
  handler_index :: nat

record filter_state =
  filter_exception :: object_ref
  filter_handler :: handler_address
  filter_ip :: nat
  filter_stack_height :: nat

record search_state =
  search_exception :: object_ref
  search_cursor :: handler_address
  search_nested :: "filter_state option"

datatype unwind_target = ToHandler handler_address | ToInstruction nat

record unwind_state =
  unwind_exception :: "object_ref option"
  unwind_to :: unwind_target
  unwind_cursor :: handler_address
  unwind_nested :: "filter_state option"

datatype exception_state =
    NoException
  | Throwing object_ref bool
  | Searching search_state
  | Filtering filter_state
  | Unwinding unwind_state
  | ExecutingHandler unwind_state

record managed_exception_info =
  type_name :: string
  message :: "string option"
  stack_trace :: "string option"

datatype vm_error =
    TypeResolution type_resolution_error
  | Execution execution_error
  | PointerDeserialization pointer_deserialization_error
  | MemoryAccess memory_access_error

datatype step_result =
    Continue
  | Jump nat
  | FramePushed
  | Return
  | MethodThrew managed_exception_info
  | Exception
  | Yield
  | Error vm_error

datatype vm_continuation = NoContinuation | RetryInstruction | HandlerUnwinds "unwind_state list"

section \<open>Methods and frames\<close>

datatype 'c local_variable = TypedReferenceLocal | Variable bool 'c

datatype return_kind = ReturnsNothing | ReturnsValue | ReturnsTypedReference

record ('g, 'c) method_info =
  has_this :: bool
  parameter_count :: nat
  return_type :: return_kind
  method_locals :: "'c local_variable list"
  max_stack :: nat
  exceptions :: "'c protected_section list"
  instruction_count :: nat
  parent_type :: type_description
  is_cctor :: bool
  method_homes :: "'g frame_home_layout option"

record ('g, 'c) method_state =
  ip :: nat
  info_handle :: "('g, 'c) method_info"
  allocations :: frame_allocations

definition method_state_new :: "('g, 'c) method_info \<Rightarrow> ('g, 'c) method_state" where
  "method_state_new info = \<lparr>ip = 0, info_handle = info, allocations = frame_allocations_default\<rparr>"

record base_pointer =
  base_arguments :: nat
  base_locals :: nat
  base_stack :: nat

definition base_pointer_default :: base_pointer where
  "base_pointer_default = \<lparr>base_arguments = 0, base_locals = 0, base_stack = 0\<rparr>"

record 'g multicast_state =
  mc_targets :: usize
  mc_next_index :: nat
  mc_args :: "'g stack_value list"

datatype 'r frame_return_action = InvokeReturn 'r

record 'g constructor_result =
  result_slot :: nat
  result_serial :: u64
  result_description :: type_description
  result_generics :: 'g
  result_fields :: "type_description field_layout_manager"

record ('g, 'c, 'r) stack_frame =
  stack_height :: nat
  base :: base_pointer
  state :: "('g, 'c) method_state"
  generic_inst :: 'g
  exception_stack :: "object_ref list"
  pinned_locals :: "bool list"
  is_finalizer :: bool
  multicast :: "'g multicast_state option"
  frame_continuation :: "'r frame_return_action option"
  homes :: "'g frame_homes"
  constructor_result :: "'g constructor_result option"

definition stack_frame_new ::
    "base_pointer \<Rightarrow> ('g, 'c) method_info \<Rightarrow> 'g \<Rightarrow> bool list \<Rightarrow> ('g, 'c, 'r) stack_frame" where
  "stack_frame_new bp info gens pinned =
     \<lparr>stack_height = 0, base = bp, state = method_state_new info, generic_inst = gens, exception_stack = [],
      pinned_locals = pinned, is_finalizer = False, multicast = None, frame_continuation = None,
      homes = frame_homes_default, constructor_result = None\<rparr>"

text \<open>Replacing the method state drops the old ledger, which releases it.\<close>

definition reset_for_call ::
    "base_pointer \<Rightarrow> ('g, 'c) method_info \<Rightarrow> 'g \<Rightarrow> bool list \<Rightarrow> ('g, 'c, 'r) stack_frame \<Rightarrow> alloc_thread \<Rightarrow>
     ('e, ('g, 'c, 'r) stack_frame \<times> alloc_thread) outcome" where
  "reset_for_call bp info gens pinned f th =
     and_then (release_all (allocations (state f)) th) (\<lambda>(_, th1).
     and_then (homes_release (homes f) th1) (\<lambda>(hs, th2).
       Ok (f\<lparr>stack_height := 0, base := bp, state := method_state_new info, generic_inst := gens,
             exception_stack := [], pinned_locals := pinned, is_finalizer := False, multicast := None,
             frame_continuation := None, constructor_result := None, homes := hs\<rparr>, th2)))"

definition prepare_for_pool ::
    "('g, 'c, 'r) stack_frame \<Rightarrow> alloc_thread \<Rightarrow> ('e, ('g, 'c, 'r) stack_frame \<times> alloc_thread) outcome" where
  "prepare_for_pool f th =
     and_then (release_all (allocations (state f)) th) (\<lambda>(fa, th1).
     and_then (homes_release (homes f) th1) (\<lambda>(hs, th2).
       Ok (f\<lparr>state := (state f)\<lparr>allocations := fa\<rparr>, homes := hs, stack_height := 0, base := base_pointer_default,
             exception_stack := [], pinned_locals := [], is_finalizer := False, multicast := None,
             frame_continuation := None, constructor_result := None\<rparr>, th2)))"

definition drop_frame :: "('g, 'c, 'r) stack_frame \<Rightarrow> alloc_thread \<Rightarrow> ('e, alloc_thread) outcome" where
  "drop_frame f th =
     and_then (release_all (allocations (state f)) th) (\<lambda>(_, th1). map_outcome snd (homes_release (homes f) th1))"

definition drop_frames :: "('g, 'c, 'r) stack_frame list \<Rightarrow> alloc_thread \<Rightarrow> ('e, alloc_thread) outcome" where
  "drop_frames = fold_outcome drop_frame"

section \<open>The evaluation stack\<close>

record 'g evaluation_stack =
  stack :: "'g stack_value list"
  suspended_stack :: "'g stack_value list"

definition evaluation_stack_new :: "'g evaluation_stack" where
  "evaluation_stack_new = \<lparr>stack = [], suspended_stack = []\<rparr>"

definition es_push :: "'g stack_value \<Rightarrow> 'g evaluation_stack \<Rightarrow> 'g evaluation_stack" where
  "es_push v es = es\<lparr>stack := stack es @ [v]\<rparr>"

definition es_pop_safe :: "'g evaluation_stack \<Rightarrow> (vm_error, 'g stack_value \<times> 'g evaluation_stack) outcome" where
  "es_pop_safe es =
     (if stack es = [] then Err (Execution StackUnderflow)
      else Ok (last (stack es), es\<lparr>stack := butlast (stack es)\<rparr>))"

definition es_pop :: "'g evaluation_stack \<Rightarrow> ('e, 'g stack_value \<times> 'g evaluation_stack) outcome" where
  "es_pop es =
     (if stack es = [] then Panic else Ok (last (stack es), es\<lparr>stack := butlast (stack es)\<rparr>))"

text \<open>The typed pops panic on an empty stack and on a value of another kind.\<close>

definition es_pop_as ::
    "('g stack_value \<Rightarrow> (execution_error, 'a) outcome) \<Rightarrow> 'g evaluation_stack \<Rightarrow> ('e, 'a \<times> 'g evaluation_stack) outcome" where
  "es_pop_as conv es = and_then (es_pop es) (\<lambda>(v, es'). map_outcome (\<lambda>a. (a, es')) (or_panic (conv v)))"

definition es_pop_i32 :: "'g evaluation_stack \<Rightarrow> ('e, i32 \<times> 'g evaluation_stack) outcome" where
  "es_pop_i32 = es_pop_as try_as_i32"

definition es_pop_i64 :: "'g evaluation_stack \<Rightarrow> ('e, i64 \<times> 'g evaluation_stack) outcome" where
  "es_pop_i64 = es_pop_as try_as_i64"

definition es_pop_f64 :: "'g evaluation_stack \<Rightarrow> ('e, f64 \<times> 'g evaluation_stack) outcome" where
  "es_pop_f64 = es_pop_as try_as_f64"

definition es_pop_isize :: "'g evaluation_stack \<Rightarrow> ('e, isize \<times> 'g evaluation_stack) outcome" where
  "es_pop_isize = es_pop_as try_as_isize"

definition es_pop_obj :: "'g evaluation_stack \<Rightarrow> ('e, object_ref \<times> 'g evaluation_stack) outcome" where
  "es_pop_obj = es_pop_as try_as_object_ref"

definition es_pop_managed_ptr :: "'g evaluation_stack \<Rightarrow> ('e, 'g managed_ptr \<times> 'g evaluation_stack) outcome" where
  "es_pop_managed_ptr = es_pop_as try_as_managed_ptr"

definition es_pop_value_type :: "'g evaluation_stack \<Rightarrow> ('e, 'g vm_object \<times> 'g evaluation_stack) outcome" where
  "es_pop_value_type = es_pop_as try_as_value_type"

definition copy_slots_into :: "nat \<Rightarrow> nat \<Rightarrow> 'g evaluation_stack \<Rightarrow> ('e, 'g stack_value list) outcome" where
  "copy_slots_into start count es =
     and_then (uadd start count) (\<lambda>e.
       if e \<le> length (stack es) then Ok (take count (drop start (stack es))) else Panic)"

definition peek_stack :: "'g evaluation_stack \<Rightarrow> ('e, 'g stack_value) outcome" where
  "peek_stack es = (if stack es = [] then Panic else Ok (last (stack es)))"

definition get_slot :: "nat \<Rightarrow> 'g evaluation_stack \<Rightarrow> ('e, 'g stack_value) outcome" where
  "get_slot i es = (if i < length (stack es) then Ok (stack es ! i) else Panic)"

definition peek_stack_at :: "nat \<Rightarrow> 'g evaluation_stack \<Rightarrow> ('e, 'g stack_value) outcome" where
  "peek_stack_at off es =
     and_then (usub (length (stack es)) 1) (\<lambda>n. and_then (usub n off) (\<lambda>i. get_slot i es))"

definition set_slot :: "nat \<Rightarrow> 'g stack_value \<Rightarrow> 'g evaluation_stack \<Rightarrow> ('e, 'g evaluation_stack) outcome" where
  "set_slot i v es = (if i < length (stack es) then Ok (es\<lparr>stack := (stack es)[i := v]\<rparr>) else Panic)"

definition es_truncate :: "nat \<Rightarrow> 'g evaluation_stack \<Rightarrow> 'g evaluation_stack" where
  "es_truncate n es = es\<lparr>stack := take n (stack es)\<rparr>"

definition set_slot_at :: "nat \<Rightarrow> 'g stack_value \<Rightarrow> 'g evaluation_stack \<Rightarrow> ('e, 'g evaluation_stack) outcome" where
  "set_slot_at i v es =
     (if i < length (stack es) then set_slot i v es
      else Ok (es\<lparr>stack := stack es @ replicate (i - length (stack es)) stack_null @ [v]\<rparr>))"

definition es_clear :: "'g evaluation_stack \<Rightarrow> 'g evaluation_stack" where
  "es_clear es = \<lparr>stack = [], suspended_stack = []\<rparr>"

definition es_clear_suspended :: "'g evaluation_stack \<Rightarrow> 'g evaluation_stack" where
  "es_clear_suspended es = es\<lparr>suspended_stack := []\<rparr>"

definition es_suspend_above :: "nat \<Rightarrow> 'g evaluation_stack \<Rightarrow> ('e, 'g evaluation_stack) outcome" where
  "es_suspend_above i es =
     (if i \<le> length (stack es)
      then Ok \<lparr>stack = take i (stack es), suspended_stack = drop i (stack es)\<rparr> else Panic)"

definition es_restore_suspended :: "'g evaluation_stack \<Rightarrow> 'g evaluation_stack" where
  "es_restore_suspended es = \<lparr>stack = stack es @ suspended_stack es, suspended_stack = []\<rparr>"

section \<open>The frame stack\<close>

definition stackframe_pool_limit :: nat where
  "stackframe_pool_limit = 64"

record ('g, 'c, 'r) frame_stack =
  frames :: "('g, 'c, 'r) stack_frame list"
  suspended_frames :: "('g, 'c, 'r) stack_frame list"
  pooled_frames :: "('g, 'c, 'r) stack_frame list"
  last_home_serial :: u64

definition frame_stack_new :: "('g, 'c, 'r) frame_stack" where
  "frame_stack_new = \<lparr>frames = [], suspended_frames = [], pooled_frames = [], last_home_serial = 0\<rparr>"

definition push_frame ::
    "base_pointer \<Rightarrow> ('g, 'c) method_info \<Rightarrow> 'g \<Rightarrow> bool list \<Rightarrow> ('g, 'c, 'r) frame_stack \<Rightarrow> alloc_thread \<Rightarrow>
     ('e, ('g, 'c, 'r) frame_stack \<times> alloc_thread) outcome" where
  "push_frame bp info gens pinned fs th =
     (if pooled_frames fs = [] then
        Ok (fs\<lparr>frames := frames fs @ [stack_frame_new bp info gens pinned]\<rparr>, th)
      else
        map_outcome (\<lambda>(f, th'). (fs\<lparr>pooled_frames := butlast (pooled_frames fs), frames := frames fs @ [f]\<rparr>, th'))
          (reset_for_call bp info gens pinned (last (pooled_frames fs)) th))"

definition fs_pop :: "('g, 'c, 'r) frame_stack \<Rightarrow> (('g, 'c, 'r) stack_frame \<times> ('g, 'c, 'r) frame_stack) option" where
  "fs_pop fs = (if frames fs = [] then None else Some (last (frames fs), fs\<lparr>frames := butlast (frames fs)\<rparr>))"

definition issue_home_serial :: "('g, 'c, 'r) frame_stack \<Rightarrow> ('e, u64 \<times> ('g, 'c, 'r) frame_stack) outcome" where
  "issue_home_serial fs =
     map_outcome (\<lambda>s. (s, fs\<lparr>last_home_serial := s\<rparr>)) (frame_home_serial_next (last_home_serial fs))"

fun find_map :: "('a \<Rightarrow> 'b option) \<Rightarrow> 'a list \<Rightarrow> 'b option" where
  "find_map f [] = None"
| "find_map f (x # xs) = (case f x of Some y \<Rightarrow> Some y | None \<Rightarrow> find_map f xs)"

definition home_block_of :: "('g, 'c, 'r) frame_stack \<Rightarrow> u64 \<Rightarrow> (usize \<times> nat) option" where
  "home_block_of fs serial =
     find_map (\<lambda>f. block_for (homes f) serial) (rev (frames fs) @ rev (suspended_frames fs))"

definition fs_is_byref_home :: "('g, 'c, 'r) frame_stack \<Rightarrow> u64 \<Rightarrow> nat \<Rightarrow> bool" where
  "fs_is_byref_home fs serial off =
     list_ex (\<lambda>f. is_byref_home (homes f) serial off) (frames fs @ suspended_frames fs)"

text \<open>A frame that finds the pool full is dropped after it has been prepared.\<close>

definition recycle_frame ::
    "('g, 'c, 'r) stack_frame \<Rightarrow> ('g, 'c, 'r) frame_stack \<Rightarrow> alloc_thread \<Rightarrow>
     ('e, ('g, 'c, 'r) frame_stack \<times> alloc_thread) outcome" where
  "recycle_frame f fs th =
     and_then (prepare_for_pool f th) (\<lambda>(f', th').
       if length (pooled_frames fs) < stackframe_pool_limit
       then Ok (fs\<lparr>pooled_frames := pooled_frames fs @ [f']\<rparr>, th')
       else map_outcome (Pair fs) (drop_frame f' th'))"

definition current_frame :: "('g, 'c, 'r) frame_stack \<Rightarrow> ('e, ('g, 'c, 'r) stack_frame) outcome" where
  "current_frame fs = (if frames fs = [] then Panic else Ok (last (frames fs)))"

definition set_frame :: "nat \<Rightarrow> ('g, 'c, 'r) stack_frame \<Rightarrow> ('g, 'c, 'r) frame_stack \<Rightarrow> ('g, 'c, 'r) frame_stack" where
  "set_frame i f fs = fs\<lparr>frames := (frames fs)[i := f]\<rparr>"

definition frame_at :: "nat \<Rightarrow> ('g, 'c, 'r) frame_stack \<Rightarrow> ('e, ('g, 'c, 'r) stack_frame) outcome" where
  "frame_at i fs = (if i < length (frames fs) then Ok (frames fs ! i) else Panic)"

definition map_current ::
    "(('g, 'c, 'r) stack_frame \<Rightarrow> ('g, 'c, 'r) stack_frame) \<Rightarrow> ('g, 'c, 'r) frame_stack \<Rightarrow>
     ('e, ('g, 'c, 'r) frame_stack) outcome" where
  "map_current g fs =
     map_outcome (\<lambda>f. set_frame (length (frames fs) - 1) (g f) fs) (current_frame fs)"

definition branch :: "nat \<Rightarrow> ('g, 'c, 'r) frame_stack \<Rightarrow> ('e, ('g, 'c, 'r) frame_stack) outcome" where
  "branch target = map_current (\<lambda>f. f\<lparr>state := (state f)\<lparr>ip := target\<rparr>\<rparr>)"

definition conditional_branch ::
    "bool \<Rightarrow> nat \<Rightarrow> ('g, 'c, 'r) frame_stack \<Rightarrow> ('e, bool \<times> ('g, 'c, 'r) frame_stack) outcome" where
  "conditional_branch c target fs =
     (if c then map_outcome (Pair True) (branch target fs) else Ok (False, fs))"

definition increment_ip :: "('g, 'c, 'r) frame_stack \<Rightarrow> ('e, ('g, 'c, 'r) frame_stack) outcome" where
  "increment_ip fs = and_then (current_frame fs) (\<lambda>f. and_then (uadd (ip (state f)) 1) (\<lambda>n. branch n fs))"

definition fs_clear :: "('g, 'c, 'r) frame_stack \<Rightarrow> alloc_thread \<Rightarrow> ('e, ('g, 'c, 'r) frame_stack \<times> alloc_thread) outcome" where
  "fs_clear fs th =
     map_outcome (Pair (fs\<lparr>frames := [], suspended_frames := [], pooled_frames := []\<rparr>))
       (drop_frames (frames fs @ suspended_frames fs @ pooled_frames fs) th)"

definition fs_clear_suspended ::
    "('g, 'c, 'r) frame_stack \<Rightarrow> alloc_thread \<Rightarrow> ('e, ('g, 'c, 'r) frame_stack \<times> alloc_thread) outcome" where
  "fs_clear_suspended fs th =
     map_outcome (Pair (fs\<lparr>suspended_frames := []\<rparr>)) (drop_frames (suspended_frames fs) th)"

text \<open>Suspending replaces, and thereby drops, the frames suspended before.\<close>

definition fs_suspend_above ::
    "nat \<Rightarrow> ('g, 'c, 'r) frame_stack \<Rightarrow> alloc_thread \<Rightarrow> ('e, ('g, 'c, 'r) frame_stack \<times> alloc_thread) outcome" where
  "fs_suspend_above i fs th =
     and_then (uadd i 1) (\<lambda>n.
       if n \<le> length (frames fs)
       then map_outcome (Pair (fs\<lparr>frames := take n (frames fs), suspended_frames := drop n (frames fs)\<rparr>))
              (drop_frames (suspended_frames fs) th)
       else Panic)"

definition fs_restore_suspended :: "('g, 'c, 'r) frame_stack \<Rightarrow> ('g, 'c, 'r) frame_stack" where
  "fs_restore_suspended fs = fs\<lparr>frames := frames fs @ suspended_frames fs, suspended_frames := []\<rparr>"

section \<open>Frame storage of a thread\<close>

text \<open>
  Homes for a new frame (\<open>allocate_frame_homes\<close> of \<open>stack/call_ops_impl.rs\<close>), entering a frame with them,
  and the two ways code running in the current frame allocates from its ledger.
\<close>

definition allocate_frame_homes ::
    "host \<Rightarrow> ('g, 'c) method_info \<Rightarrow> ('g, 'c, 'r) frame_stack \<Rightarrow> alloc_thread \<Rightarrow>
     (type_resolution_error, 'g frame_homes \<times> ('g, 'c, 'r) frame_stack \<times> alloc_thread) outcome" where
  "allocate_frame_homes host info fs th =
     (case method_homes info of
        None \<Rightarrow> Ok (frame_homes_default, fs, th)
      | Some l \<Rightarrow>
          and_then (issue_home_serial fs) (\<lambda>(serial, fs').
            map_outcome (\<lambda>(hs, th'). (hs, fs', th'))
              (map_err (\<lambda>_. MassiveAllocation) (homes_allocate host th l serial))))"

definition enter_frame ::
    "host \<Rightarrow> base_pointer \<Rightarrow> ('g, 'c) method_info \<Rightarrow> 'g \<Rightarrow> bool list \<Rightarrow> ('g, 'c, 'r) frame_stack \<Rightarrow> alloc_thread \<Rightarrow>
     (type_resolution_error, ('g, 'c, 'r) frame_stack \<times> alloc_thread) outcome" where
  "enter_frame host bp info gens pinned fs th =
     and_then (allocate_frame_homes host info fs th) (\<lambda>(hs, fs1, th1).
     and_then (push_frame bp info gens pinned fs1 th1) (\<lambda>(fs2, th2).
       map_outcome (\<lambda>fs3. (fs3, th2)) (map_current (\<lambda>f. f\<lparr>homes := hs\<rparr>) fs2)))"

definition localloc ::
    "host \<Rightarrow> nat \<Rightarrow> ('g, 'c, 'r) frame_stack \<Rightarrow> alloc_thread \<Rightarrow>
     (frame_allocation_error, usize \<times> ('g, 'c, 'r) frame_stack \<times> alloc_thread) outcome" where
  "localloc host sz fs th =
     and_then (current_frame fs) (\<lambda>f.
     and_then (frame_allocate host th (allocations (state f)) sz) (\<lambda>(a, fa, th').
       map_outcome (\<lambda>fs'. (a, fs', th')) (map_current (\<lambda>f. f\<lparr>state := (state f)\<lparr>allocations := fa\<rparr>\<rparr>) fs)))"

definition temporary_home ::
    "host \<Rightarrow> 'g frame_home_layout \<Rightarrow> ('g, 'c, 'r) frame_stack \<Rightarrow> alloc_thread \<Rightarrow>
     (frame_allocation_error, (usize \<times> u64) \<times> ('g, 'c, 'r) frame_stack \<times> alloc_thread) outcome" where
  "temporary_home host l fs th =
     and_then (issue_home_serial fs) (\<lambda>(serial, fs1).
     and_then (current_frame fs1) (\<lambda>f.
     and_then (allocate_temporary host th (homes f) l serial (allocations (state f))) (\<lambda>(a, hs, fa, th').
       map_outcome (\<lambda>fs2. ((a, serial), fs2, th'))
         (map_current (\<lambda>f. f\<lparr>homes := hs, state := (state f)\<lparr>allocations := fa\<rparr>\<rparr>) fs1))))"

definition pop_and_recycle ::
    "('g, 'c, 'r) frame_stack \<Rightarrow> alloc_thread \<Rightarrow> ('e, bool \<times> ('g, 'c, 'r) frame_stack \<times> alloc_thread) outcome" where
  "pop_and_recycle fs th =
     (case fs_pop fs of
        None \<Rightarrow> Ok (False, fs, th)
      | Some (f, fs') \<Rightarrow> map_outcome (Pair True) (recycle_frame f fs' th))"

end
