(* ===== verification/Statics.thy ===== *)
theory Statics
  imports Layouts Errors
begin

text \<open>
  Static storage and type initialisation (\<open>dotnet-vm/src/statics.rs\<close> and \<open>initialize_static_storage\<close> of
  \<open>stack/context_ops.rs\<close>): the storage image of a type's static fields, the state machine that gives the
  static constructor to one thread, and the wait graph that breaks initialisation cycles between threads.
  A key is a type with its generic arguments. Each critical section and each load of the wait loop is one
  step, so that every interleaving of the threads is a run; loads and stores are sequentially consistent. The
  unlocked checks of \<open>init\<close> are one step: what they decide after the load of the state depends only on the
  thread's own writes, and on a compare-and-swap for types without a constructor.
\<close>

section \<open>Storage images\<close>

text \<open>
  The zeroed image of the layout with the initial data of the fields copied in. A field is its name and
  the bytes the metadata gives for it.
\<close>

definition seed_field ::
    "'td \<Rightarrow> 'td field_layout_manager \<Rightarrow> string \<times> u8 list option \<Rightarrow> u8 list \<Rightarrow> ('e, u8 list) outcome" where
  "seed_field description m = (\<lambda>(nm, initial) data.
     case initial of
       None \<Rightarrow> Ok data
     | Some initial_data \<Rightarrow>
         (case get_field m description nm of
            None \<Rightarrow> Ok data
          | Some fl \<Rightarrow>
              and_then (layout_size (layout fl)) (\<lambda>field_size.
                let copy_len = min field_size (length initial_data) in
                if copy_len = 0 then Ok data
                else and_then (uadd (position fl) copy_len) (\<lambda>dst_end.
                  if dst_end \<le> length data
                  then Ok (take (position fl) data @ take copy_len initial_data @ drop dst_end data)
                  else Panic))))"

definition static_image ::
    "'td \<Rightarrow> (string \<times> u8 list option) list \<Rightarrow> 'td field_layout_manager \<Rightarrow> ('e, u8 list) outcome" where
  "static_image description fs m = fold_outcome (seed_field description m) fs (replicate (total_size m) 0)"

section \<open>The state\<close>

definition init_state_uninitialized :: u8 where "init_state_uninitialized = 0"
definition init_state_initializing :: u8 where "init_state_initializing = 1"
definition init_state_initialized :: u8 where "init_state_initialized = 2"
definition init_state_failed :: u8 where "init_state_failed = 3"

lemmas init_states = init_state_uninitialized_def init_state_initializing_def
  init_state_initialized_def init_state_failed_def

record static_storage =
  init_state :: u8
  initializing_thread :: u64
  storage :: "u8 list"

record 'k statics =
  storages :: "'k \<Rightarrow> static_storage option"
  wait_graph :: "u64 \<Rightarrow> u64 option"

definition statics_new :: "'k statics" where
  "statics_new = \<lparr>storages = (\<lambda>_. None), wait_graph = (\<lambda>_. None)\<rparr>"

datatype static_init_result = Execute | Initialized | Recursive | Failed | Waiting

text \<open>What initialisation needs of the metadata: the image of a type and whether it has a constructor.\<close>

record 'k static_env =
  image_of :: "'k \<Rightarrow> (type_resolution_error, u8 list) outcome"
  static_initializer :: "'k \<Rightarrow> bool"

definition get_storage :: "'k statics \<Rightarrow> 'k \<Rightarrow> ('e, static_storage) outcome" where
  "get_storage st k = (case storages st k of Some s \<Rightarrow> Ok s | None \<Rightarrow> Panic)"

definition get_init_state :: "'k statics \<Rightarrow> 'k \<Rightarrow> u8" where
  "get_init_state st k =
     (case storages st k of Some s \<Rightarrow> init_state s | None \<Rightarrow> init_state_uninitialized)"

definition finish_init :: "u8 \<Rightarrow> 'k statics \<Rightarrow> 'k \<Rightarrow> 'k statics" where
  "finish_init state st k =
     (case storages st k of
        None \<Rightarrow> st
      | Some s \<Rightarrow> st\<lparr>storages := (storages st)(k \<mapsto> s\<lparr>init_state := state, initializing_thread := 0\<rparr>)\<rparr>)"

definition mark_failed :: "'k statics \<Rightarrow> 'k \<Rightarrow> 'k statics" where
  "mark_failed = finish_init init_state_failed"

definition mark_initialized :: "'k statics \<Rightarrow> 'k \<Rightarrow> 'k statics" where
  "mark_initialized = finish_init init_state_initialized"

section \<open>Initialisation\<close>

definition ensure_storage ::
    "'k static_env \<Rightarrow> 'k statics \<Rightarrow> 'k \<Rightarrow> (type_resolution_error, 'k statics) outcome" where
  "ensure_storage env st k =
     (if storages st k \<noteq> None then Ok st
      else map_outcome (\<lambda>data. st\<lparr>storages := (storages st)(k \<mapsto>
             \<lparr>init_state = init_state_uninitialized, initializing_thread = 0, storage = data\<rparr>)\<rparr>)
             (image_of env k))"

text \<open>The unlocked part of \<open>init\<close>: a result, or \<open>None\<close> when the constructor lock has to be taken.\<close>

definition init_check ::
    "'k static_env \<Rightarrow> 'k statics \<Rightarrow> 'k \<Rightarrow> u64 \<Rightarrow>
     (type_resolution_error, static_init_result option \<times> 'k statics) outcome" where
  "init_check env st0 k t =
     and_then (ensure_storage env st0 k) (\<lambda>st.
     and_then (get_storage st k) (\<lambda>s.
       if init_state s = init_state_initialized then Ok (Some Initialized, st)
       else if init_state s = init_state_failed then Ok (Some Failed, st)
       else if init_state s = init_state_initializing \<and> initializing_thread s = t then Ok (Some Recursive, st)
       else if \<not> static_initializer env k then
         Ok (Some Initialized,
             if init_state s = init_state_uninitialized
             then st\<lparr>storages := (storages st)(k \<mapsto> s\<lparr>init_state := init_state_initialized\<rparr>)\<rparr> else st)
       else Ok (None, st)))"

text \<open>Following the wait graph may in principle not end: then there is no result.\<close>

partial_function (option) causes_cycle :: "(u64 \<Rightarrow> u64 option) \<Rightarrow> u64 \<Rightarrow> u64 \<Rightarrow> bool option" where
  "causes_cycle graph start current =
     (case graph current of
        None \<Rightarrow> Some False
      | Some next \<Rightarrow> if next = start then Some True else causes_cycle graph start next)"

text \<open>The part of \<open>init\<close> under the constructor lock.\<close>

definition init_locked ::
    "'k statics \<Rightarrow> 'k \<Rightarrow> u64 \<Rightarrow> (type_resolution_error, static_init_result \<times> 'k statics) outcome option" where
  "init_locked st k t =
     (case storages st k of
        None \<Rightarrow> Some Panic
      | Some s \<Rightarrow>
          if init_state s = init_state_uninitialized then
            Some (Ok (Execute, st\<lparr>storages := (storages st)(k \<mapsto>
              s\<lparr>init_state := init_state_initializing, initializing_thread := t\<rparr>)\<rparr>))
          else if init_state s = init_state_initialized then Some (Ok (Initialized, st))
          else if init_state s = init_state_failed then Some (Ok (Failed, st))
          else if init_state s = init_state_initializing then
            (let target = initializing_thread s in
             if target \<noteq> 0 then
               Option.bind (causes_cycle (wait_graph st) t target) (\<lambda>cycle.
                 if cycle then Some (Ok (Recursive, st))
                 else Some (Ok (Waiting, st\<lparr>wait_graph := (wait_graph st)(t \<mapsto> target)\<rparr>)))
             else Some (Ok (Waiting, st)))
          else Some Panic)"

section \<open>Waiting\<close>

definition edge_update :: "'k statics \<Rightarrow> u64 \<Rightarrow> u64 \<Rightarrow> 'k statics" where
  "edge_update st waiter target =
     (if target = 0 \<or> target = waiter then st
      else st\<lparr>wait_graph := (wait_graph st)(waiter \<mapsto> target)\<rparr>)"

definition edge_drop :: "'k statics \<Rightarrow> u64 \<Rightarrow> 'k statics" where
  "edge_drop st waiter = st\<lparr>wait_graph := (wait_graph st)(waiter := None)\<rparr>"

text \<open>
  Where a thread is between two steps: outside initialisation, before the constructor lock, in the wait
  loop (before the state load, before the load of the target, before the edge update, before the stop
  check and wait), or past the loop without a yield.
\<close>

datatype 'k init_phase =
    Outside | Locking 'k | Polling 'k | Reading 'k | Updating 'k u64 | Pausing 'k | Rechecking 'k

fun wait_step :: "bool \<Rightarrow> u64 \<Rightarrow> 'k init_phase \<Rightarrow> 'k statics \<Rightarrow> ('e, 'k init_phase \<times> 'k statics) outcome" where
  "wait_step stop t (Polling k) st =
     and_then (get_storage st k) (\<lambda>s.
       if init_state s \<noteq> init_state_initializing then Ok (Rechecking k, edge_drop st t)
       else Ok (Reading k, st))"
| "wait_step stop t (Reading k) st =
     and_then (get_storage st k) (\<lambda>s. Ok (Updating k (initializing_thread s), st))"
| "wait_step stop t (Updating k target) st = Ok (Pausing k, edge_update st t target)"
| "wait_step stop t (Pausing k) st =
     (if stop then Ok (Outside, edge_drop st t)
      else and_then (get_storage st k) (\<lambda>s.
        if init_state s \<noteq> init_state_initializing then Ok (Rechecking k, edge_drop st t)
        else Ok (Polling k, st)))"
| "wait_step stop t ph st = Ok (ph, st)"

text \<open>The check after the wait: continue, or throw because the constructor failed.\<close>

datatype recheck_result = Continue | ThrowTypeInitialization

definition recheck :: "'k statics \<Rightarrow> 'k \<Rightarrow> ('e, recheck_result) outcome" where
  "recheck st k =
     (let state = get_init_state st k in
      if state = init_state_initialized then Ok Continue
      else if state = init_state_failed then Ok ThrowTypeInitialization
      else Panic)"

section \<open>The initialisation system\<close>

text \<open>
  The threads of the machine over one static table. \<open>executed\<close> counts how often a type's constructor has
  been handed to a thread. A constructor ends, well or badly, in the thread that runs it.
\<close>

record 'k init_system =
  table :: "'k statics"
  phases :: "u64 \<Rightarrow> 'k init_phase"
  executed :: "'k \<Rightarrow> nat"

definition init_system_new :: "'k init_system" where
  "init_system_new = \<lparr>table = statics_new, phases = (\<lambda>_. Outside), executed = (\<lambda>_. 0)\<rparr>"

definition waiting_at :: "'k init_phase \<Rightarrow> 'k option" where
  "waiting_at ph = (case ph of Polling k \<Rightarrow> Some k | Reading k \<Rightarrow> Some k | Updating k _ \<Rightarrow> Some k
     | Pausing k \<Rightarrow> Some k | _ \<Rightarrow> None)"

inductive init_step :: "'k static_env \<Rightarrow> 'k init_system \<Rightarrow> 'k init_system \<Rightarrow> bool" for env where
  check: "t \<noteq> 0 \<Longrightarrow> phases sys t = Outside \<Longrightarrow> init_check env (table sys) k t = Ok (r, st) \<Longrightarrow>
    init_step env sys (sys\<lparr>table := st,
      phases := (phases sys)(t := case r of None \<Rightarrow> Locking k | Some _ \<Rightarrow> Outside)\<rparr>)"
| lock: "phases sys t = Locking k \<Longrightarrow> init_locked (table sys) k t = Some (Ok (r, st)) \<Longrightarrow>
    init_step env sys (sys\<lparr>table := st,
      phases := (phases sys)(t := if r = Waiting then Polling k else Outside),
      executed := (if r = Execute then (executed sys)(k := executed sys k + 1) else executed sys)\<rparr>)"
| wait: "waiting_at (phases sys t) = Some k \<Longrightarrow>
    wait_step stop t (phases sys t) (table sys) = (Ok (ph, st) :: (unit, _) outcome) \<Longrightarrow>
    init_step env sys (sys\<lparr>table := st, phases := (phases sys)(t := ph)\<rparr>)"
| resume: "phases sys t = Rechecking k \<Longrightarrow>
    init_step env sys (sys\<lparr>phases := (phases sys)(t := Outside)\<rparr>)"
| finish: "phases sys t = Outside \<Longrightarrow> storages (table sys) k = Some s \<Longrightarrow>
    init_state s = init_state_initializing \<Longrightarrow> initializing_thread s = t \<Longrightarrow>
    st = mark_initialized (table sys) k \<or> st = mark_failed (table sys) k \<Longrightarrow>
    init_step env sys (sys\<lparr>table := st\<rparr>)"

definition init_reachable :: "'k static_env \<Rightarrow> 'k init_system \<Rightarrow> bool" where
  "init_reachable env sys \<longleftrightarrow> (init_step env)\<^sup>*\<^sup>* init_system_new sys"

section \<open>Following the wait graph ends\<close>

definition edges :: "(u64 \<Rightarrow> u64 option) \<Rightarrow> (u64 \<times> u64) set" where
  "edges g = {(a, b). g a = Some b}"

lemma finite_edges: "finite (edges g)"
  by (rule finite_subset [OF subset_UNIV]) simp

lemma causes_cycle_sound:
  assumes "acyclic (edges g)"
  shows "causes_cycle g start current = Some ((current, start) \<in> (edges g)\<^sup>+)"
proof -
  have "wf ((edges g)\<inverse>)" using finite_acyclic_wf_converse [OF finite_edges assms] .
  then show ?thesis
  proof (induction current rule: wf_induct_rule)
    case (less c)
    show ?case
    proof (cases "g c")
      case None
      then have "(c, start) \<notin> (edges g)\<^sup>+" by (auto simp: edges_def dest: tranclD)
      with None show ?thesis by (subst causes_cycle.simps) simp
    next
      case (Some n)
      then have e: "(c, n) \<in> edges g" by (simp add: edges_def)
      have "(c, start) \<in> (edges g)\<^sup>+ \<longleftrightarrow> n = start \<or> (n, start) \<in> (edges g)\<^sup>+"
      proof
        assume "(c, start) \<in> (edges g)\<^sup>+"
        then obtain z where "(c, z) \<in> edges g" "(z, start) \<in> (edges g)\<^sup>*" by (auto dest: tranclD)
        with Some show "n = start \<or> (n, start) \<in> (edges g)\<^sup>+"
          by (auto simp: edges_def rtrancl_eq_or_trancl)
      qed (use e in \<open>auto intro: trancl_into_trancl2\<close>)
      moreover have "causes_cycle g start n = Some ((n, start) \<in> (edges g)\<^sup>+)"
        using less.IH [of n] e by simp
      ultimately show ?thesis using Some by (subst causes_cycle.simps) simp
    qed
  qed
qed

lemma acyclic_edges_upd:
  assumes "acyclic (edges g)" "target \<noteq> start" "(target, start) \<notin> (edges g)\<^sup>+"
  shows "acyclic (edges (g(start \<mapsto> target)))"
proof -
  have "edges (g(start \<mapsto> target)) \<subseteq> insert (start, target) (edges g)"
    by (auto simp: edges_def split: if_splits)
  moreover have "acyclic (insert (start, target) (edges g))"
    using assms by (auto simp: acyclic_insert rtrancl_eq_or_trancl)
  ultimately show ?thesis by (rule acyclic_subset [rotated])
qed

lemma acyclic_edges_drop: "acyclic (edges g) \<Longrightarrow> acyclic (edges (g(t := None)))"
  by (erule acyclic_subset) (auto simp: edges_def split: if_splits)

section \<open>The invariant\<close>

definition storage_ok :: "static_storage \<Rightarrow> bool" where
  "storage_ok s \<longleftrightarrow> (init_state s = init_state_initializing \<longleftrightarrow> initializing_thread s \<noteq> 0) \<and>
     init_state s \<in> {init_state_uninitialized, init_state_initializing, init_state_initialized, init_state_failed}"

definition waits_on :: "'k statics \<Rightarrow> u64 \<Rightarrow> 'k \<Rightarrow> u64 \<Rightarrow> bool" where
  "waits_on st t k u \<longleftrightarrow> wait_graph st t = Some u \<and> u \<noteq> t \<and>
     (\<exists>s. storages st k = Some s \<and> init_state s \<noteq> init_state_uninitialized \<and> initializing_thread s \<in> {0, u})"

fun phase_inv :: "'k static_env \<Rightarrow> 'k statics \<Rightarrow> u64 \<Rightarrow> 'k init_phase \<Rightarrow> bool" where
  "phase_inv env st t Outside \<longleftrightarrow> wait_graph st t = None"
| "phase_inv env st t (Rechecking k) \<longleftrightarrow> wait_graph st t = None \<and>
     get_init_state st k \<in> {init_state_initialized, init_state_failed}"
| "phase_inv env st t (Locking k) \<longleftrightarrow> t \<noteq> 0 \<and> wait_graph st t = None \<and> static_initializer env k \<and>
     (\<exists>s. storages st k = Some s \<and> initializing_thread s \<noteq> t)"
| "phase_inv env st t (Polling k) \<longleftrightarrow> (\<exists>u. waits_on st t k u)"
| "phase_inv env st t (Reading k) \<longleftrightarrow> (\<exists>u. waits_on st t k u)"
| "phase_inv env st t (Updating k target) \<longleftrightarrow> (\<exists>u. waits_on st t k u \<and> target \<in> {0, u})"
| "phase_inv env st t (Pausing k) \<longleftrightarrow> (\<exists>u. waits_on st t k u)"

definition table_inv :: "'k statics \<Rightarrow> bool" where
  "table_inv st \<longleftrightarrow> (\<forall>k s. storages st k = Some s \<longrightarrow> storage_ok s) \<and> acyclic (edges (wait_graph st))"

definition count_inv :: "'k static_env \<Rightarrow> 'k statics \<Rightarrow> ('k \<Rightarrow> nat) \<Rightarrow> bool" where
  "count_inv env st ex \<longleftrightarrow> (\<forall>k. ex k =
     (if static_initializer env k \<and> get_init_state st k \<noteq> init_state_uninitialized then 1 else 0))"

definition system_inv :: "'k static_env \<Rightarrow> 'k init_system \<Rightarrow> bool" where
  "system_inv env sys \<longleftrightarrow> table_inv (table sys) \<and> (\<forall>t. phase_inv env (table sys) t (phases sys t)) \<and>
     count_inv env (table sys) (executed sys)"

text \<open>What a step of thread \<open>t\<close> may do to a storage another thread looks at.\<close>

definition storage_evolves :: "u64 \<Rightarrow> static_storage \<Rightarrow> static_storage \<Rightarrow> bool" where
  "storage_evolves t s s' \<longleftrightarrow>
     initializing_thread s' \<in> {initializing_thread s, 0, t} \<and>
     (init_state s \<noteq> init_state_uninitialized \<longrightarrow> init_state s' \<noteq> init_state_uninitialized \<and>
        initializing_thread s' \<in> {initializing_thread s, 0}) \<and>
     (init_state s \<in> {init_state_initialized, init_state_failed} \<longrightarrow> init_state s' = init_state s)"

definition evolves :: "u64 \<Rightarrow> 'k statics \<Rightarrow> 'k statics \<Rightarrow> bool" where
  "evolves t st st' \<longleftrightarrow> (\<forall>u. u \<noteq> t \<longrightarrow> wait_graph st' u = wait_graph st u) \<and>
     (\<forall>k s. storages st k = Some s \<longrightarrow> (\<exists>s'. storages st' k = Some s' \<and> storage_evolves t s s'))"

lemma storage_evolves_refl [simp]: "storage_evolves t s s"
  by (simp add: storage_evolves_def)

lemma evolves_refl [simp]: "evolves t st st"
  by (simp add: evolves_def)

lemma evolves_storage_upd:
  assumes "\<And>s. storages st k = Some s \<Longrightarrow> storage_evolves t s s'"
  shows "evolves t st (st\<lparr>storages := (storages st)(k \<mapsto> s')\<rparr>)"
  using assms by (auto simp: evolves_def)

lemma evolves_graph_upd: "evolves t st (st\<lparr>wait_graph := (wait_graph st)(t := x)\<rparr>)"
  by (simp add: evolves_def)

lemma evolves_trans: "evolves t a b \<Longrightarrow> evolves t b c \<Longrightarrow> evolves t a c"
  unfolding evolves_def storage_evolves_def by (smt (verit) insert_iff empty_iff)

lemma evolvesE:
  assumes "evolves t st st'" "storages st k = Some s"
  obtains s' where "storages st' k = Some s'" "storage_evolves t s s'"
  using assms unfolding evolves_def by blast

lemma waits_on_frame:
  assumes "evolves t st st'" "u \<noteq> t" "waits_on st u k w"
  shows "waits_on st' u k w"
proof -
  obtain s where s: "storages st k = Some s" "init_state s \<noteq> init_state_uninitialized"
      "initializing_thread s \<in> {0, w}" "wait_graph st u = Some w" "w \<noteq> u"
    using assms(3) by (auto simp: waits_on_def)
  moreover obtain s' where "storages st' k = Some s'" "storage_evolves t s s'"
    using assms(1) s(1) by (rule evolvesE)
  moreover have "wait_graph st' u = Some w" using s(4) assms(1,2) by (auto simp: evolves_def)
  ultimately show ?thesis by (auto simp: waits_on_def storage_evolves_def)
qed

lemma phase_inv_frame:
  assumes "evolves t st st'" "u \<noteq> t" "phase_inv env st u ph"
  shows "phase_inv env st' u ph"
proof (cases ph)
  case (Rechecking k)
  then obtain s where s: "storages st k = Some s" "init_state s \<in> {init_state_initialized, init_state_failed}"
    using assms(3) by (auto simp: get_init_state_def init_states split: option.splits)
  obtain s' where "storages st' k = Some s'" "storage_evolves t s s'" using assms(1) s(1) by (rule evolvesE)
  with s Rechecking assms show ?thesis by (auto simp: get_init_state_def storage_evolves_def evolves_def)
next
  case (Locking k)
  then obtain s where s: "storages st k = Some s" "initializing_thread s \<noteq> u" using assms(3) by auto
  obtain s' where "storages st' k = Some s'" "storage_evolves t s s'" using assms(1) s(1) by (rule evolvesE)
  with s Locking assms show ?thesis by (auto simp: storage_evolves_def evolves_def)
qed (use assms waits_on_frame [OF assms(1,2)] in \<open>auto simp: evolves_def\<close>)

section \<open>The operations preserve it\<close>

definition same_progress :: "'k static_env \<Rightarrow> 'k statics \<Rightarrow> 'k statics \<Rightarrow> bool" where
  "same_progress env st st' \<longleftrightarrow> (\<forall>k. static_initializer env k \<longrightarrow>
     (get_init_state st' k = init_state_uninitialized \<longleftrightarrow> get_init_state st k = init_state_uninitialized))"

lemma count_inv_same: "count_inv env st ex \<Longrightarrow> same_progress env st st' \<Longrightarrow> count_inv env st' ex"
  by (auto simp: count_inv_def same_progress_def)

lemma ensure_storage_inv:
  assumes "table_inv st" "ensure_storage env st k = Ok st'"
  shows "table_inv st' \<and> evolves t st st' \<and> wait_graph st' = wait_graph st \<and> same_progress env st st' \<and>
    storages st' k \<noteq> None"
proof (cases "storages st k")
  case (Some s)
  then show ?thesis using assms by (auto simp: ensure_storage_def same_progress_def)
next
  case None
  then obtain data where st': "st' = st\<lparr>storages := (storages st)(k \<mapsto>
      \<lparr>init_state = init_state_uninitialized, initializing_thread = 0, storage = data\<rparr>)\<rparr>"
    using assms(2) by (auto simp: ensure_storage_def outcome_simps)
  have "evolves t st st'" unfolding st' using None by (intro evolves_storage_upd) auto
  with None assms(1) show ?thesis
    by (auto simp: st' table_inv_def storage_ok_def same_progress_def get_init_state_def init_states)
qed

lemma init_check_inv:
  assumes "table_inv st0" "t \<noteq> 0" "init_check env st0 k t = Ok (r, st)"
  shows "table_inv st \<and> evolves t st0 st \<and> wait_graph st = wait_graph st0 \<and> same_progress env st0 st \<and>
    (r = None \<longrightarrow> static_initializer env k \<and> (\<exists>s. storages st k = Some s \<and> initializing_thread s \<noteq> t))"
proof -
  obtain st1 s where e: "ensure_storage env st0 k = Ok st1" and s: "storages st1 k = Some s"
    using assms(3) by (auto simp: init_check_def outcome_simps get_storage_def split: option.splits)
  note inv = ensure_storage_inv [OF assms(1) e, of t]
  have ok: "storage_ok s" using inv s by (auto simp: table_inv_def)
  show ?thesis
  proof (cases "st = st1")
    case True
    have "r = None \<longrightarrow> static_initializer env k \<and> initializing_thread s \<noteq> t"
      using assms(2,3) e s ok by (auto simp: init_check_def get_storage_def storage_ok_def split: if_splits)
    with True s inv show ?thesis by blast
  next
    case False
    then have r: "r \<noteq> None" "\<not> static_initializer env k" "init_state s = init_state_uninitialized"
      and st: "st = st1\<lparr>storages := (storages st1)(k \<mapsto> s\<lparr>init_state := init_state_initialized\<rparr>)\<rparr>"
      using assms(3) e s by (auto simp: init_check_def get_storage_def split: if_splits)
    have "evolves t st1 st" unfolding st
      using r(3) s by (intro evolves_storage_upd) (auto simp: storage_evolves_def init_states)
    moreover have "table_inv st" "same_progress env st1 st"
      using inv ok r s unfolding st
      by (auto simp: table_inv_def storage_ok_def same_progress_def get_init_state_def init_states)
    ultimately show ?thesis
      using inv r(1) st evolves_trans by (auto simp: same_progress_def)
  qed
qed

lemma init_locked_inv:
  assumes "table_inv st0" "phase_inv env st0 t (Locking k)" "init_locked st0 k t = Some (Ok (r, st))"
  shows "table_inv st \<and> evolves t st0 st \<and>
    phase_inv env st t (if r = Waiting then Polling k else Outside) \<and>
    (r = Execute \<longrightarrow> get_init_state st0 k = init_state_uninitialized \<and>
       get_init_state st k = init_state_initializing \<and> (\<forall>j. j \<noteq> k \<longrightarrow> get_init_state st j = get_init_state st0 j)) \<and>
    (r \<noteq> Execute \<longrightarrow> storages st = storages st0)"
proof -
  obtain s where s: "storages st0 k = Some s" "initializing_thread s \<noteq> t" and t: "t \<noteq> 0" "wait_graph st0 t = None"
    using assms(2) by auto
  have ok: "storage_ok s" "acyclic (edges (wait_graph st0))" using assms(1) s by (auto simp: table_inv_def)
  show ?thesis
  proof (cases "init_state s = init_state_initializing")
    case True
    then have tgt: "initializing_thread s \<noteq> 0" using ok(1) by (simp add: storage_ok_def)
    note cyc = causes_cycle_sound [OF ok(2), of t "initializing_thread s"]
    show ?thesis
    proof (cases "r = Waiting")
      case True2: True
      then have st: "st = st0\<lparr>wait_graph := (wait_graph st0)(t \<mapsto> initializing_thread s)\<rparr>"
        and nc: "(initializing_thread s, t) \<notin> (edges (wait_graph st0))\<^sup>+"
        using assms(3) s(1) True tgt cyc by (auto simp: init_locked_def init_states Let_def split: if_splits)
      have "acyclic (edges (wait_graph st))" unfolding st using acyclic_edges_upd [OF ok(2) s(2) nc] by simp
      moreover have "evolves t st0 st" unfolding st by (rule evolves_graph_upd)
      ultimately show ?thesis
        using True2 assms(1) s True by (auto simp: st table_inv_def waits_on_def init_states)
    next
      case False
      then have "r = Recursive" "st = st0"
        using assms(3) s(1) True tgt cyc by (auto simp: init_locked_def init_states Let_def split: if_splits)
      with assms(1) t show ?thesis by simp
    qed
  next
    case False
    show ?thesis
    proof (cases "init_state s = init_state_uninitialized")
      case True
      have r: "r = Execute" and st: "st = st0\<lparr>storages := (storages st0)(k \<mapsto>
            s\<lparr>init_state := init_state_initializing, initializing_thread := t\<rparr>)\<rparr>"
        using assms(3) s(1) True by (auto simp: init_locked_def)
      have "evolves t st0 st" unfolding st
        using True s(1) by (intro evolves_storage_upd) (auto simp: storage_evolves_def init_states)
      with r True assms(1) s t show ?thesis
        by (auto simp: st table_inv_def storage_ok_def get_init_state_def init_states)
    next
      case F2: False
      then have "r \<in> {Initialized, Failed}" "st = st0"
        using assms(3) s(1) False by (auto simp: init_locked_def init_states split: if_splits)
      with assms(1) t show ?thesis by auto
    qed
  qed
qed

lemma edge_update_noop: "wait_graph st t = Some u \<Longrightarrow> target \<in> {0, u} \<Longrightarrow> edge_update st t target = st"
  by (cases "target = 0") (auto simp: edge_update_def fun_upd_idem)

lemma wait_step_inv:
  assumes "table_inv st0" "phase_inv env st0 t ph" "waiting_at ph = Some k"
    and "wait_step stop t ph st0 = (Ok (ph', st) :: (unit, _) outcome)"
  shows "table_inv st \<and> evolves t st0 st \<and> phase_inv env st t ph' \<and> storages st = storages st0"
proof -
  obtain u where w: "waits_on st0 t k u" and tgt: "\<And>k' g. ph = Updating k' g \<Longrightarrow> g \<in> {0, u}"
    using assms(2,3) by (cases ph) (auto simp: waiting_at_def waits_on_def)
  then obtain s where s: "storages st0 k = Some s" "wait_graph st0 t = Some u"
      "init_state s \<noteq> init_state_uninitialized" "initializing_thread s \<in> {0, u}"
    by (auto simp: waits_on_def)
  have ok: "storage_ok s" using assms(1) s by (auto simp: table_inv_def)
  have drop: "table_inv (edge_drop st0 t) \<and> evolves t st0 (edge_drop st0 t) \<and>
      wait_graph (edge_drop st0 t) t = None \<and> storages (edge_drop st0 t) = storages st0"
    using assms(1) by (auto simp: edge_drop_def table_inv_def acyclic_edges_drop evolves_graph_upd)
  have ended: "get_init_state (edge_drop st0 t) k \<in> {init_state_initialized, init_state_failed}"
    if "init_state s \<noteq> init_state_initializing"
    using that ok s drop by (auto simp: get_init_state_def storage_ok_def)
  have ph: "ph \<in> {Polling k, Reading k, Pausing k} \<or> (\<exists>g. ph = Updating k g)"
    using assms(3) by (cases ph) (auto simp: waiting_at_def)
  consider "st = edge_drop st0 t" "ph' = Outside"
    | "st = edge_drop st0 t" "ph' = Rechecking k" "init_state s \<noteq> init_state_initializing"
    | "st = st0" "ph' \<in> {Polling k, Reading k, Pausing k} \<or> ph' = Updating k (initializing_thread s)"
    using assms(4) s(1) ph edge_update_noop [OF s(2) tgt] by (auto simp: get_storage_def split: if_splits)
  then show ?thesis
    by cases (use assms(1) drop ended w s in auto)
qed

lemma finish_inv:
  assumes "table_inv st0" "storages st0 k = Some s" "init_state s = init_state_initializing"
    "initializing_thread s = t" "state \<in> {init_state_initialized, init_state_failed}"
  shows "table_inv (finish_init state st0 k) \<and> evolves t st0 (finish_init state st0 k) \<and>
    wait_graph (finish_init state st0 k) = wait_graph st0 \<and> same_progress env st0 (finish_init state st0 k)"
proof -
  let ?s = "s\<lparr>init_state := state, initializing_thread := 0\<rparr>"
  have st: "finish_init state st0 k = st0\<lparr>storages := (storages st0)(k \<mapsto> ?s)\<rparr>"
    using assms(2) by (simp add: finish_init_def)
  have "evolves t st0 (finish_init state st0 k)" unfolding st
    using assms by (intro evolves_storage_upd) (auto simp: storage_evolves_def init_states)
  moreover have "same_progress env st0 (finish_init state st0 k)"
    using assms(2,3,5) by (auto simp: st same_progress_def get_init_state_def init_states)
  moreover have "table_inv (finish_init state st0 k)"
    using assms(1,5) by (auto simp: st table_inv_def storage_ok_def init_states)
  ultimately show ?thesis using st by simp
qed

lemma system_inv_step:
  assumes "system_inv env sys" "table_inv st" "evolves t (table sys) st" "phase_inv env st t ph"
    and "count_inv env st ex"
  shows "system_inv env (sys\<lparr>table := st, phases := (phases sys)(t := ph), executed := ex\<rparr>)"
  using assms phase_inv_frame [OF assms(3)] by (simp add: system_inv_def)

lemma init_step_preserves:
  assumes "init_step env sys sys'" "system_inv env sys"
  shows "system_inv env sys'"
  using assms(1)
proof cases
  case (check t k r st)
  have inv: "table_inv (table sys)" "count_inv env (table sys) (executed sys)"
    "phase_inv env (table sys) t Outside"
    using assms(2) check(3) unfolding system_inv_def by metis+
  note c = init_check_inv [OF inv(1) check(2,4)]
  have "phase_inv env st t (case r of None \<Rightarrow> Locking k | Some _ \<Rightarrow> Outside)"
    using c inv(3) check(2) by (auto split: option.splits)
  from system_inv_step [OF assms(2) _ _ this count_inv_same [OF inv(2)]] c
  show ?thesis unfolding check(1) by (simp add: system_inv_def)
next
  case (lock t k r st)
  have inv: "table_inv (table sys)" "count_inv env (table sys) (executed sys)"
    "phase_inv env (table sys) t (Locking k)"
    using assms(2) lock(2) unfolding system_inv_def by metis+
  note l = init_locked_inv [OF inv(1,3) lock(3)]
  have "static_initializer env k" using inv(3) by simp
  then have "count_inv env st (if r = Execute then (executed sys)(k := executed sys k + 1) else executed sys)"
    using l inv(2) by (auto simp: count_inv_def init_states get_init_state_def)
  from system_inv_step [OF assms(2) _ _ _ this] l show ?thesis unfolding lock(1) by blast
next
  case (wait t k stop ph st)
  have inv: "table_inv (table sys)" "count_inv env (table sys) (executed sys)"
    "phase_inv env (table sys) t (phases sys t)"
    using assms(2) unfolding system_inv_def by blast+
  note w = wait_step_inv [OF inv(1,3) wait(2,3)]
  have "count_inv env st (executed sys)" using w inv(2) by (simp add: count_inv_def get_init_state_def)
  with system_inv_step [OF assms(2), of st t ph "executed sys"] w show ?thesis unfolding wait(1) by (simp add: system_inv_def)
next
  case (resume t k)
  have inv: "table_inv (table sys)" "count_inv env (table sys) (executed sys)"
    "phase_inv env (table sys) t (Rechecking k)"
    using assms(2) resume(2) unfolding system_inv_def by metis+
  from system_inv_step [OF assms(2) inv(1) evolves_refl, of t Outside "executed sys"] inv
  show ?thesis unfolding resume(1) by (simp add: system_inv_def)
next
  case (finish t k s st)
  have inv: "table_inv (table sys)" "count_inv env (table sys) (executed sys)"
    "phase_inv env (table sys) t Outside"
    using assms(2) finish(2) unfolding system_inv_def by metis+
  obtain state where state: "state \<in> {init_state_initialized, init_state_failed}" "st = finish_init state (table sys) k"
    using finish(6) by (auto simp: mark_initialized_def mark_failed_def)
  note f = finish_inv [OF inv(1) finish(3-5) state(1), where env = env, folded state(2)]
  have "count_inv env st (executed sys)" using f inv(2) count_inv_same by blast
  moreover have "(phases sys)(t := Outside) = phases sys" using finish(2) by auto
  ultimately show ?thesis
    using system_inv_step [OF assms(2), of st t Outside "executed sys"] f inv(3)
    unfolding finish(1) by (simp add: system_inv_def)
qed

lemma init_invariant: "init_reachable env sys \<Longrightarrow> system_inv env sys"
  unfolding init_reachable_def
proof (induction rule: rtranclp_induct)
  case base
  have "acyclic (edges (\<lambda>_. None))" by (simp add: edges_def acyclic_def)
  then show ?case
    by (simp add: init_system_new_def statics_new_def system_inv_def table_inv_def count_inv_def get_init_state_def)
qed (rule init_step_preserves)

section \<open>Replaying a schedule\<close>

text \<open>A schedule names the thread that takes the next step and its input; replaying it gives a reachable state.\<close>

datatype 'k init_event =
    DoCheck u64 'k | DoLock u64 | DoWait u64 bool | DoResume u64 | DoFinish u64 'k

fun apply_event :: "'k static_env \<Rightarrow> 'k init_event \<Rightarrow> 'k init_system \<Rightarrow> 'k init_system option" where
  "apply_event env (DoCheck t k) sys =
     (if t \<noteq> 0 \<and> phases sys t = Outside then
        (case init_check env (table sys) k t of
           Ok (r, st) \<Rightarrow> Some (sys\<lparr>table := st,
             phases := (phases sys)(t := case r of None \<Rightarrow> Locking k | Some _ \<Rightarrow> Outside)\<rparr>)
         | _ \<Rightarrow> None)
      else None)"
| "apply_event env (DoLock t) sys =
     (case phases sys t of
        Locking k \<Rightarrow>
          (case init_locked (table sys) k t of
             Some (Ok (r, st)) \<Rightarrow> Some (sys\<lparr>table := st,
               phases := (phases sys)(t := if r = Waiting then Polling k else Outside),
               executed := (if r = Execute then (executed sys)(k := executed sys k + 1) else executed sys)\<rparr>)
           | _ \<Rightarrow> None)
      | _ \<Rightarrow> None)"
| "apply_event env (DoWait t stop) sys =
     (case waiting_at (phases sys t) of
        None \<Rightarrow> None
      | Some k \<Rightarrow>
          (case (wait_step stop t (phases sys t) (table sys) :: (unit, _) outcome) of
             Ok (ph, st) \<Rightarrow> Some (sys\<lparr>table := st, phases := (phases sys)(t := ph)\<rparr>) | _ \<Rightarrow> None))"
| "apply_event env (DoResume t) sys =
     (case phases sys t of Rechecking k \<Rightarrow> Some (sys\<lparr>phases := (phases sys)(t := Outside)\<rparr>) | _ \<Rightarrow> None)"
| "apply_event env (DoFinish t k) sys =
     (case storages (table sys) k of
        Some s \<Rightarrow> if phases sys t = Outside \<and> init_state s = init_state_initializing \<and> initializing_thread s = t
                  then Some (sys\<lparr>table := mark_initialized (table sys) k\<rparr>) else None
      | None \<Rightarrow> None)"

fun replay :: "'k static_env \<Rightarrow> 'k init_event list \<Rightarrow> 'k init_system \<Rightarrow> 'k init_system option" where
  "replay env [] sys = Some sys"
| "replay env (e # es) sys = Option.bind (apply_event env e sys) (replay env es)"

lemma apply_event_step: "apply_event env e sys = Some sys' \<Longrightarrow> init_step env sys sys'"
  by (cases e) (auto intro: init_step.intros split: if_splits outcome.splits option.splits init_phase.splits)

lemma replay_reachable:
  assumes "init_reachable env sys" "replay env es sys = Some sys'"
  shows "init_reachable env sys'"
  using assms
proof (induction es arbitrary: sys)
  case (Cons e es)
  then obtain sys1 where "apply_event env e sys = Some sys1" "replay env es sys1 = Some sys'"
    by (auto simp: bind_eq_Some_conv)
  then show ?case
    using Cons.IH Cons.prems(1) apply_event_step unfolding init_reachable_def
    by (metis rtranclp.rtrancl_into_rtrancl)
qed simp

lemma replay_from_start: "replay env es init_system_new = Some sys \<Longrightarrow> init_reachable env sys"
  by (rule replay_reachable) (simp_all add: init_reachable_def)

definition sample_static_env :: "nat static_env" where
  "sample_static_env = \<lparr>image_of = (\<lambda>_. Ok [0]), static_initializer = (\<lambda>_. True)\<rparr>"

text \<open>Threads 1 and 2 run the constructors of types 0 and 1, and thread 1 then waits for type 1.\<close>

definition sample_schedule :: "nat init_event list" where
  "sample_schedule = [DoCheck 1 0, DoLock 1, DoCheck 2 1, DoLock 2, DoCheck 1 1, DoLock 1]"

lemma causes_cycle_None [simp]: "graph c = None \<Longrightarrow> causes_cycle graph start c = Some False"
  by (subst causes_cycle.simps) simp

lemma causes_cycle_hit [simp]: "graph c = Some start \<Longrightarrow> causes_cycle graph start c = Some True"
  by (subst causes_cycle.simps) simp

lemmas replay_simps = init_system_new_def statics_new_def sample_static_env_def init_check_def
  ensure_storage_def get_storage_def init_states init_locked_def waiting_at_def mark_initialized_def
  finish_init_def Let_def get_init_state_def edge_drop_def

definition sample_waiting :: "nat init_system" where
  "sample_waiting = \<lparr>table = \<lparr>
       storages = [0 \<mapsto> \<lparr>init_state = 1, initializing_thread = 1, storage = [0]\<rparr>,
                   1 \<mapsto> \<lparr>init_state = 1, initializing_thread = 2, storage = [0]\<rparr>],
       wait_graph = [1 \<mapsto> 2]\<rparr>,
     phases = (\<lambda>_. Outside)(1 := Polling 1), executed = (\<lambda>_. 0)(0 := 1, 1 := 1)\<rparr>"

lemma sample_waiting_replay: "replay sample_static_env sample_schedule init_system_new = Some sample_waiting"
  by (simp add: sample_schedule_def replay_simps sample_waiting_def fun_upd_def fun_eq_iff)

lemmas sample_waiting_reachable = replay_from_start [OF sample_waiting_replay]

section \<open>What initialisation promises\<close>

text \<open>
  C5: A static constructor is handed out at most once. In every state that any interleaving of threads can
  reach, a type's constructor has been given to one thread exactly when the type has left its initial
  state, and to none before; and a type is being initialised exactly when a thread is recorded for it.
\<close>
theorem cctor_runs_once:
  assumes "init_reachable env sys"
  shows "executed sys k =
      (if static_initializer env k \<and> get_init_state (table sys) k \<noteq> init_state_uninitialized then 1 else 0) \<and>
    (\<forall>s. storages (table sys) k = Some s \<longrightarrow>
       (init_state s = init_state_initializing \<longleftrightarrow> initializing_thread s \<noteq> 0))"
  using init_invariant [OF assms] by (auto simp: system_inv_def count_inv_def table_inv_def storage_ok_def)

theorem cctor_runs_once_witness:
  "init_reachable sample_static_env sample_waiting \<and> executed sample_waiting 0 = 1 \<and> executed sample_waiting 5 = 0"
  using cctor_runs_once [OF sample_waiting_reachable, of 0] cctor_runs_once [OF sample_waiting_reachable, of 5]
    sample_waiting_reachable
  by (simp add: sample_static_env_def get_init_state_def sample_waiting_def init_states)

text \<open>
  C11: Waiting for initialisation cannot deadlock, and the search for cycles always ends. In every reachable
  state the wait graph has no cycle, so \<open>causes_cycle\<close> returns from every start, with the answer whether
  the new edge would close a cycle; and every thread in the wait loop of a type that another thread is still
  initialising has its edge in the graph, so no set of threads waits for itself.
\<close>
theorem initialisation_deadlock_free:
  assumes "init_reachable env sys"
  shows "acyclic (edges (wait_graph (table sys))) \<and>
    causes_cycle (wait_graph (table sys)) start current =
      Some ((current, start) \<in> (edges (wait_graph (table sys)))\<^sup>+) \<and>
    (\<forall>t k s. waiting_at (phases sys t) = Some k \<and> storages (table sys) k = Some s \<and>
       init_state s = init_state_initializing \<longrightarrow> wait_graph (table sys) t = Some (initializing_thread s))"
proof (intro conjI allI impI)
  have inv: "system_inv env sys" by (rule init_invariant [OF assms])
  show "acyclic (edges (wait_graph (table sys)))" using inv by (simp add: system_inv_def table_inv_def)
  then show "causes_cycle (wait_graph (table sys)) start current =
      Some ((current, start) \<in> (edges (wait_graph (table sys)))\<^sup>+)" by (rule causes_cycle_sound)
  fix t k s
  assume a: "waiting_at (phases sys t) = Some k \<and> storages (table sys) k = Some s \<and>
       init_state s = init_state_initializing"
  have "phase_inv env (table sys) t (phases sys t)" using inv by (simp add: system_inv_def)
  moreover have "initializing_thread s \<noteq> 0" using a inv by (auto simp: system_inv_def table_inv_def storage_ok_def)
  ultimately show "wait_graph (table sys) t = Some (initializing_thread s)"
    using a by (cases "phases sys t") (auto simp: waiting_at_def waits_on_def)
qed

theorem initialisation_deadlock_free_witness:
  "waiting_at (phases sample_waiting 1) = Some 1 \<and> wait_graph (table sample_waiting) 1 = Some 2 \<and>
   causes_cycle (wait_graph (table sample_waiting)) 2 1 = Some True"
  using initialisation_deadlock_free [OF sample_waiting_reachable, of 2 1]
  by (auto simp: sample_waiting_def waiting_at_def init_states edges_def)

text \<open>
  The state check after a wait never fails: a thread that leaves the wait loop without a request to
  yield finds its type initialised or failed, and both are final.
\<close>
theorem recheck_total:
  assumes "init_reachable env sys" and "phases sys t = Rechecking k"
  shows "recheck (table sys) k \<in> {Ok Continue, Ok ThrowTypeInitialization}"
proof -
  have "phase_inv env (table sys) t (Rechecking k)"
    using init_invariant [OF assms(1)] assms(2) unfolding system_inv_def by metis
  then show ?thesis by (auto simp: recheck_def init_states)
qed

definition sample_done_schedule :: "nat init_event list" where
  "sample_done_schedule = sample_schedule @ [DoFinish 2 1, DoCheck 2 0]"

definition sample_done :: "nat init_system" where
  "sample_done = \<lparr>table = \<lparr>
       storages = [0 \<mapsto> \<lparr>init_state = 1, initializing_thread = 1, storage = [0]\<rparr>,
                   1 \<mapsto> \<lparr>init_state = 2, initializing_thread = 0, storage = [0]\<rparr>],
       wait_graph = [1 \<mapsto> 2]\<rparr>,
     phases = (\<lambda>_. Outside)(1 := Polling 1, 2 := Locking 0), executed = (\<lambda>_. 0)(0 := 1, 1 := 1)\<rparr>"

lemma replay_append: "replay env (xs @ ys) sys = Option.bind (replay env xs sys) (replay env ys)"
  by (induction xs arbitrary: sys) (simp_all add: Option.bind_assoc cong: Option.bind_cong)

lemma sample_done_replay: "replay sample_static_env sample_done_schedule init_system_new = Some sample_done"
  by (simp add: sample_done_schedule_def replay_append sample_waiting_replay)
     (simp add: replay_simps sample_waiting_def sample_done_def fun_upd_def fun_eq_iff)

lemmas sample_done_reachable = replay_from_start [OF sample_done_replay]

lemma sample_recheck_replay:
  "replay sample_static_env (sample_done_schedule @ [DoWait 1 False]) init_system_new =
     Some (sample_done\<lparr>table := edge_drop (table sample_done) 1, phases := (phases sample_done)(1 := Rechecking 1)\<rparr>)"
  by (simp add: replay_append sample_done_replay)
     (simp add: replay_simps sample_done_def)

theorem recheck_total_witness:
  "recheck (edge_drop (table sample_done) 1) 1 \<in> {Ok Continue, Ok ThrowTypeInitialization :: (unit, _) outcome}"
  using recheck_total [OF replay_from_start [OF sample_recheck_replay], of 1 1] by simp

text \<open>
  C32: The cycle check can report a recursion that is none. There is a run in which the thread that
  initialises type 0 is in the wait loop of type 1, the thread that ran the constructor of type 1 has
  finished it, so that nothing blocks the waiting thread any more, and \<open>init\<close> of type 0 by the finished thread
  still answers \<open>Recursive\<close>: it goes on with type 0 half initialised instead of waiting, because the edge of
  the waiting thread stays in the graph until that thread wakes up.
\<close>
theorem stale_edge_reports_recursion:
  "\<exists>sys. init_reachable sample_static_env sys \<and> phases sys 2 = Locking 0 \<and>
     init_locked (table sys) 0 2 = Some (Ok (Recursive, table sys)) \<and>
     get_init_state (table sys) 0 = init_state_initializing \<and>
     phases sys 1 = Polling 1 \<and> get_init_state (table sys) 1 = init_state_initialized"
  using sample_done_reachable
  by (intro exI [of _ sample_done]) (simp add: sample_done_def init_locked_def get_init_state_def init_states)

section \<open>The image of the static fields\<close>

text \<open>The byte that the initial data of a field puts at an offset of the image.\<close>

definition field_byte :: "'td \<Rightarrow> 'td field_layout_manager \<Rightarrow> nat \<Rightarrow> string \<times> u8 list option \<Rightarrow> u8 option" where
  "field_byte d m i = (\<lambda>(nm, initial).
     case (initial, get_field m d nm) of
       (Some bytes, Some fl) \<Rightarrow>
         if position fl \<le> i \<and> i < position fl + min (exact_size (layout fl)) (length bytes)
         then Some (bytes ! (i - position fl)) else None
     | _ \<Rightarrow> None)"

definition image_byte :: "'td \<Rightarrow> 'td field_layout_manager \<Rightarrow> (string \<times> u8 list option) list \<Rightarrow> nat \<Rightarrow> u8 \<Rightarrow> u8" where
  "image_byte d m fs i b = fold (\<lambda>f b. case field_byte d m i f of Some x \<Rightarrow> x | None \<Rightarrow> b) fs b"

definition sized_fields :: "'td field_layout_manager \<Rightarrow> bool" where
  "sized_fields m \<longleftrightarrow> wf_layout (Field m) \<and> total_size m \<le> usize_max \<and>
     (\<forall>(k, f) \<in> set (flm_fields m). layout_size (layout f) \<noteq> (Panic :: (unit, nat) outcome))"

lemma layout_size_cast: "layout_size l = (Ok n :: (unit, nat) outcome) \<Longrightarrow> layout_size l = (Ok n :: ('e, nat) outcome)"
  by (induction l arbitrary: n rule: exact_size.induct) (auto simp: outcome_simps umul_def usize_of_def split: if_splits)

lemma layout_size_any:
  "layout_size l \<noteq> (Panic :: (unit, nat) outcome) \<Longrightarrow> layout_size l = (Ok (exact_size l) :: ('e, nat) outcome)"
  by (metis layout_size_cast layout_size_exact layout_size_not_Err outcome.exhaust)

lemma sized_field:
  assumes "sized_fields m" "get_field m d nm = Some fl"
  shows "layout_size (layout fl) = (Ok (exact_size (layout fl)) :: ('e, nat) outcome)"
    and "position fl + exact_size (layout fl) \<le> total_size m"
proof -
  obtain key where f: "(key, fl) \<in> set (flm_fields m)"
    using assms(2) by (auto simp: get_field_def dest: map_of_SomeD)
  then show "layout_size (layout fl) = (Ok (exact_size (layout fl)) :: ('e, nat) outcome)"
    using assms(1) layout_size_any by (auto simp: sized_fields_def)
  show "position fl + exact_size (layout fl) \<le> total_size m"
    using f assms(1) by (cases m; cases fl) (force simp: sized_fields_def)
qed

lemma seed_field_Ok:
  assumes "sized_fields m" "length data = total_size m"
  shows "\<exists>data'. seed_field d m f data = (Ok data' :: ('e, _) outcome) \<and> length data' = total_size m \<and>
    (\<forall>i < total_size m. data' ! i = (case field_byte d m i f of Some x \<Rightarrow> x | None \<Rightarrow> data ! i))"
proof (cases "\<exists>bytes fl. snd f = Some bytes \<and> get_field m d (fst f) = Some fl")
  case False
  then show ?thesis using assms(2)
    by (cases f) (auto simp: seed_field_def field_byte_def split: option.splits)
next
  case True
  then obtain nm bytes fl where f: "f = (nm, Some bytes)" "get_field m d nm = Some fl"
    by (cases f) auto
  let ?n = "min (exact_size (layout fl)) (length bytes)"
  have le: "position fl + ?n \<le> total_size m" using sized_field(2) [OF assms(1) f(2)] by simp
  then have add: "uadd (position fl) ?n = (Ok (position fl + ?n) :: ('e, nat) outcome)"
    using assms(1) by (simp add: uadd_def usize_of_def sized_fields_def)
  have sz: "layout_size (layout fl) = (Ok (exact_size (layout fl)) :: ('e, nat) outcome)"
    by (rule sized_field(1) [OF assms(1) f(2)])
  show ?thesis
  proof (cases "?n = 0")
    case True
    then have "seed_field d m f data = (Ok data :: ('e, _) outcome)"
      using f sz by (simp add: seed_field_def Let_def)
    moreover have "field_byte d m i f = None" for i using f True by (simp add: field_byte_def)
    ultimately show ?thesis using assms(2) by simp
  next
    case False
    let ?d = "take (position fl) data @ take ?n bytes @ drop (position fl + ?n) data"
    have "seed_field d m f data = (Ok ?d :: ('e, _) outcome)"
      using f sz False add le assms(2)
      by (simp add: seed_field_def Let_def)
    moreover have "length ?d = total_size m" using le assms(2) by simp
    moreover have "?d ! i = (case field_byte d m i f of Some x \<Rightarrow> x | None \<Rightarrow> data ! i)" if "i < total_size m" for i
      using that le assms(2) f by (auto simp: field_byte_def nth_append min_def)
    ultimately show ?thesis by blast
  qed
qed

text \<open>
  The static storage of a type is built without a bounds failure and holds what the metadata says: on a
  well-formed layout the image has the size of the layout, every byte covered by a field's initial data is that
  data's byte (the last such field in declaration order), and every other byte is zero.
\<close>
theorem static_image_exact:
  assumes "sized_fields m"
  shows "\<exists>data. static_image d fs m = (Ok data :: (unit, _) outcome) \<and> length data = total_size m \<and>
    (\<forall>i < total_size m. data ! i = image_byte d m fs i 0)"
proof -
  have "\<exists>data'. fold_outcome (seed_field d m) fs data = (Ok data' :: (unit, _) outcome) \<and>
      length data' = total_size m \<and> (\<forall>i < total_size m. data' ! i = image_byte d m fs i (data ! i))"
    if "length data = total_size m" for data
    using that
  proof (induction fs arbitrary: data)
    case (Cons f fs)
    obtain d1 where d1: "seed_field d m f data = (Ok d1 :: (unit, _) outcome)" "length d1 = total_size m"
        "\<forall>i < total_size m. d1 ! i = (case field_byte d m i f of Some x \<Rightarrow> x | None \<Rightarrow> data ! i)"
      using seed_field_Ok [OF assms Cons.prems, of d f] by blast
    from Cons.IH [OF d1(2)] d1 show ?case by (auto simp: image_byte_def)
  qed (simp add: image_byte_def)
  from this [of "replicate (total_size m) 0"] show ?thesis by (simp add: static_image_def)
qed

definition sample_static_layout :: "nat field_layout_manager" where
  "sample_static_layout = FieldLayoutManager [(FieldKey 7 ''x'', FieldLayout 4 (Scalar Int32))] 8 4 gc_desc_default False"

theorem static_image_exact_witness:
  "\<exists>data. static_image 7 [(''x'', Some [1, 2])] sample_static_layout = (Ok data :: (unit, _) outcome) \<and>
     length data = 8 \<and> data ! 5 = 2 \<and> data ! 0 = 0"
proof -
  have "sized_fields sample_static_layout"
    by (simp add: sized_fields_def sample_static_layout_def gc_desc_invar_def gc_desc_default_def gc_offsets_def
        gc_slots_def usize_max_def)
  from static_image_exact [OF this, of 7 "[(''x'', Some [1, 2])]"] show ?thesis
    by (auto simp: sample_static_layout_def image_byte_def field_byte_def get_field_def)
qed

end
