(* ===== verification/Ves.thy ===== *)
theory Ves
  imports Frames Statics
begin

text \<open>
  The execution context of a thread (\<open>VesContext\<close>, \<open>dotnet-vm/src/stack/\<close>): pushes and pops that keep the
  height of the current frame, calls (\<open>call_ops_impl.rs\<close>), returns and unwinding of frames (\<open>context.rs\<close>). What
  the loader, the heap and the layout factory answer is the environment \<open>ves_env\<close>; the log output is left out.
\<close>

section \<open>The context\<close>

datatype concrete_base =
    CBoolean | CChar | CInt8 | CUInt8 | CInt16 | CUInt16 | CInt32 | CUInt32 | CInt64 | CUInt64
  | CFloat32 | CFloat64 | CIntPtr | CUIntPtr | CFunctionPointer | CValuePointer
  | CObject | CString | CArray | CVector | CType

datatype heap_variant = VecStorage | ObjStorage | StrStorage | BoxedStorage

record ('g, 'c, 'r) ves_env =
  host_env :: host
  pointers :: "'g ptr_env"
  read_memory :: "usize \<Rightarrow> nat \<Rightarrow> u8 list"
  concrete_local :: "'g \<Rightarrow> 'c \<Rightarrow> (type_resolution_error, concrete_base) outcome"
  find_concrete_type :: "'c \<Rightarrow> (type_resolution_error, type_description) outcome"
  is_typed_reference :: "type_description \<Rightarrow> bool"
  is_value_type :: "type_description \<Rightarrow> (type_resolution_error, bool) outcome"
  store_home_argument :: "'g variable_home \<Rightarrow> 'g stack_value \<Rightarrow> (type_resolution_error, unit) outcome"
  new_local_object :: "'g \<Rightarrow> 'c \<Rightarrow> type_description \<Rightarrow> (type_resolution_error, 'g vm_object) outcome"
  heap_storage :: "usize \<Rightarrow> heap_variant"
  from_type_generics :: "'g \<Rightarrow> 'g"
  layout_handle :: "type_description field_layout_manager \<Rightarrow> nat"
  is_void :: "'r \<Rightarrow> bool"
  to_concrete :: "'r \<Rightarrow> 'c"
  box_value :: "'c \<Rightarrow> 'g stack_value \<Rightarrow> (type_resolution_error, object_ref) outcome"
  exception_named :: "string \<Rightarrow> string \<Rightarrow> object_ref option \<Rightarrow> (type_resolution_error, object_ref) outcome"
  corlib_exception :: "(type_resolution_error, type_description) outcome"
  heap_description :: "usize \<Rightarrow> (type_resolution_error, type_description) outcome"
  is_a :: "type_description \<Rightarrow> 'c \<Rightarrow> (type_resolution_error, bool) outcome"
  describe_exception :: "usize \<Rightarrow> managed_exception_info"
  type_name_of :: "type_description \<Rightarrow> string"

record ('g, 'c, 'r) ves =
  evaluation_stack :: "'g evaluation_stack"
  frame_stack :: "('g, 'c, 'r) frame_stack"
  gauges :: alloc_thread
  exception_mode :: exception_state
  continuation :: vm_continuation
  original_ip :: nat
  original_stack_height :: nat
  processing_finalizer :: bool
  static_table :: "(type_description \<times> 'g) statics"

section \<open>Pushing and popping\<close>

definition on_push :: "('g, 'c, 'r) ves \<Rightarrow> ('e, ('g, 'c, 'r) ves) outcome" where
  "on_push ctx =
     (if frames (frame_stack ctx) = [] then Ok ctx
      else and_then (uadd (stack_height (last (frames (frame_stack ctx)))) 1) (\<lambda>n.
        map_outcome (\<lambda>fs. ctx\<lparr>frame_stack := fs\<rparr>) (map_current (\<lambda>f. f\<lparr>stack_height := n\<rparr>) (frame_stack ctx))))"

definition ves_push :: "'g stack_value \<Rightarrow> ('g, 'c, 'r) ves \<Rightarrow> ('e, ('g, 'c, 'r) ves) outcome" where
  "ves_push v ctx = on_push (ctx\<lparr>evaluation_stack := es_push v (evaluation_stack ctx)\<rparr>)"

definition on_pop_safe :: "('g, 'c, 'r) ves \<Rightarrow> (vm_error, ('g, 'c, 'r) ves) outcome" where
  "on_pop_safe ctx =
     (if frames (frame_stack ctx) = [] then Ok ctx
      else if stack_height (last (frames (frame_stack ctx))) = 0 then Err (Execution StackUnderflow)
      else map_outcome (\<lambda>fs. ctx\<lparr>frame_stack := fs\<rparr>)
        (map_current (\<lambda>f. f\<lparr>stack_height := stack_height f - 1\<rparr>) (frame_stack ctx)))"

definition pop_safe :: "('g, 'c, 'r) ves \<Rightarrow> (vm_error, 'g stack_value \<times> ('g, 'c, 'r) ves) outcome" where
  "pop_safe ctx =
     and_then (on_pop_safe ctx) (\<lambda>ctx1.
       map_outcome (\<lambda>(v, es). (v, ctx1\<lparr>evaluation_stack := es\<rparr>)) (es_pop_safe (evaluation_stack ctx1)))"

definition ves_pop :: "('g, 'c, 'r) ves \<Rightarrow> ('e, 'g stack_value \<times> ('g, 'c, 'r) ves) outcome" where
  "ves_pop ctx = or_panic (pop_safe ctx)"

text \<open>Popping several values gives them in the order they were pushed.\<close>

fun pop_multiple :: "nat \<Rightarrow> ('g, 'c, 'r) ves \<Rightarrow> ('e, 'g stack_value list \<times> ('g, 'c, 'r) ves) outcome" where
  "pop_multiple 0 ctx = Ok ([], ctx)"
| "pop_multiple (Suc n) ctx =
     and_then (ves_pop ctx) (\<lambda>(v, ctx1). map_outcome (\<lambda>(vs, ctx2). (vs @ [v], ctx2)) (pop_multiple n ctx1))"

definition clear_evaluation_stack_from :: "nat \<Rightarrow> ('g, 'c, 'r) ves \<Rightarrow> ('g, 'c, 'r) ves" where
  "clear_evaluation_stack_from start ctx = ctx\<lparr>evaluation_stack := es_truncate start (evaluation_stack ctx)\<rparr>"

section \<open>Calls\<close>

fun default_local ::
    "('g, 'c, 'r) ves_env \<Rightarrow> 'g \<Rightarrow> 'c \<Rightarrow> concrete_base \<Rightarrow> (type_resolution_error, 'g stack_value) outcome" where
  "default_local env gens ty b =
     (if b \<in> {CBoolean, CChar, CInt8, CUInt8, CInt16, CUInt16, CInt32, CUInt32} then Ok (Stack_Value.Int32 0)
      else if b \<in> {CInt64, CUInt64} then Ok (Stack_Value.Int64 0)
      else if b \<in> {CFloat32, CFloat64} then Ok (NativeFloat (F64 0))
      else if b \<in> {CIntPtr, CUIntPtr, CFunctionPointer, CValuePointer} then Ok (Stack_Value.NativeInt 0)
      else if b \<in> {CObject, CString, CArray, CVector} then Ok stack_null
      else and_then (find_concrete_type env ty) (\<lambda>desc.
        if is_typed_reference env desc then Ok UninitializedTypedRef
        else and_then (is_value_type env desc) (\<lambda>vt.
          if vt then map_outcome ValueType (new_local_object env gens ty desc) else Ok stack_null)))"

definition local_value ::
    "('g, 'c, 'r) ves_env \<Rightarrow> 'g frame_home_layout option \<Rightarrow> 'g \<Rightarrow> nat \<Rightarrow> 'c local_variable \<Rightarrow>
     (type_resolution_error, bool \<times> 'g stack_value) outcome" where
  "local_value env hl gens i l =
     (case l of
        TypedReferenceLocal \<Rightarrow> Ok (False, UninitializedTypedRef)
      | Variable pinned ty \<Rightarrow>
          if (case hl of None \<Rightarrow> False | Some h \<Rightarrow> home_at (home_locals h) i \<noteq> None) then Ok (pinned, stack_null)
          else and_then (concrete_local env gens ty) (\<lambda>b. map_outcome (Pair pinned) (default_local env gens ty b)))"

fun init_locals_from ::
    "('g, 'c, 'r) ves_env \<Rightarrow> 'g frame_home_layout option \<Rightarrow> 'g \<Rightarrow> nat \<Rightarrow> nat \<Rightarrow> 'c local_variable list \<Rightarrow>
     'g evaluation_stack \<Rightarrow> (type_resolution_error, bool list \<times> 'g evaluation_stack) outcome" where
  "init_locals_from env hl gens locals_base i [] es = Ok ([], es)"
| "init_locals_from env hl gens locals_base i (l # ls) es =
     and_then (local_value env hl gens i l) (\<lambda>(pinned, v).
     and_then (uadd locals_base i) (\<lambda>slot.
     and_then (set_slot_at slot v es) (\<lambda>es1.
       map_outcome (\<lambda>(ps, es2). (pinned # ps, es2)) (init_locals_from env hl gens locals_base (Suc i) ls es1))))"

definition init_locals ::
    "('g, 'c, 'r) ves_env \<Rightarrow> ('g, 'c) method_info \<Rightarrow> 'g \<Rightarrow> nat \<Rightarrow> 'g evaluation_stack \<Rightarrow>
     (type_resolution_error, bool list \<times> 'g evaluation_stack) outcome" where
  "init_locals env info gens locals_base es =
     init_locals_from env (method_homes info) gens locals_base 0 (method_locals info) es"

definition argument_count :: "('g, 'c) method_info \<Rightarrow> nat" where
  "argument_count info = (if has_this info then 1 else 0) + parameter_count info"

text \<open>A boxed receiver of a value type method becomes a byref to the boxed value.\<close>

definition canonical_this ::
    "('g, 'c, 'r) ves_env \<Rightarrow> ('g, 'c) method_info \<Rightarrow> nat \<Rightarrow> 'g evaluation_stack \<Rightarrow>
     (type_resolution_error, 'g evaluation_stack) outcome" where
  "canonical_this env info argument_base es =
     (if \<not> has_this info then Ok es
      else and_then (get_slot argument_base es) (\<lambda>this_val.
        case this_val of
          Stack_Value.ObjectRef obj \<Rightarrow>
            and_then (is_value_type env (parent_type info)) (\<lambda>vt.
              if \<not> vt then Ok es
              else (case obj of
                  None \<Rightarrow> Panic
                | Some h \<Rightarrow>
                    if heap_storage env h \<in> {BoxedStorage, ObjStorage}
                    then and_then (managed_ptr_new (non_null (payload_base (pointers env) h)) (parent_type info)
                             (Some obj) False (Some 0)) (\<lambda>m.
                           set_slot_at argument_base (Stack_Value.ManagedPtr m) es)
                    else Panic))
        | _ \<Rightarrow> Ok es))"

text \<open>The writes into the home block are memory traffic; what they answer is part of the environment.\<close>

definition install_argument ::
    "('g, 'c, 'r) ves_env \<Rightarrow> 'g frame_homes \<Rightarrow> nat \<Rightarrow> 'g evaluation_stack \<Rightarrow> nat \<times> 'g variable_home \<Rightarrow> unit \<Rightarrow>
     (type_resolution_error, unit) outcome" where
  "install_argument env hs arguments es = (\<lambda>(i, home) _.
     and_then (homes_argument hs i) (\<lambda>slot.
       case slot of
         None \<Rightarrow> Panic
       | Some _ \<Rightarrow>
           and_then (uadd arguments i) (\<lambda>k.
           and_then (get_slot k es) (\<lambda>v.
             map_err (\<lambda>_. InvalidLayout) (store_home_argument env home v)))))"

definition install_frame_homes ::
    "('g, 'c, 'r) ves_env \<Rightarrow> 'g frame_homes \<Rightarrow> nat \<Rightarrow> 'g evaluation_stack \<Rightarrow> ('g, 'c, 'r) frame_stack \<Rightarrow>
     (type_resolution_error, ('g, 'c, 'r) frame_stack) outcome" where
  "install_frame_homes env hs arguments es fs =
     and_then (map_current (\<lambda>f. f\<lparr>homes := hs\<rparr>) fs) (\<lambda>fs1.
       case primary hs of
         None \<Rightarrow> Ok fs1
       | Some hb \<Rightarrow>
           map_outcome (\<lambda>_. fs1)
             (fold_outcome (install_argument env hs arguments es) (homed_arguments (hb_layout hb)) ()))"

definition call_frame ::
    "('g, 'c, 'r) ves_env \<Rightarrow> ('g, 'c) method_info \<Rightarrow> 'g \<Rightarrow> ('g, 'c, 'r) ves \<Rightarrow>
     (type_resolution_error, ('g, 'c, 'r) ves) outcome" where
  "call_frame env info gens ctx =
     (let num_args = argument_count info; top = length (stack (evaluation_stack ctx)) in
      and_then (usub top num_args) (\<lambda>argument_base.
      and_then (init_locals env info gens top (evaluation_stack ctx)) (\<lambda>(pinned, es1).
      and_then (allocate_frame_homes (host_env env) info (frame_stack ctx) (gauges ctx)) (\<lambda>(hs, fs1, th1).
      and_then (uadd top (length pinned)) (\<lambda>stack_base.
      and_then (canonical_this env info argument_base es1) (\<lambda>es2.
      and_then (if frames fs1 = [] then Ok fs1
                else and_then (usub (stack_height (last (frames fs1))) num_args) (\<lambda>h.
                       map_current (\<lambda>f. f\<lparr>stack_height := h\<rparr>) fs1)) (\<lambda>fs2.
      and_then (push_frame \<lparr>base_arguments = argument_base, base_locals = top, base_stack = stack_base\<rparr>
                  info gens pinned fs2 th1) (\<lambda>(fs3, th2).
      and_then (install_frame_homes env hs argument_base es2 fs3) (\<lambda>fs4.
        Ok (ctx\<lparr>evaluation_stack := es2, frame_stack := fs4, gauges := th2\<rparr>))))))))))"

section \<open>Throwing by name\<close>

definition throw_by_name_with_message ::
    "('g, 'c, 'r) ves_env \<Rightarrow> string \<Rightarrow> string \<Rightarrow> ('g, 'c, 'r) ves \<Rightarrow> ('e, step_result \<times> ('g, 'c, 'r) ves) outcome" where
  "throw_by_name_with_message env nm msg ctx =
     (case exception_named env nm msg None of
        Ok obj \<Rightarrow> Ok (Exception, ctx\<lparr>exception_mode := Throwing obj False\<rparr>)
      | Err e \<Rightarrow> Ok (Error (TypeResolution e), ctx)
      | Panic \<Rightarrow> Panic)"

definition throw_by_name_with_inner ::
    "('g, 'c, 'r) ves_env \<Rightarrow> string \<Rightarrow> string \<Rightarrow> object_ref \<Rightarrow> ('g, 'c, 'r) ves \<Rightarrow>
     ('e, step_result \<times> ('g, 'c, 'r) ves) outcome" where
  "throw_by_name_with_inner env nm msg inner ctx =
     (case exception_named env nm msg (Some inner) of
        Ok obj \<Rightarrow> Ok (Exception, ctx\<lparr>exception_mode := Throwing obj False\<rparr>)
      | Err e \<Rightarrow> Ok (Error (TypeResolution e), ctx)
      | Panic \<Rightarrow> Panic)"

section \<open>Returning\<close>

definition cctor_key :: "('g, 'c, 'r) ves_env \<Rightarrow> ('g, 'c, 'r) stack_frame \<Rightarrow> type_description \<times> 'g" where
  "cctor_key env f = (parent_type (info_handle (state f)), from_type_generics env (generic_inst f))"

text \<open>Byrefs to frame homes resolve through the frames of the thread.\<close>

definition frame_resolver :: "('g, 'c, 'r) ves_env \<Rightarrow> ('g, 'c, 'r) frame_stack \<Rightarrow> 'g ptr_env" where
  "frame_resolver env fs = (pointers env)\<lparr>frame_home_block :=
     (\<lambda>serial. map_option (\<lambda>(b, n). (b, of_nat n)) (home_block_of fs serial))\<rparr>"

definition complete_constructor_receiver ::
    "('g, 'c, 'r) ves_env \<Rightarrow> 'g constructor_result \<Rightarrow> ('g, 'c, 'r) ves \<Rightarrow>
     (type_resolution_error, ('g, 'c, 'r) ves) outcome" where
  "complete_constructor_receiver env r ctx =
     and_then (map_err (\<lambda>_. InvalidLayout) (frame_home_window (frame_resolver env (frame_stack ctx)) (result_serial r) 0
                 (of_nat (total_size (result_fields r))))) (\<lambda>a.
       map_outcome (\<lambda>es. ctx\<lparr>evaluation_stack := es\<rparr>)
         (set_slot (result_slot r)
            (ValueType \<lparr>description = result_description r, obj_generics = result_generics r,
               storage_layout = layout_handle env (result_fields r),
               storage_data = read_memory env a (total_size (result_fields r)),
               has_finalizer = False, finalizer_suppressed = False\<rparr>) (evaluation_stack ctx)))"

definition return_value_of :: "('g, 'c, 'r) stack_frame \<Rightarrow> 'g evaluation_stack \<Rightarrow> ('e, 'g stack_value option) outcome" where
  "return_value_of f es =
     (case return_type (info_handle (state f)) of
        ReturnsNothing \<Rightarrow> Ok None
      | _ \<Rightarrow> and_then (uadd (base_stack (base f)) (stack_height f)) (\<lambda>n.
               and_then (usub n 1) (\<lambda>i. map_outcome Some (get_slot i es))))"

definition invoke_return ::
    "('g, 'c, 'r) ves_env \<Rightarrow> 'r \<Rightarrow> ('g, 'c, 'r) ves \<Rightarrow> ('e, ('g, 'c, 'r) ves) outcome" where
  "invoke_return env rt ctx =
     (if is_void env rt then ves_push stack_null ctx
      else and_then (ves_pop ctx) (\<lambda>(v, ctx1).
        and_then (or_panic (and_then (find_concrete_type env (to_concrete env rt)) (is_value_type env))) (\<lambda>vt.
          if vt then and_then (or_panic (box_value env (to_concrete env rt) v)) (\<lambda>obj.
                       ves_push (Stack_Value.ObjectRef obj) ctx1)
          else ves_push v ctx1)))"

definition take_continuation ::
    "('g, 'c, 'r) ves \<Rightarrow> 'r frame_return_action option \<times> ('g, 'c, 'r) ves" where
  "take_continuation ctx =
     (case frames (frame_stack ctx) of
        [] \<Rightarrow> (None, ctx)
      | fs \<Rightarrow> (frame_continuation (last fs),
          ctx\<lparr>frame_stack := (frame_stack ctx)\<lparr>frames := butlast fs @ [(last fs)\<lparr>frame_continuation := None\<rparr>]\<rparr>\<rparr>))"

definition recycle :: "('g, 'c, 'r) stack_frame \<Rightarrow> ('g, 'c, 'r) ves \<Rightarrow> ('e, ('g, 'c, 'r) ves) outcome" where
  "recycle f ctx =
     map_outcome (\<lambda>(fs, th). ctx\<lparr>frame_stack := fs, gauges := th\<rparr>) (recycle_frame f (frame_stack ctx) (gauges ctx))"

text \<open>What leaving a frame, by return or by unwinding, does to the flags of the thread.\<close>

definition leave_finalizer :: "('g, 'c, 'r) stack_frame \<Rightarrow> ('g, 'c, 'r) ves \<Rightarrow> ('g, 'c, 'r) ves" where
  "leave_finalizer f ctx = (if is_finalizer f then ctx\<lparr>processing_finalizer := False\<rparr> else ctx)"

definition return_frame ::
    "('g, 'c, 'r) ves_env \<Rightarrow> ('g, 'c, 'r) ves \<Rightarrow> ('e, step_result \<times> ('g, 'c, 'r) ves) outcome" where
  "return_frame env ctx =
     (case fs_pop (frame_stack ctx) of
        None \<Rightarrow> Panic
      | Some (f, fs0) \<Rightarrow>
          if return_type (info_handle (state f)) = ReturnsTypedReference
          then Ok (Error (Execution InvalidCil), ctx)
          else
            (let ctx0 = ctx\<lparr>frame_stack := fs0\<rparr>;
                 ctx1 = (if is_cctor (info_handle (state f))
                         then ctx0\<lparr>static_table := mark_initialized (static_table ctx0) (cctor_key env f)\<rparr> else ctx0);
                 ctx2 = leave_finalizer f ctx1
             in and_then (return_value_of f (evaluation_stack ctx2)) (\<lambda>ret.
                let ctx3 = clear_evaluation_stack_from (base_arguments (base f)) ctx2 in
                and_then (case ret of None \<Rightarrow> Ok ctx3 | Some v \<Rightarrow> ves_push v ctx3) (\<lambda>ctx4.
                case (case constructor_result f of None \<Rightarrow> Ok ctx4 | Some r \<Rightarrow> complete_constructor_receiver env r ctx4) of
                  Panic \<Rightarrow> Panic
                | Err e \<Rightarrow> map_outcome (Pair (Error (TypeResolution e))) (recycle f ctx4)
                | Ok ctx5 \<Rightarrow>
                    (let (action, ctx6) = take_continuation ctx5 in
                     and_then (case action of None \<Rightarrow> Ok ctx6 | Some (InvokeReturn rt) \<Rightarrow> invoke_return env rt ctx6) (\<lambda>ctx7.
                       map_outcome (Pair step_result.Continue) (recycle f ctx7)))))))"

section \<open>Unwinding a frame\<close>

definition active_exception :: "exception_state \<Rightarrow> object_ref option" where
  "active_exception m =
     (case m of
        Throwing ex _ \<Rightarrow> Some ex
      | Searching s \<Rightarrow> Some (search_exception s)
      | Unwinding u \<Rightarrow> unwind_exception u
      | ExecutingHandler u \<Rightarrow> unwind_exception u
      | Filtering f \<Rightarrow> Some (filter_exception f)
      | NoException \<Rightarrow> None)"

definition initializer_failed_message :: "string \<Rightarrow> string" where
  "initializer_failed_message nm = ''The type initializer for '' @ [CHR 39] @ nm @ [CHR 39] @ '' threw an exception.''"

definition unwind_frame :: "('g, 'c, 'r) ves_env \<Rightarrow> ('g, 'c, 'r) ves \<Rightarrow> ('e, ('g, 'c, 'r) ves) outcome" where
  "unwind_frame env ctx =
     (case fs_pop (frame_stack ctx) of
        None \<Rightarrow> Panic
      | Some (f, fs0) \<Rightarrow>
          and_then
            (let ctx0 = ctx\<lparr>frame_stack := fs0\<rparr> in
             if \<not> is_cctor (info_handle (state f)) then Ok ctx0
             else let ctx1 = ctx0\<lparr>static_table := mark_failed (static_table ctx0) (cctor_key env f)\<rparr> in
               case active_exception (exception_mode ctx1) of
                 None \<Rightarrow> Ok ctx1
               | Some inner \<Rightarrow>
                   map_outcome snd (throw_by_name_with_inner env ''System.TypeInitializationException''
                     (initializer_failed_message (type_name_of env (parent_type (info_handle (state f))))) inner ctx1))
            (\<lambda>ctx2. recycle f (clear_evaluation_stack_from (base_arguments (base f)) (leave_finalizer f ctx2))))"

section \<open>Pending handler unwinds\<close>

definition push_handler_unwind :: "unwind_state \<Rightarrow> ('g, 'c, 'r) ves \<Rightarrow> ('g, 'c, 'r) ves" where
  "push_handler_unwind s ctx =
     (case continuation ctx of
        HandlerUnwinds us \<Rightarrow> ctx\<lparr>continuation := HandlerUnwinds (us @ [s])\<rparr>
      | _ \<Rightarrow> ctx\<lparr>continuation := HandlerUnwinds [s]\<rparr>)"

definition pop_handler_unwind :: "('g, 'c, 'r) ves \<Rightarrow> unwind_state option \<times> ('g, 'c, 'r) ves" where
  "pop_handler_unwind ctx =
     (case continuation ctx of
        HandlerUnwinds us \<Rightarrow>
          (if us = [] then (None, ctx\<lparr>continuation := NoContinuation\<rparr>)
           else (Some (last us),
             ctx\<lparr>continuation := (if butlast us = [] then NoContinuation else HandlerUnwinds (butlast us))\<rparr>))
      | _ \<Rightarrow> (None, ctx))"

end
