(* ===== verification/Exceptions.thy ===== *)
theory Exceptions
  imports Ves "HOL-Library.Product_Lexorder"
begin

text \<open>
  Structured exception handling (\<open>dotnet-exceptions/src/lib.rs\<close> and \<open>dotnet-vm/src/stack/exception_ops_impl.rs\<close>):
  parsing of the metadata, the search pass, filters, the unwind pass, and the instructions that drive them. The
  tail calls of the handlers into \<open>handle_exception\<close> are explicit (\<open>Again\<close>). Stack trace texts are left out.
\<close>

section \<open>Parsing the metadata\<close>

datatype 't exception_kind = TypedException 't | FilterClause nat | FinallyClause | FaultClause

record 't body_exception =
  exception_kind :: "'t exception_kind"
  try_offset :: nat
  try_length :: nat
  handler_offset :: nat
  handler_length :: nat

definition parse_kind ::
    "('t \<Rightarrow> (type_resolution_error, 'c) outcome) \<Rightarrow> 't exception_kind \<Rightarrow> (type_resolution_error, 'c handler_kind) outcome" where
  "parse_kind make_concrete k =
     (case k of
        TypedException t \<Rightarrow> map_outcome Catch (make_concrete t)
      | FilterClause off \<Rightarrow> Ok (Filter off)
      | FinallyClause \<Rightarrow> Ok Finally
      | FaultClause \<Rightarrow> Ok Fault)"

text \<open>The map from try ranges to handlers, as a list of sections with distinct ranges.\<close>

fun add_handler :: "range \<Rightarrow> 'c handler \<Rightarrow> 'c protected_section list \<Rightarrow> 'c protected_section list" where
  "add_handler r h [] = [\<lparr>s_instructions = r, s_handlers = [h]\<rparr>]"
| "add_handler r h (s # ss) =
     (if s_instructions s = r then s\<lparr>s_handlers := s_handlers s @ [h]\<rparr> # ss else s # add_handler r h ss)"

definition parse_one ::
    "('t \<Rightarrow> (type_resolution_error, 'c) outcome) \<Rightarrow> 't body_exception \<Rightarrow> 'c protected_section list \<Rightarrow>
     (type_resolution_error, 'c protected_section list) outcome" where
  "parse_one make_concrete exc sections =
     and_then (uadd (try_offset exc) (try_length exc)) (\<lambda>try_end.
     and_then (uadd (handler_offset exc) (handler_length exc)) (\<lambda>handler_end.
     and_then (parse_kind make_concrete (exception_kind exc)) (\<lambda>kind.
       Ok (add_handler (try_offset exc, try_end)
             \<lparr>h_instructions = (handler_offset exc, handler_end), h_kind = kind\<rparr> sections))))"

definition section_key :: "'c protected_section \<Rightarrow> int \<times> nat" where
  "section_key s = (- int (fst (s_instructions s)), snd (s_instructions s))"

definition exc_parse ::
    "('t \<Rightarrow> (type_resolution_error, 'c) outcome) \<Rightarrow> 't body_exception list \<Rightarrow>
     (type_resolution_error, 'c protected_section list) outcome" where
  "exc_parse make_concrete source =
     map_outcome (sort_key section_key) (fold_outcome (parse_one make_concrete) source [])"

section \<open>Steps of the handler\<close>

datatype ('g, 'c, 'r) exc_next = Finished step_result "('g, 'c, 'r) ves" | Again "('g, 'c, 'r) ves"

type_synonym ('g, 'c, 'r) exc_result = "(vm_error, ('g, 'c, 'r) exc_next) outcome"
type_synonym ('g, 'c, 'r) vm_step = "(vm_error, step_result \<times> ('g, 'c, 'r) ves) outcome"

definition set_mode :: "exception_state \<Rightarrow> ('g, 'c, 'r) ves \<Rightarrow> ('g, 'c, 'r) ves" where
  "set_mode m ctx = ctx\<lparr>exception_mode := m\<rparr>"

definition update_frame ::
    "nat \<Rightarrow> (('g, 'c, 'r) stack_frame \<Rightarrow> ('g, 'c, 'r) stack_frame) \<Rightarrow> ('g, 'c, 'r) ves \<Rightarrow> ('e, ('g, 'c, 'r) ves) outcome" where
  "update_frame i g ctx =
     map_outcome (\<lambda>f. ctx\<lparr>frame_stack := set_frame i (g f) (frame_stack ctx)\<rparr>) (frame_at i (frame_stack ctx))"

definition set_ip :: "nat \<Rightarrow> ('g, 'c, 'r) stack_frame \<Rightarrow> ('g, 'c, 'r) stack_frame" where
  "set_ip n f = f\<lparr>state := (state f)\<lparr>ip := n\<rparr>\<rparr>"

definition address :: "nat \<Rightarrow> nat \<Rightarrow> nat \<Rightarrow> handler_address" where
  "address fi si hi = \<lparr>frame_index = fi, section_index = si, handler_index = hi\<rparr>"

text \<open>The cursor at the top frame; an empty frame stack underflows the index.\<close>

definition top_cursor :: "('g, 'c, 'r) ves \<Rightarrow> ('e, handler_address) outcome" where
  "top_cursor ctx = map_outcome (\<lambda>fi. address fi 0 0) (usub (length (frames (frame_stack ctx))) 1)"

definition sections_of :: "('g, 'c, 'r) stack_frame \<Rightarrow> 'c protected_section list" where
  "sections_of f = exceptions (info_handle (state f))"

definition frame_ip :: "('g, 'c, 'r) stack_frame \<Rightarrow> nat" where
  "frame_ip f = ip (state f)"

section \<open>The search pass\<close>

datatype found = FoundCatch handler_address | FoundFilter handler_address nat

text \<open>Whether a handler takes the exception; a null exception or a failing type test is an error.\<close>

definition catches ::
    "('g, 'c, 'r) ves_env \<Rightarrow> object_ref \<Rightarrow> 'c \<Rightarrow> (type_resolution_error, bool) outcome" where
  "catches env exc t =
     (case exc of
        None \<Rightarrow> Err InvalidHandle
      | Some h \<Rightarrow> and_then (heap_description env h) (\<lambda>d. is_a env d t))"

fun search_handlers ::
    "('g, 'c, 'r) ves_env \<Rightarrow> object_ref \<Rightarrow> nat \<Rightarrow> nat \<Rightarrow> nat \<Rightarrow> 'c handler list \<Rightarrow>
     (type_resolution_error, found option) outcome" where
  "search_handlers env exc fi si hi [] = Ok None"
| "search_handlers env exc fi si hi (h # hs) =
     (case h_kind h of
        Catch t \<Rightarrow> and_then (catches env exc t) (\<lambda>m.
          if m then Ok (Some (FoundCatch (address fi si hi))) else search_handlers env exc fi si (Suc hi) hs)
      | Filter off \<Rightarrow> Ok (Some (FoundFilter (address fi si hi) off))
      | _ \<Rightarrow> search_handlers env exc fi si (Suc hi) hs)"

definition handler_start :: "handler_address \<Rightarrow> nat \<Rightarrow> nat \<Rightarrow> nat" where
  "handler_start cursor fi si =
     (if fi = frame_index cursor \<and> si = section_index cursor then handler_index cursor else 0)"

definition section_start :: "handler_address \<Rightarrow> nat \<Rightarrow> nat" where
  "section_start cursor fi = (if fi = frame_index cursor then section_index cursor else 0)"

fun search_sections ::
    "('g, 'c, 'r) ves_env \<Rightarrow> object_ref \<Rightarrow> handler_address \<Rightarrow> nat \<Rightarrow> nat \<Rightarrow> nat \<Rightarrow> 'c protected_section list \<Rightarrow>
     (type_resolution_error, found option) outcome" where
  "search_sections env exc cursor n fi si [] = Ok None"
| "search_sections env exc cursor n fi si (s # ss) =
     (if \<not> in_range (s_instructions s) n then search_sections env exc cursor n fi (Suc si) ss
      else let hs = handler_start cursor fi si in
        and_then (search_handlers env exc fi si hs (drop hs (s_handlers s))) (\<lambda>r.
          case r of Some x \<Rightarrow> Ok (Some x) | None \<Rightarrow> search_sections env exc cursor n fi (Suc si) ss))"

fun search_frames ::
    "('g, 'c, 'r) ves_env \<Rightarrow> object_ref \<Rightarrow> handler_address \<Rightarrow> ('g, 'c, 'r) frame_stack \<Rightarrow> nat list \<Rightarrow>
     (type_resolution_error, found option) outcome" where
  "search_frames env exc cursor fs [] = Ok None"
| "search_frames env exc cursor fs (fi # fis) =
     and_then (frame_at fi fs) (\<lambda>f.
       let ss = section_start cursor fi in
       and_then (search_sections env exc cursor (frame_ip f) fi ss (drop ss (sections_of f))) (\<lambda>r.
         case r of Some x \<Rightarrow> Ok (Some x) | None \<Rightarrow> search_frames env exc cursor fs fis))"

definition stop_frame :: "exception_state \<Rightarrow> ('e, nat) outcome" where
  "stop_frame m =
     (case m of
        Searching s \<Rightarrow>
          (case search_nested s of
             None \<Rightarrow> Ok 0
           | Some nested \<Rightarrow>
               if frame_index (filter_handler nested) = 0 then Panic else Ok (frame_index (filter_handler nested)))
      | _ \<Rightarrow> Ok 0)"

definition begin_unwind_to ::
    "object_ref \<Rightarrow> handler_address \<Rightarrow> ('g, 'c, 'r) ves \<Rightarrow> ('g, 'c, 'r) exc_result" where
  "begin_unwind_to exc h ctx =
     map_outcome (\<lambda>cursor. Finished Exception (set_mode (Unwinding \<lparr>unwind_exception = Some exc, unwind_to = ToHandler h,
        unwind_cursor = cursor, unwind_nested = None\<rparr>) ctx)) (top_cursor ctx)"

text \<open>Running a filter: the frames and operands above the frame that owns it are suspended.\<close>

definition begin_filter ::
    "object_ref \<Rightarrow> handler_address \<Rightarrow> nat \<Rightarrow> ('g, 'c, 'r) ves \<Rightarrow> ('g, 'c, 'r) exc_result" where
  "begin_filter exc h off ctx =
     (let fi = frame_index h in
      and_then (frame_at fi (frame_stack ctx)) (\<lambda>f.
      and_then (uadd (base_stack (base f)) (stack_height f)) (\<lambda>height.
      let ctx1 = set_mode (Filtering \<lparr>filter_exception = exc, filter_handler = h, filter_ip = frame_ip f,
                   filter_stack_height = height\<rparr>) ctx in
      and_then (es_suspend_above (base_stack (base f)) (evaluation_stack ctx1)) (\<lambda>es.
      and_then (fs_suspend_above fi (frame_stack ctx1) (gauges ctx1)) (\<lambda>(fs, th).
      let ctx2 = ctx1\<lparr>evaluation_stack := es, frame_stack := fs, gauges := th, original_ip := frame_ip f,
                   original_stack_height := stack_height f\<rparr> in
      and_then (update_frame fi (\<lambda>f. set_ip off f\<lparr>stack_height := 0, exception_stack := exception_stack f @ [exc]\<rparr>) ctx2) (\<lambda>ctx3.
        map_outcome (Finished Exception) (ves_push (Stack_Value.ObjectRef exc) ctx3)))))))"

definition extract_managed_exception ::
    "('g, 'c, 'r) ves_env \<Rightarrow> object_ref \<Rightarrow> ('e, managed_exception_info) outcome" where
  "extract_managed_exception env exc =
     (case exc of
        None \<Rightarrow> Panic
      | Some h \<Rightarrow>
          and_then (or_panic (heap_description env h)) (\<lambda>_.
          and_then (or_panic (corlib_exception env)) (\<lambda>_.
            if heap_storage env h = ObjStorage then Ok (describe_exception env h) else Panic)))"

text \<open>No handler: resume an outer search that was filtering, or end the thread's execution.\<close>

definition unhandled ::
    "('g, 'c, 'r) ves_env \<Rightarrow> object_ref \<Rightarrow> ('g, 'c, 'r) ves \<Rightarrow> ('g, 'c, 'r) exc_result" where
  "unhandled env exc ctx =
     (case (case exception_mode ctx of Searching s \<Rightarrow> search_nested s | _ \<Rightarrow> None) of
        Some nested \<Rightarrow>
          map_outcome (\<lambda>cursor. Again (set_mode (Unwinding \<lparr>unwind_exception = Some exc,
              unwind_to = ToInstruction usize_max, unwind_cursor = cursor, unwind_nested = Some nested\<rparr>) ctx))
            (top_cursor ctx)
      | None \<Rightarrow>
          and_then (extract_managed_exception env exc) (\<lambda>info.
          and_then (fs_clear (frame_stack ctx) (gauges ctx)) (\<lambda>(fs, th).
            Ok (Finished (MethodThrew info) (set_mode NoException (ctx\<lparr>frame_stack := fs, gauges := th,
                  evaluation_stack := es_clear (evaluation_stack ctx)\<rparr>))))))"

definition search_for_handler ::
    "('g, 'c, 'r) ves_env \<Rightarrow> object_ref \<Rightarrow> handler_address \<Rightarrow> ('g, 'c, 'r) ves \<Rightarrow> ('g, 'c, 'r) exc_result" where
  "search_for_handler env exc cursor ctx =
     and_then (stop_frame (exception_mode ctx)) (\<lambda>stop.
       case search_frames env exc cursor (frame_stack ctx) (rev [stop ..< Suc (frame_index cursor)]) of
         Panic \<Rightarrow> Panic
       | Err e \<Rightarrow> Ok (Finished (Error (TypeResolution e)) ctx)
       | Ok (Some (FoundCatch h)) \<Rightarrow> begin_unwind_to exc h ctx
       | Ok (Some (FoundFilter h off)) \<Rightarrow> begin_filter exc h off ctx
       | Ok None \<Rightarrow> unhandled env exc ctx)"

section \<open>Throwing\<close>

text \<open>
  The stack trace is written into the exception, which has to be an object; a state that was searching or
  filtering keeps its suspended frames.
\<close>

definition begin_throwing ::
    "('g, 'c, 'r) ves_env \<Rightarrow> object_ref \<Rightarrow> bool \<Rightarrow> ('g, 'c, 'r) ves \<Rightarrow> ('g, 'c, 'r) exc_result" where
  "begin_throwing env exc preserve ctx =
     and_then (current_frame (frame_stack ctx)) (\<lambda>_.
       case corlib_exception env of
         Panic \<Rightarrow> Panic
       | Err e \<Rightarrow> Ok (Finished (Error (TypeResolution e)) ctx)
       | Ok _ \<Rightarrow>
           if (case exc of None \<Rightarrow> True | Some h \<Rightarrow> heap_storage env h \<noteq> ObjStorage) then Panic
           else
             and_then (case exception_mode ctx of
                 NoException \<Rightarrow> fs_clear_suspended (frame_stack ctx) (gauges ctx)
               | Throwing _ _ \<Rightarrow> fs_clear_suspended (frame_stack ctx) (gauges ctx)
               | _ \<Rightarrow> Ok (frame_stack ctx, gauges ctx)) (\<lambda>(fs, th).
             let es = (case exception_mode ctx of
                   NoException \<Rightarrow> es_clear_suspended (evaluation_stack ctx)
                 | Throwing _ _ \<Rightarrow> es_clear_suspended (evaluation_stack ctx)
                 | _ \<Rightarrow> evaluation_stack ctx);
                 nested = (case exception_mode ctx of
                   Filtering s \<Rightarrow> Some s | Searching s \<Rightarrow> search_nested s | _ \<Rightarrow> None);
                 ctx1 = ctx\<lparr>frame_stack := fs, gauges := th, evaluation_stack := es\<rparr>
             in map_outcome (\<lambda>cursor. Again (set_mode (Searching \<lparr>search_exception = exc, search_cursor = cursor,
                  search_nested = nested\<rparr>) ctx1)) (top_cursor ctx1)))"

section \<open>The unwind pass\<close>

definition is_exiting_section :: "'c protected_section \<Rightarrow> nat \<Rightarrow> unwind_target \<Rightarrow> bool" where
  "is_exiting_section s n target =
     (case target of
        ToHandler _ \<Rightarrow> in_range (s_instructions s) n
      | ToInstruction t \<Rightarrow>
          \<not> list_ex (\<lambda>h. in_range (h_instructions h) n \<and> in_range (h_instructions h) t) (s_handlers s) \<and>
          (in_range (s_instructions s) n \<or> list_ex (\<lambda>h. in_range (h_instructions h) n) (s_handlers s)) \<and>
          \<not> in_range (s_instructions s) t)"

definition should_run :: "object_ref option \<Rightarrow> 'c handler \<Rightarrow> bool" where
  "should_run exc h = (case h_kind h of Finally \<Rightarrow> True | Fault \<Rightarrow> exc \<noteq> None | _ \<Rightarrow> False)"

text \<open>A handler that is being left is not run again; a catch or filter then ends its exception.\<close>

fun unwind_handlers ::
    "object_ref option \<Rightarrow> nat \<Rightarrow> nat \<Rightarrow> nat \<Rightarrow> 'c handler list \<Rightarrow> ('g, 'c, 'r) ves \<Rightarrow>
     ('e, (nat \<times> 'c handler) option \<times> ('g, 'c, 'r) ves) outcome" where
  "unwind_handlers exc n fi hi [] ctx = Ok (None, ctx)"
| "unwind_handlers exc n fi hi (h # hs) ctx =
     (if in_range (h_instructions h) n then
        and_then (case h_kind h of
            Catch _ \<Rightarrow> update_frame fi (\<lambda>f. f\<lparr>exception_stack := butlast (exception_stack f)\<rparr>) ctx
          | Filter _ \<Rightarrow> update_frame fi (\<lambda>f. f\<lparr>exception_stack := butlast (exception_stack f)\<rparr>) ctx
          | _ \<Rightarrow> Ok ctx) (unwind_handlers exc n fi (Suc hi) hs)
      else if should_run exc h then Ok (Some (hi, h), ctx)
      else unwind_handlers exc n fi (Suc hi) hs ctx)"

definition past_target :: "unwind_target \<Rightarrow> nat \<Rightarrow> nat \<Rightarrow> bool" where
  "past_target target fi si =
     (case target of ToHandler h \<Rightarrow> fi = frame_index h \<and> section_index h \<le> si | ToInstruction _ \<Rightarrow> False)"

fun unwind_sections ::
    "object_ref option \<Rightarrow> unwind_target \<Rightarrow> handler_address \<Rightarrow> nat \<Rightarrow> nat \<Rightarrow> nat \<Rightarrow> 'c protected_section list \<Rightarrow>
     ('g, 'c, 'r) ves \<Rightarrow> ('e, (nat \<times> nat \<times> 'c handler) option \<times> ('g, 'c, 'r) ves) outcome" where
  "unwind_sections exc target cursor n fi si [] ctx = Ok (None, ctx)"
| "unwind_sections exc target cursor n fi si (s # ss) ctx =
     (if past_target target fi si then Ok (None, ctx)
      else if \<not> is_exiting_section s n target then unwind_sections exc target cursor n fi (Suc si) ss ctx
      else let hs = handler_start cursor fi si in
        and_then (unwind_handlers exc n fi hs (drop hs (s_handlers s)) ctx) (\<lambda>(r, ctx1).
          case r of
            Some (hi, h) \<Rightarrow> Ok (Some (si, hi, h), ctx1)
          | None \<Rightarrow> unwind_sections exc target cursor n fi (Suc si) ss ctx1))"

datatype 'c unwind_scan = RunHandler nat nat nat "'c handler" nat | Preempted | Reached

fun unwind_frames ::
    "('g, 'c, 'r) ves_env \<Rightarrow> object_ref option \<Rightarrow> unwind_target \<Rightarrow> handler_address \<Rightarrow> nat \<Rightarrow> nat list \<Rightarrow>
     ('g, 'c, 'r) ves \<Rightarrow> ('e, 'c unwind_scan \<times> ('g, 'c, 'r) ves) outcome" where
  "unwind_frames env exc target cursor target_frame [] ctx = Ok (Reached, ctx)"
| "unwind_frames env exc target cursor target_frame (fi # fis) ctx =
     and_then (frame_at fi (frame_stack ctx)) (\<lambda>f.
       let ss = section_start cursor fi in
       and_then (unwind_sections exc target cursor (frame_ip f) fi ss (drop ss (sections_of f)) ctx) (\<lambda>(r, ctx1).
         case r of
           Some (si, hi, h) \<Rightarrow> Ok (RunHandler fi si hi h (length (s_handlers (sections_of f ! si))), ctx1)
         | None \<Rightarrow>
             if target_frame < fi then
               and_then (unwind_frame env ctx1) (\<lambda>ctx2.
                 case exception_mode ctx2 of
                   Throwing _ _ \<Rightarrow> Ok (Preempted, ctx2)
                 | _ \<Rightarrow> unwind_frames env exc target cursor target_frame fis ctx2)
             else unwind_frames env exc target cursor target_frame fis ctx1))"

definition target_frame_of :: "unwind_state \<Rightarrow> nat" where
  "target_frame_of u =
     (case unwind_to u of
        ToHandler h \<Rightarrow> frame_index h
      | ToInstruction _ \<Rightarrow>
          (case unwind_nested u of
             Some nested \<Rightarrow> frame_index (filter_handler nested)
           | None \<Rightarrow> frame_index (unwind_cursor u)))"

definition complete_nested_filter_unwind ::
    "filter_state \<Rightarrow> ('g, 'c, 'r) ves \<Rightarrow> ('g, 'c, 'r) exc_result" where
  "complete_nested_filter_unwind nested ctx =
     (let h = filter_handler nested;
          ctx1 = ctx\<lparr>evaluation_stack := es_restore_suspended (evaluation_stack ctx),
                     frame_stack := fs_restore_suspended (frame_stack ctx)\<rparr> in
      and_then (update_frame (frame_index h) (\<lambda>f. set_ip (filter_ip nested)
          (f\<lparr>stack_height := filter_stack_height nested - base_stack (base f),
             exception_stack := butlast (exception_stack f)\<rparr>)) ctx1) (\<lambda>ctx2.
        and_then (uadd (handler_index h) 1) (\<lambda>hi.
          Ok (Again (set_mode (Searching \<lparr>search_exception = filter_exception nested,
            search_cursor = address (frame_index h) (section_index h) hi, search_nested = None\<rparr>) ctx2)))))"

definition next_cursor :: "nat \<Rightarrow> nat \<Rightarrow> nat \<Rightarrow> nat \<Rightarrow> handler_address" where
  "next_cursor fi si hi handler_count =
     (if hi + 1 < handler_count then address fi si (hi + 1) else address fi (si + 1) 0)"

definition enter_catch ::
    "object_ref option \<Rightarrow> handler_address \<Rightarrow> ('g, 'c, 'r) ves \<Rightarrow> ('g, 'c, 'r) exc_result" where
  "enter_catch exc h ctx =
     and_then (frame_at (frame_index h) (frame_stack ctx)) (\<lambda>f.
       if section_index h < length (sections_of f) \<and>
          handler_index h < length (s_handlers (sections_of f ! section_index h))
       then
         (let start = fst (h_instructions (s_handlers (sections_of f ! section_index h) ! handler_index h));
              ctx1 = ctx\<lparr>evaluation_stack := es_truncate (base_stack (base f)) (evaluation_stack ctx)\<rparr> in
          case exc of
            None \<Rightarrow> Panic
          | Some e \<Rightarrow>
              and_then (update_frame (frame_index h) (\<lambda>f. set_ip start
                  (f\<lparr>stack_height := 0, exception_stack := exception_stack f @ [e]\<rparr>)) ctx1) (\<lambda>ctx2.
                map_outcome (Finished Exception) (ves_push (Stack_Value.ObjectRef e) ctx2)))
       else Panic)"

definition finish_unwind :: "unwind_state \<Rightarrow> ('g, 'c, 'r) ves \<Rightarrow> ('g, 'c, 'r) exc_result" where
  "finish_unwind u ctx =
     (case (unwind_to u, unwind_nested u) of
        (ToHandler h, _) \<Rightarrow> enter_catch (unwind_exception u) h (set_mode NoException ctx)
      | (ToInstruction t, nested) \<Rightarrow>
          if t = usize_max then
            (case nested of
               Some n \<Rightarrow> complete_nested_filter_unwind n ctx
             | None \<Rightarrow> Ok (Finished Return (set_mode NoException ctx)))
          else
            (let (resumed, ctx1) = pop_handler_unwind ctx;
                 ctx2 = set_mode (case resumed of Some s \<Rightarrow> ExecutingHandler s | None \<Rightarrow> NoException) ctx1 in
             map_outcome (Finished Exception)
               (update_frame (target_frame_of u) (\<lambda>f. set_ip t (f\<lparr>stack_height := 0\<rparr>)) ctx2)))"

definition unwind :: "('g, 'c, 'r) ves_env \<Rightarrow> unwind_state \<Rightarrow> ('g, 'c, 'r) ves \<Rightarrow> ('g, 'c, 'r) exc_result" where
  "unwind env u ctx =
     and_then (unwind_frames env (unwind_exception u) (unwind_to u) (unwind_cursor u) (target_frame_of u)
         (rev [target_frame_of u ..< Suc (frame_index (unwind_cursor u))]) ctx) (\<lambda>(r, ctx1).
       case r of
         RunHandler fi si hi h count \<Rightarrow>
           map_outcome (Finished Exception)
             (update_frame fi (\<lambda>f. set_ip (fst (h_instructions h)) (f\<lparr>stack_height := 0\<rparr>))
               (set_mode (ExecutingHandler (u\<lparr>unwind_cursor := next_cursor fi si hi count\<rparr>)) ctx1))
       | Preempted \<Rightarrow> Ok (Again ctx1)
       | Reached \<Rightarrow> finish_unwind u ctx1)"

section \<open>The state machine\<close>

definition handle_once :: "('g, 'c, 'r) ves_env \<Rightarrow> ('g, 'c, 'r) ves \<Rightarrow> ('g, 'c, 'r) exc_result" where
  "handle_once env ctx =
     (case exception_mode ctx of
        NoException \<Rightarrow> Ok (Finished Exception ctx)
      | Throwing exc preserve \<Rightarrow> begin_throwing env exc preserve ctx
      | Searching s \<Rightarrow> search_for_handler env (search_exception s) (search_cursor s) ctx
      | Unwinding u \<Rightarrow> unwind env u ctx
      | _ \<Rightarrow> Ok (Finished Exception ctx))"

partial_function (option) handle_exception ::
    "('g, 'c, 'r) ves_env \<Rightarrow> ('g, 'c, 'r) ves \<Rightarrow> ('g, 'c, 'r) vm_step option" where
  "handle_exception env ctx =
     (case handle_once env ctx of
        Panic \<Rightarrow> Some Panic
      | Err e \<Rightarrow> Some (Err e)
      | Ok nxt \<Rightarrow> (case nxt of Finished r c \<Rightarrow> Some (Ok (r, c)) | Again c \<Rightarrow> handle_exception env c))"

section \<open>The instructions\<close>

definition throw_op :: "('g, 'c, 'r) ves_env \<Rightarrow> object_ref \<Rightarrow> ('g, 'c, 'r) ves \<Rightarrow> ('g, 'c, 'r) vm_step option" where
  "throw_op env exc ctx = handle_exception env (set_mode (Throwing exc False) ctx)"

definition rethrow_op :: "('g, 'c, 'r) ves_env \<Rightarrow> ('g, 'c, 'r) ves \<Rightarrow> ('g, 'c, 'r) vm_step option" where
  "rethrow_op env ctx =
     (case current_frame (frame_stack ctx) of
        Ok f \<Rightarrow>
          (if exception_stack f = [] then Some (Ok (Error (Execution InvalidCil), ctx))
           else handle_exception env (set_mode (Throwing (last (exception_stack f)) True) ctx))
      | Err e \<Rightarrow> Some (Err e)
      | Panic \<Rightarrow> Some Panic)"

definition leave_op :: "('g, 'c, 'r) ves_env \<Rightarrow> nat \<Rightarrow> ('g, 'c, 'r) ves \<Rightarrow> ('g, 'c, 'r) vm_step option" where
  "leave_op env target_ip ctx =
     (case top_cursor ctx of
        Ok cursor \<Rightarrow>
          (let ctx1 = (case exception_mode ctx of
                 ExecutingHandler s \<Rightarrow>
                   if frame_index (unwind_cursor s) < frame_index cursor then push_handler_unwind s ctx else ctx
               | _ \<Rightarrow> ctx)
           in handle_exception env (set_mode (Unwinding \<lparr>unwind_exception = None, unwind_to = ToInstruction target_ip,
                unwind_cursor = cursor, unwind_nested = None\<rparr>) ctx1))
      | Err e \<Rightarrow> Some (Err e)
      | Panic \<Rightarrow> Some Panic)"

definition endfinally_op :: "('g, 'c, 'r) ves_env \<Rightarrow> ('g, 'c, 'r) ves \<Rightarrow> ('g, 'c, 'r) vm_step option" where
  "endfinally_op env ctx =
     (case exception_mode ctx of
        ExecutingHandler s \<Rightarrow> handle_exception env (set_mode (Unwinding s) ctx)
      | _ \<Rightarrow> Some (Ok (Error (Execution InvalidCil), ctx)))"

definition endfilter_op :: "i32 \<Rightarrow> ('g, 'c, 'r) ves \<Rightarrow> ('g, 'c, 'r) vm_step" where
  "endfilter_op result ctx =
     (case exception_mode ctx of
        Filtering s \<Rightarrow>
          (let h = filter_handler s in
           and_then (update_frame (frame_index h) (\<lambda>f. set_ip (filter_ip s)
               (f\<lparr>stack_height := filter_stack_height s - base_stack (base f),
                  exception_stack := butlast (exception_stack f)\<rparr>)) ctx) (\<lambda>ctx1.
           let ctx2 = ctx1\<lparr>evaluation_stack := es_restore_suspended (evaluation_stack ctx1),
                           frame_stack := fs_restore_suspended (frame_stack ctx1)\<rparr> in
           if result = 1 then
             map_outcome (\<lambda>cursor. (Exception, set_mode (Unwinding \<lparr>unwind_exception = Some (filter_exception s),
                 unwind_to = ToHandler h, unwind_cursor = cursor, unwind_nested = None\<rparr>) ctx2)) (top_cursor ctx2)
           else
             map_outcome (\<lambda>hi. (Exception, set_mode (Searching \<lparr>search_exception = filter_exception s,
                 search_cursor = address (frame_index h) (section_index h) hi, search_nested = None\<rparr>) ctx2))
               (uadd (handler_index h) 1)))
      | _ \<Rightarrow> Ok (Error (Execution InvalidCil), ctx))"

definition has_finally_blocks :: "('g, 'c, 'r) stack_frame \<Rightarrow> bool" where
  "has_finally_blocks f =
     list_ex (\<lambda>s. in_range (s_instructions s) (frame_ip f) \<and>
       list_ex (\<lambda>h. h_kind h = Finally \<or> h_kind h = Fault) (s_handlers s)) (sections_of f)"

definition ret_op :: "('g, 'c, 'r) ves_env \<Rightarrow> ('g, 'c, 'r) ves \<Rightarrow> ('g, 'c, 'r) vm_step option" where
  "ret_op env ctx =
     (case top_cursor ctx of
        Ok cursor \<Rightarrow>
          (let f = last (frames (frame_stack ctx));
               plain = (if has_finally_blocks f
                 then handle_exception env (set_mode (Unwinding \<lparr>unwind_exception = None,
                   unwind_to = ToInstruction usize_max, unwind_cursor = cursor, unwind_nested = None\<rparr>) ctx)
                 else Some (Ok (Return, ctx)))
           in case exception_mode ctx of
                ExecutingHandler s \<Rightarrow>
                  if frame_index (unwind_cursor s) = frame_index cursor
                  then handle_exception env (set_mode (Unwinding (s\<lparr>unwind_to := ToInstruction usize_max\<rparr>)) ctx)
                  else plain
              | _ \<Rightarrow> plain)
      | Err e \<Rightarrow> Some (Err e)
      | Panic \<Rightarrow> Some Panic)"

end
