(* ===== verification/Ves_Sample.thy ===== *)
theory Ves_Sample
  imports Exceptions
begin

text \<open>
  A small concrete world to run the execution context in: types are numbers, every exception is of the type 1,
  every heap object is a plain object. The witnesses of the exception handling and call properties use it.
\<close>

definition sample_env :: "(unit, nat, unit) ves_env" where
  "sample_env = \<lparr>host_env = \<lparr>alloc_fn = (\<lambda>_ _. 4096), reserve_ok = True\<rparr>, pointers = sample_ptr_env,
     read_memory = (\<lambda>_ n. replicate n 0), concrete_local = (\<lambda>_ _. Ok CInt32),
     find_concrete_type = (\<lambda>t. Ok (TypeDescription 0 0)), is_typed_reference = (\<lambda>_. False),
     is_value_type = (\<lambda>_. Ok False), store_home_argument = (\<lambda>_ _. Ok ()),
     new_local_object = (\<lambda>_ _ _. Err InvalidLayout), heap_storage = (\<lambda>_. ObjStorage),
     from_type_generics = id, layout_handle = (\<lambda>_. 0), is_void = (\<lambda>_. True), to_concrete = (\<lambda>_. 0),
     box_value = (\<lambda>_ _. Ok None), exception_named = (\<lambda>_ _ _. Ok (Some 64)),
     corlib_exception = Ok (TypeDescription 0 0), heap_description = (\<lambda>_. Ok (TypeDescription 0 0)),
     is_a = (\<lambda>_ t. Ok (t = 1)),
     describe_exception = (\<lambda>_. \<lparr>type_name = ''System.Exception'', message = None, stack_trace = None\<rparr>),
     type_name_of = (\<lambda>_. ''Sample'')\<rparr>"

definition sample_method :: "nat protected_section list \<Rightarrow> return_kind \<Rightarrow> nat \<Rightarrow> (unit, nat) method_info" where
  "sample_method sections ret params = \<lparr>has_this = False, parameter_count = params, return_type = ret, method_locals = [],
     max_stack = 8, exceptions = sections, instruction_count = 32, parent_type = TypeDescription 0 0, is_cctor = False,
     method_homes = None\<rparr>"

definition sample_frame :: "(unit, nat) method_info \<Rightarrow> nat \<Rightarrow> nat \<Rightarrow> nat \<Rightarrow> (unit, nat, unit) stack_frame" where
  "sample_frame info bottom n height =
     set_ip n ((stack_frame_new \<lparr>base_arguments = bottom, base_locals = bottom, base_stack = bottom\<rparr> info () [])
       \<lparr>stack_height := height\<rparr>)"

definition sample_ves :: "(unit, nat, unit) stack_frame list \<Rightarrow> unit stack_value list \<Rightarrow> exception_state \<Rightarrow> (unit, nat, unit) ves" where
  "sample_ves fs vs m = \<lparr>evaluation_stack = \<lparr>stack = vs, suspended_stack = []\<rparr>,
     frame_stack = \<lparr>frames = fs, suspended_frames = [], pooled_frames = [], last_home_serial = 0\<rparr>,
     gauges = \<lparr>thread_bytes = 0, live_blocks = 0\<rparr>, exception_mode = m, continuation = NoContinuation,
     original_ip = 0, original_stack_height = 0, processing_finalizer = False, static_table = statics_new\<rparr>"

definition sample_section :: "nat \<Rightarrow> nat \<Rightarrow> (nat \<times> nat \<times> nat handler_kind) list \<Rightarrow> nat protected_section" where
  "sample_section a b hs = \<lparr>s_instructions = (a, b),
     s_handlers = map (\<lambda>(c, d, k). \<lparr>h_instructions = (c, d), h_kind = k\<rparr>) hs\<rparr>"

lemmas sample_simps = sample_env_def sample_method_def sample_frame_def sample_ves_def sample_section_def set_ip_def
  stack_frame_new_def method_state_new_def frame_allocations_default_def set_mode_def update_frame_def frame_at_def
  set_frame_def map_current_def current_frame_def top_cursor_def address_def sections_of_def frame_ip_def in_range_def
  usub_def uadd_def usize_max_def

end
