(* ===== verification/Frame_Storage.thy ===== *)
theory Frame_Storage
  imports Frames
begin

text \<open>
  What the frames of a thread own over the whole life of the thread: the \<open>localloc\<close> charges against the
  budgets, the raw blocks, and the serials of the home blocks that byrefs name. The operations on frames are
  the steps of a transition system; pooled frames own nothing.
\<close>

section \<open>What a frame owns\<close>

definition used_of :: "('g, 'c, 'r) stack_frame \<Rightarrow> nat" where
  "used_of f = fa_used (allocations (state f))"

definition block_count :: "('g, 'c, 'r) stack_frame \<Rightarrow> nat" where
  "block_count f = length (fa_blocks (allocations (state f))) + length (home_blocks (homes f))"

definition serials_of :: "('g, 'c, 'r) stack_frame \<Rightarrow> u64 list" where
  "serials_of f = map hb_serial (home_blocks (homes f))"

abbreviation used_sum :: "('g, 'c, 'r) stack_frame list \<Rightarrow> nat" where
  "used_sum xs \<equiv> sum_list (map used_of xs)"

abbreviation block_sum :: "('g, 'c, 'r) stack_frame list \<Rightarrow> nat" where
  "block_sum xs \<equiv> sum_list (map block_count xs)"

abbreviation serials :: "('g, 'c, 'r) stack_frame list \<Rightarrow> u64 list" where
  "serials xs \<equiv> concat (map serials_of xs)"

definition owns_nothing :: "('g, 'c, 'r) stack_frame \<Rightarrow> bool" where
  "owns_nothing f \<longleftrightarrow> used_of f = 0 \<and> block_count f = 0"

lemma owns_nothing_serials: "owns_nothing f \<Longrightarrow> serials_of f = []"
  by (simp add: owns_nothing_def block_count_def serials_of_def)

lemma owns_nothing_sums:
  "\<forall>f \<in> set xs. owns_nothing f \<Longrightarrow> used_sum xs = 0 \<and> block_sum xs = 0 \<and> serials xs = []"
  by (induction xs) (auto simp: owns_nothing_def owns_nothing_serials)

lemma owns_nothing_new: "owns_nothing (stack_frame_new bp info gens pinned)"
  by (simp add: owns_nothing_def used_of_def block_count_def stack_frame_new_def method_state_new_def
      frame_allocations_default_def)

definition frames_owned :: "('g, 'c, 'r) frame_stack \<Rightarrow> ('g, 'c, 'r) stack_frame list" where
  "frames_owned fs = frames fs @ suspended_frames fs"

definition storage_inv :: "('g, 'c, 'r) frame_stack \<Rightarrow> alloc_thread \<Rightarrow> bool" where
  "storage_inv fs th \<longleftrightarrow>
     thread_bytes th = used_sum (frames_owned fs) \<and>
     thread_bytes th \<le> per_thread frame_budget_default \<and>
     (\<forall>f \<in> set (frames_owned fs). used_of f \<le> per_frame frame_budget_default) \<and>
     block_sum (frames_owned fs) \<le> live_blocks th \<and>
     distinct (serials (frames_owned fs)) \<and>
     (\<forall>s \<in> set (serials (frames_owned fs)). 0 < s \<and> s \<le> last_home_serial fs) \<and>
     (\<forall>f \<in> set (pooled_frames fs). owns_nothing f)"

section \<open>Releasing frames\<close>

lemma release_frame:
  assumes "used_of f \<le> thread_bytes th" and "block_count f \<le> live_blocks th"
  defines "th' \<equiv> \<lparr>thread_bytes = thread_bytes th - used_of f, live_blocks = live_blocks th - block_count f\<rparr>"
  shows "drop_frame f th = (Ok th' :: ('e, _) outcome)"
    and "\<exists>f'. prepare_for_pool f th = (Ok (f', th') :: ('e, _) outcome) \<and> owns_nothing f'"
    and "\<exists>f'. reset_for_call bp info gens pinned f th = (Ok (f', th') :: ('e, _) outcome) \<and> owns_nothing f'"
  using assms(1,2)
  by (auto simp: drop_frame_def prepare_for_pool_def reset_for_call_def release_all_enough homes_release_enough
      th'_def used_of_def block_count_def owns_nothing_def frame_allocations_default_def method_state_new_def)

lemma drop_frames_enough:
  assumes "used_sum xs \<le> thread_bytes th" and "block_sum xs \<le> live_blocks th"
  shows "drop_frames xs th = (Ok \<lparr>thread_bytes = thread_bytes th - used_sum xs,
    live_blocks = live_blocks th - block_sum xs\<rparr> :: ('e, _) outcome)"
  using assms
proof (induction xs arbitrary: th)
  case Nil
  then show ?case by (simp add: drop_frames_def)
next
  case (Cons f xs)
  have "drop_frame f th = (Ok \<lparr>thread_bytes = thread_bytes th - used_of f,
      live_blocks = live_blocks th - block_count f\<rparr> :: ('e, _) outcome)"
    using Cons.prems by (intro release_frame(1)) auto
  then show ?case
    using Cons.IH [of "\<lparr>thread_bytes = thread_bytes th - used_of f, live_blocks = live_blocks th - block_count f\<rparr>"]
      Cons.prems by (simp add: drop_frames_def algebra_simps)
qed

lemma frames_snoc: "frames fs \<noteq> [] \<Longrightarrow> frames fs = butlast (frames fs) @ [last (frames fs)]"
  by simp

section \<open>The steps\<close>

inductive frame_step ::
    "('g, 'c, 'r) frame_stack \<times> alloc_thread \<Rightarrow> ('g, 'c, 'r) frame_stack \<times> alloc_thread \<Rightarrow> bool" where
  enter: "enter_frame host bp info gens pinned fs th = Ok w \<Longrightarrow> frame_step (fs, th) w"
| homes_refused: "issue_home_serial fs = (Ok (s, fs') :: (unit, _) outcome) \<Longrightarrow> frame_step (fs, th) (fs', th)"
| localloc: "localloc host sz fs th = Ok (a, w) \<Longrightarrow> frame_step (fs, th) w"
| temporary: "temporary_home host l fs th = Ok (a, w) \<Longrightarrow> frame_step (fs, th) w"
| recycle: "pop_and_recycle fs th = (Ok (b, w) :: (unit, _) outcome) \<Longrightarrow> frame_step (fs, th) w"
| suspend: "fs_suspend_above i fs th = (Ok w :: (unit, _) outcome) \<Longrightarrow> frame_step (fs, th) w"
| restore: "frame_step (fs, th) (fs_restore_suspended fs, th)"
| drop_suspended: "fs_clear_suspended fs th = (Ok w :: (unit, _) outcome) \<Longrightarrow> frame_step (fs, th) w"
| clear_all: "fs_clear fs th = (Ok w :: (unit, _) outcome) \<Longrightarrow> frame_step (fs, th) w"
| update: "i < length (frames fs) \<Longrightarrow> allocations (state f) = allocations (state (frames fs ! i)) \<Longrightarrow>
    homes f = homes (frames fs ! i) \<Longrightarrow> frame_step (fs, th) (set_frame i f fs, th)"

definition frame_reachable :: "('g, 'c, 'r) frame_stack \<times> alloc_thread \<Rightarrow> bool" where
  "frame_reachable w \<longleftrightarrow>
     frame_step\<^sup>*\<^sup>* (frame_stack_new, \<lparr>thread_bytes = 0, live_blocks = 0\<rparr>) w"

section \<open>The invariant\<close>

text \<open>Serials only grow: a live serial was live before or is larger than every serial issued before.\<close>

definition ages :: "('g, 'c, 'r) frame_stack \<Rightarrow> ('g, 'c, 'r) frame_stack \<Rightarrow> bool" where
  "ages fs fs' \<longleftrightarrow> last_home_serial fs \<le> last_home_serial fs' \<and>
     set (serials (frames_owned fs')) \<subseteq> set (serials (frames_owned fs)) \<union> {s. last_home_serial fs < s}"

lemma ages_refl: "ages fs fs"
  by (simp add: ages_def)

lemma ages_trans: "ages fs fs' \<Longrightarrow> ages fs' fs'' \<Longrightarrow> ages fs fs''"
  by (fastforce simp: ages_def)

lemma map_current_Ok [outcome_simps]:
  "map_current g fs = (Ok fs' :: ('e, _) outcome) \<longleftrightarrow>
     (\<exists>xs f. frames fs = xs @ [f] \<and> fs' = fs\<lparr>frames := xs @ [g f]\<rparr>)"
proof (cases "frames fs" rule: rev_cases)
  case (snoc xs f)
  then show ?thesis by (auto simp: map_current_def current_frame_def set_frame_def)
qed (simp add: map_current_def current_frame_def)

lemma issue_home_serial_Ok [outcome_simps]:
  "issue_home_serial fs = (Ok (s, fs') :: ('e, _) outcome) \<longleftrightarrow>
     last_home_serial fs \<noteq> - 1 \<and> s = last_home_serial fs + 1 \<and> fs' = fs\<lparr>last_home_serial := s\<rparr>"
  by (auto simp: issue_home_serial_def frame_home_serial_next_def)

lemma serial_fresh:
  assumes "storage_inv fs th" and "last_home_serial fs \<noteq> - 1"
  shows "last_home_serial fs + 1 \<notin> set (serials (frames_owned fs))" and "0 < last_home_serial fs + 1"
    and "\<And>s. s \<le> last_home_serial fs \<Longrightarrow> s \<le> last_home_serial fs + 1"
proof -
  have less: "last_home_serial fs < last_home_serial fs + 1" by (rule word_less_succ [OF assms(2)])
  then show "last_home_serial fs + 1 \<notin> set (serials (frames_owned fs))"
    using assms(1) by (fastforce simp: storage_inv_def)
  show "0 < last_home_serial fs + 1" using less word_neq_0_conv by fastforce
  show "s \<le> last_home_serial fs + 1" if "s \<le> last_home_serial fs" for s using that less by simp
qed

lemma inv_issue:
  assumes "storage_inv fs th" and "issue_home_serial fs = (Ok (s, fs') :: ('e, _) outcome)"
  shows "storage_inv fs' th" and "0 < s" and "s \<notin> set (serials (frames_owned fs'))"
    and "last_home_serial fs' = s" and "last_home_serial fs < s"
    and "frames fs' = frames fs" and "suspended_frames fs' = suspended_frames fs"
  using assms serial_fresh [OF assms(1)] word_less_succ [of "last_home_serial fs"]
  by (auto simp: storage_inv_def frames_owned_def outcome_simps)

lemma inv_push:
  assumes "storage_inv fs th" and "push_frame bp info gens pinned fs th = (Ok (fs', th') :: ('e, _) outcome)"
  shows "th' = th \<and> (\<exists>f. owns_nothing f \<and> frames fs' = frames fs @ [f]) \<and>
    suspended_frames fs' = suspended_frames fs \<and> last_home_serial fs' = last_home_serial fs \<and>
    (\<forall>f \<in> set (pooled_frames fs'). owns_nothing f)"
proof (cases "pooled_frames fs = []")
  case True
  then show ?thesis using assms owns_nothing_new by (auto simp: push_frame_def storage_inv_def)
next
  case False
  let ?p = "last (pooled_frames fs)"
  have pool: "\<forall>f \<in> set (butlast (pooled_frames fs)). owns_nothing f"
    using assms(1) by (metis in_set_butlastD storage_inv_def)
  have p: "owns_nothing ?p" using assms(1) False by (auto simp: storage_inv_def)
  have "\<exists>f'. reset_for_call bp info gens pinned ?p th = (Ok (f', \<lparr>thread_bytes = thread_bytes th - used_of ?p,
      live_blocks = live_blocks th - block_count ?p\<rparr>) :: ('e, _) outcome) \<and> owns_nothing f'"
    using p by (intro release_frame(3)) (simp_all add: owns_nothing_def)
  then obtain f' where "reset_for_call bp info gens pinned ?p th = (Ok (f', th) :: ('e, _) outcome)" "owns_nothing f'"
    using p by (auto simp: owns_nothing_def)
  then show ?thesis
    using assms False pool by (auto simp: push_frame_def storage_inv_def)
qed

text \<open>Giving the top frame a new block or a new charge.\<close>

lemma inv_top:
  assumes "storage_inv fs th" and "frames fs = xs @ [f]"
    and "used_of f' = used_of f + c" "thread_bytes th' = thread_bytes th + c"
    and "used_of f' \<le> per_frame frame_budget_default" "thread_bytes th' \<le> per_thread frame_budget_default"
    and "block_count f' = block_count f + 1" "live_blocks th' = live_blocks th + 1"
    and "serials_of f' = serials_of f @ ss" "distinct ss" "set ss \<inter> set (serials (frames_owned fs)) = {}"
    and "\<forall>s \<in> set ss. 0 < s \<and> s \<le> last_home_serial fs"
  shows "storage_inv (fs\<lparr>frames := xs @ [f']\<rparr>) th'"
  using assms by (auto simp: storage_inv_def frames_owned_def)

lemma inv_enter:
  assumes "storage_inv fs th" and "enter_frame host bp info gens pinned fs th = Ok (fs', th')"
  shows "storage_inv fs' th' \<and> ages fs fs'"
proof -
  obtain hs fs1 th1 fs2 th2 where s: "allocate_frame_homes host info fs th = Ok (hs, fs1, th1)"
      "push_frame bp info gens pinned fs1 th1 = (Ok (fs2, th2) :: (type_resolution_error, _) outcome)"
      "map_current (\<lambda>f. f\<lparr>homes := hs\<rparr>) fs2 = (Ok fs' :: (type_resolution_error, _) outcome)" "th' = th2"
    using assms(2) by (auto simp: enter_frame_def outcome_simps)
  show ?thesis
  proof (cases "method_homes info")
    case None
    with s(1) have 1: "hs = frame_homes_default" "fs1 = fs" "th1 = th" by (auto simp: allocate_frame_homes_def)
    with inv_push [OF assms(1)] s(2) obtain f where f: "owns_nothing f" "frames fs2 = frames fs @ [f]" and
      fs2: "th2 = th" "suspended_frames fs2 = suspended_frames fs" "last_home_serial fs2 = last_home_serial fs"
        "\<forall>f \<in> set (pooled_frames fs2). owns_nothing f"
      by metis
    have "owns_nothing (f\<lparr>homes := frame_homes_default\<rparr>)"
      using f(1) by (simp add: owns_nothing_def used_of_def block_count_def)
    then show ?thesis
      using assms(1) s f fs2 1
      by (auto simp: storage_inv_def ages_def frames_owned_def outcome_simps owns_nothing_serials, auto simp: owns_nothing_def)
  next
    case (Some l)
    obtain serial where i: "issue_home_serial fs = (Ok (serial, fs1) :: (type_resolution_error, _) outcome)"
        "homes_allocate host th l serial = Ok (hs, th1)"
      using s(1) Some by (auto simp: allocate_frame_homes_def outcome_simps)
    note inv1 = inv_issue [OF assms(1) i(1)]
    obtain b where b: "hs = \<lparr>primary = Some \<lparr>hb_block = b, hb_layout = l, hb_serial = serial\<rparr>, temporaries = []\<rparr>"
        "th1 = th\<lparr>live_blocks := live_blocks th + 1\<rparr>"
      using i(2) by (auto simp: homes_allocate_def outcome_simps dest: raw_block_zeroed_Ok)
    have "storage_inv fs1 th1" using inv1(1) b(2) by (simp add: storage_inv_def)
    from inv_push [OF this s(2)] obtain f where f: "owns_nothing f" "frames fs2 = frames fs1 @ [f]" and
      fs2: "th2 = th1" "suspended_frames fs2 = suspended_frames fs1" "last_home_serial fs2 = last_home_serial fs1"
        "\<forall>f \<in> set (pooled_frames fs2). owns_nothing f"
      by metis
    have new: "used_of (f\<lparr>homes := hs\<rparr>) = 0" "block_count (f\<lparr>homes := hs\<rparr>) = 1" "serials_of (f\<lparr>homes := hs\<rparr>) = [serial]"
      using f(1) b(1) by (simp_all add: owns_nothing_def used_of_def block_count_def serials_of_def home_blocks_def)
    show ?thesis
      using inv1 s f fs2 new b(2) by (auto simp: storage_inv_def ages_def frames_owned_def outcome_simps)
  qed
qed

lemma inv_localloc:
  assumes "storage_inv fs th" and "localloc host sz fs th = Ok (a, fs', th')"
  shows "storage_inv fs' th' \<and> ages fs fs'"
proof -
  obtain xs f fa where s: "frames fs = xs @ [f]" "fs' = fs\<lparr>frames := xs @ [f\<lparr>state := (state f)\<lparr>allocations := fa\<rparr>\<rparr>]\<rparr>"
      "frame_allocate host th (allocations (state f)) sz = Ok (a, fa, th')"
    using assms(2) by (auto simp: localloc_def current_frame_def outcome_simps split: if_splits)
  then obtain b fa1 where b: "allocate_external host th (allocations (state f)) sz 16 frame_budget_default = Ok (b, fa1, th')"
      "fa = fa1\<lparr>fa_blocks := fa_blocks fa1 @ [b]\<rparr>"
    by (auto simp: frame_allocate_def allocate_within_def outcome_simps split: if_splits)
  note e = allocate_external_Ok [OF b(1)]
  have "storage_inv fs' th'"
    unfolding s(2) by (rule inv_top [OF assms(1) s(1), where c = "accounted_bytes b" and ss = "[]"])
      (use e b(2) in \<open>simp_all add: used_of_def block_count_def serials_of_def\<close>)
  moreover have "ages fs fs'" using s(1,2) by (auto simp: ages_def frames_owned_def serials_of_def)
  ultimately show ?thesis by blast
qed

lemma inv_temporary:
  assumes "storage_inv fs th" and "temporary_home host l fs th = Ok (a, fs', th')"
  shows "storage_inv fs' th' \<and> ages fs fs'"
proof -
  obtain serial fs1 xs f hs fa ad where i: "issue_home_serial fs = (Ok (serial, fs1) :: (frame_allocation_error, _) outcome)"
    and s: "frames fs1 = xs @ [f]"
      "fs' = fs1\<lparr>frames := xs @ [f\<lparr>homes := hs, state := (state f)\<lparr>allocations := fa\<rparr>\<rparr>]\<rparr>"
      "allocate_temporary host th (homes f) l serial (allocations (state f)) = Ok (ad, hs, fa, th')"
    using assms(2) by (auto simp: temporary_home_def current_frame_def map_current_Ok and_then_eq_Ok map_outcome_eq_Ok
        split: if_splits)
  then obtain b where b: "allocate_external host th (allocations (state f)) (home_size l) (home_alignment l)
        frame_budget_default = Ok (b, fa, th')"
      "hs = (homes f)\<lparr>temporaries := temporaries (homes f) @ [\<lparr>hb_block = b, hb_layout = l, hb_serial = serial\<rparr>]\<rparr>"
    by (auto simp: allocate_temporary_def outcome_simps split: if_splits)
  note e = allocate_external_Ok [OF b(1)] and inv1 = inv_issue [OF assms(1) i]
  have "storage_inv fs' th'"
    unfolding s(2) by (rule inv_top [OF inv1(1) s(1), where c = "accounted_bytes b" and ss = "[serial]"])
      (use e b(2) inv1 in \<open>simp_all add: used_of_def block_count_def serials_of_def home_blocks_def\<close>)
  moreover have "set (serials (frames_owned fs')) = insert serial (set (serials (frames_owned fs1)))"
    by (auto simp: s b(2) frames_owned_def serials_of_def home_blocks_def)
  with inv1 have "ages fs fs'" by (auto simp: ages_def s(2) frames_owned_def)
  ultimately show ?thesis by blast
qed

text \<open>Releasing never underflows a gauge, and leaves the invariant.\<close>

lemma recycle_ok:
  assumes "storage_inv fs th"
  shows "\<exists>b fs' th'. pop_and_recycle fs th = (Ok (b, fs', th') :: ('e, _) outcome) \<and> storage_inv fs' th' \<and>
    frames fs' = butlast (frames fs) \<and> suspended_frames fs' = suspended_frames fs \<and>
    last_home_serial fs' = last_home_serial fs"
proof (cases "frames fs" rule: rev_cases)
  case Nil
  then show ?thesis using assms by (intro exI [of _ False]) (simp add: pop_and_recycle_def fs_pop_def)
next
  case (snoc xs f)
  let ?th = "\<lparr>thread_bytes = thread_bytes th - used_of f, live_blocks = live_blocks th - block_count f\<rparr>"
  have "\<exists>f'. prepare_for_pool f th = (Ok (f', ?th) :: ('e, _) outcome) \<and> owns_nothing f'"
    using assms snoc by (intro release_frame(2)) (auto simp: storage_inv_def frames_owned_def)
  then obtain f' where f': "prepare_for_pool f th = (Ok (f', ?th) :: ('e, _) outcome)" "owns_nothing f'" by blast
  have "drop_frame f' ?th = (Ok \<lparr>thread_bytes = thread_bytes ?th - used_of f',
      live_blocks = live_blocks ?th - block_count f'\<rparr> :: ('e, _) outcome)"
    using f'(2) by (intro release_frame(1)) (simp_all add: owns_nothing_def)
  with f'(2) have d: "drop_frame f' ?th = (Ok ?th :: ('e, _) outcome)" by (simp add: owns_nothing_def)
  show ?thesis
    using assms snoc f' d
    by (auto simp: pop_and_recycle_def fs_pop_def recycle_frame_def storage_inv_def frames_owned_def)
qed

lemma clear_ok:
  assumes "storage_inv fs th"
  shows "\<exists>th'. fs_clear fs th = (Ok (fs\<lparr>frames := [], suspended_frames := [], pooled_frames := []\<rparr>, th') :: ('e, _) outcome) \<and>
    storage_inv (fs\<lparr>frames := [], suspended_frames := [], pooled_frames := []\<rparr>) th' \<and> thread_bytes th' = 0"
proof -
  have "\<forall>f \<in> set (pooled_frames fs). owns_nothing f" using assms by (simp add: storage_inv_def)
  then have p: "used_sum (pooled_frames fs) = 0" "block_sum (pooled_frames fs) = 0"
    using owns_nothing_sums by blast+
  let ?xs = "frames fs @ suspended_frames fs @ pooled_frames fs"
  have "drop_frames ?xs th = (Ok \<lparr>thread_bytes = thread_bytes th - used_sum ?xs,
      live_blocks = live_blocks th - block_sum ?xs\<rparr> :: ('e, _) outcome)"
    using assms by (intro drop_frames_enough) (simp_all add: p storage_inv_def frames_owned_def)
  then show ?thesis
    using assms by (simp add: p fs_clear_def storage_inv_def frames_owned_def)
qed

lemma drop_suspended_ok:
  assumes "storage_inv fs th"
  shows "\<exists>th'. drop_frames (suspended_frames fs) th = (Ok th' :: ('e, _) outcome) \<and>
    storage_inv (fs\<lparr>suspended_frames := []\<rparr>) th'"
  using assms by (auto simp: drop_frames_enough storage_inv_def frames_owned_def)

lemma clear_suspended_ok:
  assumes "storage_inv fs th"
  shows "\<exists>th'. fs_clear_suspended fs th = (Ok (fs\<lparr>suspended_frames := []\<rparr>, th') :: ('e, _) outcome) \<and>
    storage_inv (fs\<lparr>suspended_frames := []\<rparr>) th'"
  using drop_suspended_ok [OF assms, where 'e = 'e] by (auto simp: fs_clear_suspended_def)

lemma inv_suspend:
  assumes "storage_inv fs th" and "fs_suspend_above i fs th = (Ok (fs', th') :: ('e, _) outcome)"
  shows "storage_inv fs' th' \<and> frames_owned fs' = frames fs \<and> last_home_serial fs' = last_home_serial fs"
proof -
  obtain th1 where d: "drop_frames (suspended_frames fs) th = (Ok th1 :: ('e, _) outcome)"
      "storage_inv (fs\<lparr>suspended_frames := []\<rparr>) th1"
    using drop_suspended_ok [OF assms(1)] by blast
  obtain n where n: "fs' = fs\<lparr>frames := take n (frames fs), suspended_frames := drop n (frames fs)\<rparr>" "th' = th1"
    using assms(2) d(1) by (auto simp: fs_suspend_above_def outcome_simps split: if_splits)
  have "frames_owned fs' = frames_owned (fs\<lparr>suspended_frames := []\<rparr>)" by (simp add: n frames_owned_def)
  with d(2) n show ?thesis by (simp add: storage_inv_def frames_owned_def)
qed

lemma frames_update_same:
  assumes "i < length xs" "used_of f = used_of (xs ! i)" "block_count f = block_count (xs ! i)" "serials_of f = serials_of (xs ! i)"
  shows "map used_of (xs[i := f]) = map used_of xs" "map block_count (xs[i := f]) = map block_count xs"
    "map serials_of (xs[i := f]) = map serials_of xs"
  using assms by (auto simp: map_update list_update_same_conv)

lemma same_owned:
  assumes "map used_of xs = map used_of ys" "map serials_of xs = map serials_of ys"
  shows "(\<forall>f \<in> set xs. used_of f \<le> n) = (\<forall>f \<in> set ys. used_of f \<le> n)"
proof -
  have "(\<forall>f \<in> set zs. used_of f \<le> n) = (\<forall>u \<in> set (map used_of zs). u \<le> n)" for zs by simp
  with assms(1) show ?thesis by metis
qed

lemma inv_update:
  assumes "storage_inv fs th" "i < length (frames fs)" "allocations (state f) = allocations (state (frames fs ! i))"
    "homes f = homes (frames fs ! i)"
  shows "storage_inv (set_frame i f fs) th" and "serials (frames_owned (set_frame i f fs)) = serials (frames_owned fs)"
proof -
  have same: "used_of f = used_of (frames fs ! i)" "block_count f = block_count (frames fs ! i)"
      "serials_of f = serials_of (frames fs ! i)"
    using assms by (simp_all add: used_of_def block_count_def serials_of_def)
  note m = frames_update_same [OF assms(2) same]
  have o: "map used_of (frames_owned (set_frame i f fs)) = map used_of (frames_owned fs)"
      "map block_count (frames_owned (set_frame i f fs)) = map block_count (frames_owned fs)"
      "map serials_of (frames_owned (set_frame i f fs)) = map serials_of (frames_owned fs)"
    using m by (simp_all add: frames_owned_def set_frame_def)
  show "serials (frames_owned (set_frame i f fs)) = serials (frames_owned fs)" by (simp only: o)
  show "storage_inv (set_frame i f fs) th"
    using assms(1) same_owned [OF o(1,3)] unfolding storage_inv_def o by (simp add: set_frame_def)
qed

lemma recycle_ages: "frames fs' = butlast (frames fs) \<Longrightarrow> suspended_frames fs' = suspended_frames fs \<Longrightarrow>
    last_home_serial fs' = last_home_serial fs \<Longrightarrow> ages fs fs'"
  by (auto simp: ages_def frames_owned_def dest: in_set_butlastD)

lemma step_invariant:
  assumes "frame_step w w'" and "storage_inv (fst w) (snd w)"
  shows "storage_inv (fst w') (snd w') \<and> ages (fst w) (fst w')"
  using assms
proof cases
  case (enter host bp info gens pinned fs th)
  then show ?thesis using inv_enter [of fs th host bp info gens pinned "fst w'" "snd w'"] assms(2) by simp
next
  case (homes_refused fs s fs' th)
  then have "storage_inv fs th" using assms(2) by simp
  from inv_issue [OF this homes_refused(3)] homes_refused(1,2) show ?thesis
    by (auto simp: ages_def frames_owned_def)
next
  case (localloc host sz fs th a)
  then show ?thesis using inv_localloc [of fs th host sz a "fst w'" "snd w'"] assms(2) by simp
next
  case (temporary host l fs th a)
  then show ?thesis using inv_temporary [of fs th host l a "fst w'" "snd w'"] assms(2) by simp
next
  case (recycle fs th b)
  then show ?thesis using recycle_ok [of fs th, where 'e = unit] assms(2) recycle_ages by fastforce
next
  case (suspend i fs th)
  then have w': "storage_inv (fst w') (snd w')" "frames_owned (fst w') = frames fs"
      "last_home_serial (fst w') = last_home_serial fs"
    using inv_suspend [of fs th i "fst w'" "snd w'", where 'e = unit] assms(2) by simp_all
  with suspend show ?thesis by (simp add: ages_def) (auto simp: frames_owned_def)
next
  case (restore fs th)
  then show ?thesis using assms(2) by (auto simp: ages_def storage_inv_def frames_owned_def fs_restore_suspended_def)
next
  case (drop_suspended fs th)
  then show ?thesis using clear_suspended_ok [of fs th, where 'e = unit] assms(2) by (auto simp: ages_def frames_owned_def)
next
  case (clear_all fs th)
  then show ?thesis using clear_ok [of fs th, where 'e = unit] assms(2) by (auto simp: ages_def frames_owned_def)
next
  case (update i fs f th)
  then show ?thesis using inv_update [of fs th i f] assms(2) by (simp add: ages_def set_frame_def)
qed

lemma steps_invariant:
  assumes "frame_step\<^sup>*\<^sup>* w w'" and "storage_inv (fst w) (snd w)"
  shows "storage_inv (fst w') (snd w') \<and> ages (fst w) (fst w')"
  using assms
proof (induction rule: rtranclp_induct)
  case (step y z)
  then show ?case using step_invariant ages_trans by blast
qed (simp add: ages_refl)

lemma frame_invariant: "frame_reachable w \<Longrightarrow> storage_inv (fst w) (snd w)"
  using steps_invariant [of "(frame_stack_new, \<lparr>thread_bytes = 0, live_blocks = 0\<rparr>)" w]
  by (auto simp: frame_reachable_def storage_inv_def frame_stack_new_def frames_owned_def)

section \<open>Looking up home blocks\<close>

lemma find_map_None: "find_map f xs = None \<longleftrightarrow> (\<forall>x \<in> set xs. f x = None)"
  by (induction xs) (auto split: option.splits)

lemma find_map_Some: "find_map f xs = Some y \<Longrightarrow> \<exists>x \<in> set xs. f x = Some y"
  by (induction xs) (auto split: option.splits)

lemma home_block_None: "home_block_of fs s = None \<longleftrightarrow> s \<notin> set (serials (frames_owned fs))"
  by (auto simp: home_block_of_def find_map_None block_for_def find_None_iff frames_owned_def serials_of_def)

lemma distinct_concat_eq:
  assumes "distinct (concat (map f xs))" "x \<in> set xs" "y \<in> set xs" "s \<in> set (f x)" "s \<in> set (f y)"
  shows "f x = f y"
  using assms by (induction xs) auto

lemma home_block_Some:
  assumes "storage_inv fs th" "f \<in> set (frames_owned fs)" "hb \<in> set (home_blocks (homes f))"
  shows "home_block_of fs (hb_serial hb) = Some (rb_base (hb_block hb), payload_len (hb_block hb))"
proof -
  have s: "hb_serial hb \<in> set (serials_of f)" using assms(3) by (simp add: serials_of_def)
  with assms(2) have "home_block_of fs (hb_serial hb) \<noteq> None" by (auto simp: home_block_None)
  then obtain y where y: "home_block_of fs (hb_serial hb) = Some y" by blast
  then obtain f' where f': "f' \<in> set (frames_owned fs)" "block_for (homes f') (hb_serial hb) = Some y"
    by (auto simp: home_block_of_def frames_owned_def dest!: find_map_Some)
  then obtain hb' where hb': "hb' \<in> set (home_blocks (homes f'))" "hb_serial hb' = hb_serial hb"
      "y = (rb_base (hb_block hb'), payload_len (hb_block hb'))"
    by (auto simp: block_for_def find_Some_iff) (metis nth_mem)
  let ?all = "concat (map (\<lambda>f. home_blocks (homes f)) (frames_owned fs))"
  have "serials (frames_owned fs) = map hb_serial ?all"
    by (simp add: serials_of_def [abs_def] map_concat o_def)
  then have "inj_on hb_serial (set ?all)"
    using assms(1) by (simp add: storage_inv_def distinct_map)
  moreover have "hb \<in> set ?all" "hb' \<in> set ?all" using assms(2,3) f'(1) hb'(1) by auto
  ultimately have "hb' = hb" using hb'(2) by (auto dest: inj_onD)
  with y hb'(3) show ?thesis by simp
qed

section \<open>Properties\<close>

text \<open>
  C19: Frame storage stays within its budgets and is always given back. In every state that a sequence of
  calls, returns, unwindings, filter suspensions, \<open>localloc\<close> and temporary homes can reach, the bytes charged to
  the thread are exactly the charges of its frames, no frame exceeds its 128 MiB and the thread not its 512 MiB;
  pooled frames own nothing, and popping a frame or clearing the stack never underflows a gauge.
\<close>
theorem frame_budgets_hold:
  assumes "frame_reachable (fs, th)"
  shows "thread_bytes th = used_sum (frames fs @ suspended_frames fs) \<and> thread_bytes th \<le> 0x20000000 \<and>
    (\<forall>f \<in> set (frames fs @ suspended_frames fs). used_of f \<le> 0x8000000) \<and>
    (\<forall>f \<in> set (pooled_frames fs). owns_nothing f) \<and>
    pop_and_recycle fs th \<noteq> (Panic :: (unit, _) outcome) \<and>
    (\<exists>fs' th'. fs_clear fs th = (Ok (fs', th') :: (unit, _) outcome) \<and> thread_bytes th' = 0)"
proof -
  have inv: "storage_inv fs th" using frame_invariant [OF assms] by simp
  then show ?thesis
    using recycle_ok [OF inv, where 'e = unit] clear_ok [OF inv, where 'e = unit]
    by (auto simp: storage_inv_def frames_owned_def frame_budget_default_def)
qed

definition sample_host :: host where
  "sample_host = \<lparr>alloc_fn = (\<lambda>_ _. 4096), reserve_ok = True\<rparr>"

definition sample_info :: "(unit, unit) method_info" where
  "sample_info = \<lparr>has_this = False, parameter_count = 0, return_type = ReturnsNothing, method_locals = [TypedReferenceLocal], max_stack = 8,
     exceptions = [], instruction_count = 4, parent_type = type_description_null, is_cctor = False,
     method_homes = Some (frame_home_layout_new (FieldLayoutManager [] 16 8 gc_desc_default False) [] [])\<rparr>"

definition sample_entered :: "(unit, unit, unit) frame_stack \<times> alloc_thread" where
  "sample_entered =
     (case enter_frame sample_host base_pointer_default sample_info () [False] frame_stack_new \<lparr>thread_bytes = 0, live_blocks = 0\<rparr> of
        Ok w \<Rightarrow> w | _ \<Rightarrow> (frame_stack_new, \<lparr>thread_bytes = 0, live_blocks = 0\<rparr>))"

definition sample_allocated :: "(unit, unit, unit) frame_stack \<times> alloc_thread" where
  "sample_allocated =
     (case localloc sample_host 100 (fst sample_entered) (snd sample_entered) of Ok (a, w) \<Rightarrow> w | _ \<Rightarrow> sample_entered)"

lemma power_of_two_16: "is_power_of_two 16"
  by (simp add: is_power_of_two.simps)

lemmas sample_alloc_simps = sample_entered_def sample_allocated_def sample_info_def sample_host_def frame_stack_new_def
  enter_frame_def allocate_frame_homes_def issue_home_serial_def frame_home_serial_next_def homes_allocate_def
  raw_block_zeroed_def power_of_two_16 layout_fits_def isize_max_def non_null_def uadd_def usize_of_def usize_max_def
  push_frame_def map_current_def current_frame_def set_frame_def stack_frame_new_def home_size_def home_alignment_def
  frame_home_layout_new_def localloc_def frame_allocate_def allocate_within_def allocate_external_def check_request_def
  charge_within_def frame_budget_default_def method_state_new_def frame_allocations_default_def

lemma sample_entered_step:
  "enter_frame sample_host base_pointer_default sample_info () [False] frame_stack_new \<lparr>thread_bytes = 0, live_blocks = 0\<rparr> =
     Ok sample_entered"
  by (simp add: sample_alloc_simps)

lemma sample_allocated_step:
  "\<exists>a. localloc sample_host 100 (fst sample_entered) (snd sample_entered) = Ok (a, sample_allocated)"
  by (simp add: sample_alloc_simps)

lemma sample_entered_reachable: "frame_reachable sample_entered"
  unfolding frame_reachable_def by (rule r_into_rtranclp, rule frame_step.enter [OF sample_entered_step])

lemma sample_allocated_reachable: "frame_reachable sample_allocated"
proof -
  obtain a where "localloc sample_host 100 (fst sample_entered) (snd sample_entered) = Ok (a, sample_allocated)"
    using sample_allocated_step by blast
  from frame_step.localloc [OF this] have "frame_step sample_entered sample_allocated" by simp
  with sample_entered_reachable show ?thesis unfolding frame_reachable_def by (rule rtranclp.rtrancl_into_rtrancl)
qed

theorem frame_budgets_hold_witness:
  "thread_bytes (snd sample_allocated) = 100 \<and>
   used_sum (frames (fst sample_allocated) @ suspended_frames (fst sample_allocated)) = 100"
proof -
  have "thread_bytes (snd sample_allocated) = 100" by (simp add: sample_alloc_simps)
  moreover have "frame_reachable (fst sample_allocated, snd sample_allocated)" using sample_allocated_reachable by simp
  note frame_budgets_hold [OF this]
  ultimately show ?thesis by simp
qed

text \<open>
  C10: A byref into a frame that has gone never resolves again. Every home block of a live or suspended frame is
  found under its serial, whatever the order of the frames; and once a serial that has been issued resolves to
  nothing, it resolves to nothing in every later state of the thread, even when frames are reused from the
  pool: no later block gets that serial.
\<close>
theorem frame_home_never_resurrected:
  assumes "frame_reachable (fs, th)"
  shows "(\<forall>f \<in> set (frames fs @ suspended_frames fs). \<forall>hb \<in> set (home_blocks (homes f)).
            home_block_of fs (hb_serial hb) = Some (rb_base (hb_block hb), payload_len (hb_block hb))) \<and>
         (\<forall>serial fs' th'. serial \<le> last_home_serial fs \<and> home_block_of fs serial = None \<and>
            frame_step\<^sup>*\<^sup>* (fs, th) (fs', th') \<longrightarrow> home_block_of fs' serial = None)"
proof (intro conjI allI impI)
  have inv: "storage_inv fs th" using frame_invariant [OF assms] by simp
  show "\<forall>f \<in> set (frames fs @ suspended_frames fs). \<forall>hb \<in> set (home_blocks (homes f)).
            home_block_of fs (hb_serial hb) = Some (rb_base (hb_block hb), payload_len (hb_block hb))"
    using home_block_Some [OF inv] by (simp add: frames_owned_def)
  fix serial fs' th'
  assume a: "serial \<le> last_home_serial fs \<and> home_block_of fs serial = None \<and> frame_step\<^sup>*\<^sup>* (fs, th) (fs', th')"
  then have "ages fs fs'" using steps_invariant [of "(fs, th)" "(fs', th')"] inv by simp
  with a show "home_block_of fs' serial = None"
    by (auto simp: home_block_None ages_def)
qed

lemma sample_entered_last: "last_home_serial (fst sample_entered) = 1"
  by (simp add: sample_alloc_simps)

theorem frame_home_never_resurrected_witness:
  "\<exists>fs th. pop_and_recycle (fst sample_entered) (snd sample_entered) = (Ok (True, fs, th) :: (unit, _) outcome) \<and>
     home_block_of (fst sample_entered) 1 = Some (4096, 16) \<and> home_block_of fs 1 = None \<and>
     (\<forall>fs' th'. frame_step\<^sup>*\<^sup>* (fs, th) (fs', th') \<longrightarrow> home_block_of fs' 1 = None)"
proof -
  obtain fs th where r: "pop_and_recycle (fst sample_entered) (snd sample_entered) = (Ok (True, fs, th) :: (unit, _) outcome)"
      "last_home_serial fs = 1" "frames fs = []" "suspended_frames fs = []"
    by (simp add: sample_alloc_simps pop_and_recycle_def fs_pop_def recycle_frame_def prepare_for_pool_def release_all_def
        homes_release_def drop_blocks_def usub_def home_blocks_def stackframe_pool_limit_def)
  have "frame_step sample_entered (fs, th)" using frame_step.recycle [OF r(1)] by simp
  then have re: "frame_reachable (fs, th)"
    using sample_entered_reachable unfolding frame_reachable_def by (meson rtranclp.rtrancl_into_rtrancl)
  have n: "home_block_of fs 1 = None" using r by (simp add: home_block_of_def)
  moreover have "home_block_of (fst sample_entered) 1 = Some (4096, 16)"
    by (simp add: sample_alloc_simps home_block_of_def block_for_def home_blocks_def)
  ultimately show ?thesis using frame_home_never_resurrected [OF re] r by auto
qed

end
