(* ===== verification/Exception_Props.thy ===== *)
theory Exception_Props
  imports Ves_Sample Frame_Storage
begin

text \<open>
  What the exception handler guarantees: it always returns, parsing keeps and orders the clauses, the search
  finds the innermost handler that takes the exception, and the unwind pass runs every finally and fault handler
  on the way, once and from the inside out, before the catch handler gets control.
\<close>

section \<open>The state machine returns\<close>

fun mode_rank :: "exception_state \<Rightarrow> nat" where
  "mode_rank (Searching s) = (if search_nested s = None then 1 else 4)"
| "mode_rank (Throwing _ _) = 2"
| "mode_rank (Unwinding _) = 3"
| "mode_rank _ = 0"

lemma unwind_frames_preempted:
  "unwind_frames env exc target cursor tf fis ctx = (Ok (Preempted, ctx') :: ('e, _) outcome) \<Longrightarrow> \<exists>e b. exception_mode ctx' = Throwing e b"
proof (induction fis arbitrary: ctx)
  case (Cons fi fis)
  obtain f r ctx1 where f: "frame_at fi (frame_stack ctx) = (Ok f :: ('e, _) outcome)"
      "unwind_sections exc target cursor (frame_ip f) fi (section_start cursor fi)
         (drop (section_start cursor fi) (sections_of f)) ctx = (Ok (r, ctx1) :: ('e, _) outcome)"
    using Cons.prems by (auto simp: outcome_simps Let_def)
  show ?case
  proof (cases r)
    case None
    show ?thesis
    proof (cases "tf < fi")
      case True
      then obtain ctx2 where c2: "unwind_frame env ctx1 = (Ok ctx2 :: ('e, _) outcome)"
        using Cons.prems f None by (auto simp: outcome_simps Let_def)
      show ?thesis
        using Cons.prems f None True c2 Cons.IH [of ctx2] by (cases "exception_mode ctx2") (auto simp: Let_def)
    next
      case False
      then show ?thesis using Cons.prems f None Cons.IH [of ctx1] by (simp add: Let_def)
    qed
  qed (use Cons.prems f in \<open>auto simp: Let_def\<close>)
qed simp

lemma mode_set_mode [simp]: "exception_mode (set_mode m ctx) = m"
  by (simp add: set_mode_def)

lemma unhandled_Again:
  assumes "unhandled env exc ctx = Ok (Again ctx')"
  shows "(\<exists>s. exception_mode ctx = Searching s \<and> search_nested s \<noteq> None) \<and> (\<exists>u. exception_mode ctx' = Unwinding u)"
proof (cases "case exception_mode ctx of Searching s \<Rightarrow> search_nested s | _ \<Rightarrow> None")
  case None
  with assms show ?thesis by (auto simp: unhandled_def outcome_simps)
next
  case (Some n)
  with assms show ?thesis by (cases "exception_mode ctx") (auto simp: unhandled_def outcome_simps)
qed

lemma begin_no_Again: "begin_unwind_to exc h ctx \<noteq> Ok (Again ctx')" "begin_filter exc h off ctx \<noteq> Ok (Again ctx')"
  by (auto simp: begin_unwind_to_def begin_filter_def Let_def outcome_simps)

lemma search_Again:
  assumes "search_for_handler env exc cursor ctx = Ok (Again ctx')"
  shows "(\<exists>s. exception_mode ctx = Searching s \<and> search_nested s \<noteq> None) \<and> (\<exists>u. exception_mode ctx' = Unwinding u)"
proof -
  obtain stop where s: "stop_frame (exception_mode ctx) = (Ok stop :: (vm_error, _) outcome)"
    using assms by (auto simp: search_for_handler_def outcome_simps)
  let ?r = "search_frames env exc cursor (frame_stack ctx) (rev [stop ..< Suc (frame_index cursor)])"
  have "unhandled env exc ctx = Ok (Again ctx')"
  proof (cases ?r)
    case (Ok x)
    show ?thesis
    proof (cases x)
      case (Some y)
      with Ok s assms show ?thesis
        by (cases y) (auto simp: search_for_handler_def begin_no_Again simp del: upt_Suc)
    qed (use Ok s assms in \<open>auto simp: search_for_handler_def simp del: upt_Suc\<close>)
  qed (use s assms in \<open>auto simp: search_for_handler_def simp del: upt_Suc\<close>)
  then show ?thesis by (rule unhandled_Again)
qed

lemma finish_Again:
  assumes "finish_unwind u ctx = Ok (Again ctx')"
  shows "\<exists>s. exception_mode ctx' = Searching s \<and> search_nested s = None"
proof (cases "unwind_to u")
  case (ToHandler h)
  with assms show ?thesis
    by (auto simp: finish_unwind_def enter_catch_def outcome_simps Let_def split: if_splits option.splits)
next
  case (ToInstruction t)
  with assms show ?thesis
    by (auto simp: finish_unwind_def complete_nested_filter_unwind_def outcome_simps Let_def
        split: if_splits option.splits prod.splits)
qed

lemma unwind_Again:
  assumes "unwind env u ctx = Ok (Again ctx')"
  shows "(\<exists>e b. exception_mode ctx' = Throwing e b) \<or> (\<exists>s. exception_mode ctx' = Searching s \<and> search_nested s = None)"
proof -
  obtain r ctx1 where r: "unwind_frames env (unwind_exception u) (unwind_to u) (unwind_cursor u) (target_frame_of u)
         (rev [target_frame_of u ..< Suc (frame_index (unwind_cursor u))]) ctx = (Ok (r, ctx1) :: (vm_error, _) outcome)"
    using assms by (auto simp: unwind_def outcome_simps simp del: upt_Suc)
  show ?thesis
  proof (cases r)
    case Preempted
    with r assms unwind_frames_preempted [OF r [unfolded Preempted]] show ?thesis
      by (simp add: unwind_def del: upt_Suc)
  next
    case Reached
    with r assms finish_Again show ?thesis by (simp add: unwind_def del: upt_Suc) blast
  qed (use r assms in \<open>auto simp: unwind_def outcome_simps simp del: upt_Suc\<close>)
qed

lemma throwing_Again:
  assumes "begin_throwing env exc preserve ctx = Ok (Again ctx')" and "exception_mode ctx = Throwing e b"
  shows "\<exists>s. exception_mode ctx' = Searching s \<and> search_nested s = None"
  using assms by (auto simp: begin_throwing_def Let_def outcome_simps split: outcome.splits if_splits option.splits)

lemma handle_once_Again:
  assumes "handle_once env ctx = Ok (Again ctx')"
  shows "mode_rank (exception_mode ctx') < mode_rank (exception_mode ctx)"
proof (cases "exception_mode ctx")
  case (Throwing e b)
  with assms throwing_Again show ?thesis by (fastforce simp: handle_once_def)
next
  case (Searching s)
  with assms search_Again [of env "search_exception s" "search_cursor s" ctx ctx'] show ?thesis
    by (auto simp: handle_once_def)
next
  case (Unwinding u)
  with assms unwind_Again [of env u ctx ctx'] show ?thesis by (auto simp: handle_once_def)
qed (use assms in \<open>auto simp: handle_once_def\<close>)

text \<open>
  C18: The exception handler always returns. Whatever the state, the chain of throwing, searching, filtering and
  unwinding that \<open>handle_exception\<close> goes through by calling itself ends: no exception state makes it run forever.
\<close>
theorem handle_exception_total: "\<exists>r. handle_exception env ctx = Some r"
proof (induction "mode_rank (exception_mode ctx)" arbitrary: ctx rule: less_induct)
  case less
  show ?case
  proof (cases "\<exists>c. handle_once env ctx = Ok (Again c)")
    case True
    then obtain c where c: "handle_once env ctx = Ok (Again c)" by blast
    have "\<exists>r. handle_exception env c = Some r" by (rule less [OF handle_once_Again [OF c]])
    then show ?thesis by (subst handle_exception.simps) (simp add: c)
  next
    case False
    then show ?thesis
      by (subst handle_exception.simps) (auto split: outcome.splits exc_next.splits)
  qed
qed

section \<open>Parsing\<close>

definition try_range :: "'t body_exception \<Rightarrow> range" where
  "try_range e = (try_offset e, try_offset e + try_length e)"

definition parsed_handler ::
    "('t \<Rightarrow> (type_resolution_error, 'c) outcome) \<Rightarrow> 'c handler \<Rightarrow> 't body_exception \<Rightarrow> bool" where
  "parsed_handler mc h e \<longleftrightarrow> h_instructions h = (handler_offset e, handler_offset e + handler_length e) \<and>
     parse_kind mc (exception_kind e) = Ok (h_kind h)"

text \<open>A list of sections with distinct ranges that holds exactly the clauses of a source.\<close>

definition groups ::
    "('t \<Rightarrow> (type_resolution_error, 'c) outcome) \<Rightarrow> 't body_exception list \<Rightarrow> 'c protected_section list \<Rightarrow> bool" where
  "groups mc source ss \<longleftrightarrow>
     distinct (map s_instructions ss) \<and> set (map s_instructions ss) = try_range ` set source \<and>
     (\<forall>s \<in> set ss. list_all2 (parsed_handler mc) (s_handlers s) (filter (\<lambda>e. try_range e = s_instructions s) source))"

lemma ranges_add_handler:
  "map s_instructions (add_handler r h ss) =
     (if r \<in> s_instructions ` set ss then map s_instructions ss else map s_instructions ss @ [r])"
  by (induction ss) auto

lemma set_add_handler:
  assumes "distinct (map s_instructions ss)" "s \<in> set (add_handler r h ss)"
  shows "if s_instructions s = r
    then s_handlers s = (case find (\<lambda>s. s_instructions s = r) ss of None \<Rightarrow> [] | Some t \<Rightarrow> s_handlers t) @ [h]
    else s \<in> set ss"
  using assms
proof (induction ss)
  case (Cons t ss)
  show ?case
  proof (cases "s_instructions t = r")
    case True
    have "s_instructions u \<noteq> r" if "u \<in> set ss" for u
      using Cons.prems(1) that True by (metis distinct.simps(2) image_eqI list.set_map list.simps(9))
    with True Cons.prems show ?thesis by auto
  next
    case False
    with Cons.prems have "s = t \<or> s \<in> set (add_handler r h ss)" by simp
    with Cons False show ?thesis by (auto split: if_splits)
  qed
qed auto

lemma groups_parse_one:
  assumes "groups mc source ss" and "parse_one mc e ss = Ok ss'"
  shows "groups mc (source @ [e]) ss'"
proof -
  let ?r = "try_range e"
  obtain k where k: "parse_kind mc (exception_kind e) = Ok k"
    and ss': "ss' = add_handler ?r \<lparr>h_instructions = (handler_offset e, handler_offset e + handler_length e), h_kind = k\<rparr> ss"
    using assms(2) by (auto simp: parse_one_def outcome_simps uadd_def try_range_def)
  let ?h = "\<lparr>h_instructions = (handler_offset e, handler_offset e + handler_length e), h_kind = k\<rparr>"
  have h: "parsed_handler mc ?h e" by (simp add: parsed_handler_def k)
  have d: "distinct (map s_instructions ss)" and g: "set (map s_instructions ss) = try_range ` set source"
    "\<And>s. s \<in> set ss \<Longrightarrow> list_all2 (parsed_handler mc) (s_handlers s) (filter (\<lambda>e. try_range e = s_instructions s) source)"
    using assms(1) by (auto simp: groups_def)
  have "list_all2 (parsed_handler mc) (s_handlers s) (filter (\<lambda>e. try_range e = s_instructions s) (source @ [e]))"
    if s: "s \<in> set ss'" for s
  proof (cases "s_instructions s = ?r")
    case True
    then have hs: "s_handlers s = (case find (\<lambda>s. s_instructions s = ?r) ss of None \<Rightarrow> [] | Some t \<Rightarrow> s_handlers t) @ [?h]"
      using set_add_handler [OF d] s ss' by fastforce
    show ?thesis
    proof (cases "find (\<lambda>s. s_instructions s = ?r) ss")
      case None
      then have "?r \<notin> set (map s_instructions ss)" by (auto simp: find_None_iff)
      then have "?r \<notin> try_range ` set source" by (simp only: g(1) not_False_eq_True)
      then have "filter (\<lambda>e'. try_range e' = ?r) source = []"
        by (metis (mono_tags, lifting) filter_False image_eqI)
      with None hs h True show ?thesis by simp
    next
      case (Some t)
      then have t: "t \<in> set ss" "s_instructions t = ?r" by (auto simp: find_Some_iff)
      with g(2) [OF t(1)] Some hs h True show ?thesis by (simp add: list_all2_appendI)
    qed
  next
    case False
    then show ?thesis using set_add_handler [OF d] s ss' g(2) by fastforce
  qed
  moreover have "distinct (map s_instructions ss')" "set (map s_instructions ss') = try_range ` set (source @ [e])"
    using d g(1) unfolding ss' ranges_add_handler by (auto simp: image_iff)
  ultimately show ?thesis by (simp add: groups_def)
qed

lemma groups_parse:
  assumes "fold_outcome (parse_one mc) source acc = Ok ss" and "groups mc pre acc"
  shows "groups mc (pre @ source) ss"
  using assms
proof (induction source arbitrary: acc pre)
  case (Cons e source)
  then obtain acc1 where "parse_one mc e acc = Ok acc1" "fold_outcome (parse_one mc) source acc1 = Ok ss"
    by (auto simp: outcome_simps)
  with Cons.IH [of acc1 "pre @ [e]"] groups_parse_one [OF Cons.prems(2)] show ?case by simp
qed simp

lemma section_key_inj: "section_key a = section_key b \<longleftrightarrow> s_instructions a = s_instructions b"
  by (auto simp: section_key_def prod_eq_iff)

definition encloses :: "'c protected_section \<Rightarrow> 'c protected_section \<Rightarrow> bool" where
  "encloses outer inner \<longleftrightarrow> s_instructions outer \<noteq> s_instructions inner \<and>
     fst (s_instructions outer) \<le> fst (s_instructions inner) \<and> snd (s_instructions inner) \<le> snd (s_instructions outer)"

text \<open>
  C33: Parsing the exception metadata loses, merges and reorders nothing. The sections it returns have distinct
  try ranges, which are exactly the try ranges of the clauses; each section holds exactly the handlers of its
  clauses, in metadata order; and a section that lies inside another comes before it, so that the innermost is
  found first.
\<close>
theorem parse_groups_and_orders:
  assumes "exc_parse mc source = Ok ss"
  shows "distinct (map s_instructions ss) \<and> set (map s_instructions ss) = try_range ` set source \<and>
    (\<forall>s \<in> set ss. list_all2 (parsed_handler mc) (s_handlers s) (filter (\<lambda>e. try_range e = s_instructions s) source)) \<and>
    (\<forall>i < length ss. \<forall>j < length ss. encloses (ss ! j) (ss ! i) \<longrightarrow> i < j)"
proof -
  obtain ss0 where s0: "fold_outcome (parse_one mc) source [] = Ok ss0" "ss = sort_key section_key ss0"
    using assms by (auto simp: exc_parse_def outcome_simps)
  have "groups mc source ss0" using groups_parse [OF s0(1), of "[]"] by (simp add: groups_def)
  then have g: "groups mc source ss"
    unfolding s0(2) groups_def
    by (metis (no_types, lifting) distinct_map distinct_sort list.set_map set_sort)
  have "i < j" if "i < length ss" "j < length ss" "encloses (ss ! j) (ss ! i)" for i j
  proof (rule ccontr)
    assume "\<not> i < j"
    with that have "section_key (ss ! j) \<le> section_key (ss ! i)"
      using sorted_nth_mono [of "map section_key ss" j i] by (simp add: s0(2))
    then show False using that(3) by (auto simp: encloses_def section_key_def less_eq_prod_def prod_eq_iff)
  qed
  with g show ?thesis by (simp add: groups_def)
qed

theorem parse_groups_and_orders_witness:
  "\<exists>ss. exc_parse (Ok :: nat \<Rightarrow> _)
     [\<lparr>exception_kind = FinallyClause, try_offset = 0, try_length = 10, handler_offset = 10, handler_length = 5\<rparr>,
      \<lparr>exception_kind = TypedException 3, try_offset = 2, try_length = 3, handler_offset = 5, handler_length = 2\<rparr>] = Ok ss \<and>
     length ss = 2 \<and> s_instructions (ss ! 0) = (2, 5) \<and> distinct (map s_instructions ss)"
proof -
  let ?src = "[\<lparr>exception_kind = FinallyClause, try_offset = 0, try_length = 10, handler_offset = 10, handler_length = 5\<rparr>,
      \<lparr>exception_kind = TypedException 3, try_offset = 2, try_length = 3, handler_offset = 5, handler_length = 2\<rparr>]"
  obtain ss where ss: "exc_parse (Ok :: nat \<Rightarrow> _) ?src = Ok ss" "length ss = 2" "s_instructions (ss ! 0) = (2, 5)"
    by (simp add: exc_parse_def parse_one_def parse_kind_def uadd_def usize_of_def usize_max_def section_key_def)
  from parse_groups_and_orders [OF ss(1)] ss show ?thesis by blast
qed

section \<open>The search pass\<close>

definition passes :: "('g, 'c, 'r) ves_env \<Rightarrow> object_ref \<Rightarrow> 'c handler \<Rightarrow> bool" where
  "passes env exc h \<longleftrightarrow> (case h_kind h of Catch t \<Rightarrow> catches env exc t = Ok False | Filter _ \<Rightarrow> False | _ \<Rightarrow> True)"

definition decides :: "('g, 'c, 'r) ves_env \<Rightarrow> object_ref \<Rightarrow> 'c handler \<Rightarrow> handler_address \<Rightarrow> found \<Rightarrow> bool" where
  "decides env exc h a x \<longleftrightarrow>
     (case x of
        FoundCatch b \<Rightarrow> b = a \<and> (\<exists>t. h_kind h = Catch t \<and> catches env exc t = Ok True)
      | FoundFilter b off \<Rightarrow> b = a \<and> h_kind h = Filter off)"

lemma search_handlers_spec:
  assumes "search_handlers env exc fi si hi hs = Ok r"
  shows "case r of
      None \<Rightarrow> \<forall>h \<in> set hs. passes env exc h
    | Some x \<Rightarrow> \<exists>k < length hs. decides env exc (hs ! k) (address fi si (hi + k)) x \<and> (\<forall>j < k. passes env exc (hs ! j))"
  using assms
proof (induction hs arbitrary: hi)
  case (Cons h hs)
  have tail: ?case if p: "passes env exc h" and t: "search_handlers env exc fi si (Suc hi) hs = Ok r"
  proof (cases r)
    case (Some x)
    with Cons.IH [OF t] obtain k where "k < length hs" "decides env exc (hs ! k) (address fi si (Suc hi + k)) x"
        "\<forall>j < k. passes env exc (hs ! j)" by auto
    with p have "Suc k < length (h # hs) \<and> decides env exc ((h # hs) ! Suc k) (address fi si (hi + Suc k)) x \<and>
        (\<forall>j < Suc k. passes env exc ((h # hs) ! j))"
      by (auto simp: less_Suc_eq_0_disj)
    with Some show ?thesis by (simp only: option.case) blast
  qed (use Cons.IH [OF t] p in auto)
  show ?case
  proof (cases "h_kind h")
    case (Catch t)
    with Cons.prems obtain m where m: "catches env exc t = Ok m" by (auto simp: outcome_simps)
    show ?thesis
    proof (cases m)
      case True
      with Catch m Cons.prems show ?thesis by (auto simp: decides_def intro!: exI [of _ 0])
    next
      case False
      with Catch m Cons.prems show ?thesis by (intro tail) (auto simp: passes_def)
    qed
  next
    case (Filter off)
    with Cons.prems show ?thesis by (auto simp: decides_def intro!: exI [of _ 0])
  next
    case Finally
    with Cons.prems show ?thesis by (intro tail) (auto simp: passes_def)
  next
    case Fault
    with Cons.prems show ?thesis by (intro tail) (auto simp: passes_def)
  qed
qed auto

text \<open>The handlers a scan of sections considers, by section and handler index.\<close>

definition visible :: "handler_address \<Rightarrow> nat \<Rightarrow> nat \<Rightarrow> nat \<Rightarrow> 'c protected_section list \<Rightarrow> nat \<Rightarrow> nat \<Rightarrow> bool" where
  "visible cursor n fi si ss k j \<longleftrightarrow>
     k < length ss \<and> in_range (s_instructions (ss ! k)) n \<and> handler_start cursor fi (si + k) \<le> j \<and>
     j < length (s_handlers (ss ! k))"

lemma visible_Suc:
  "visible cursor n fi si (s # ss) (Suc k) j = visible cursor n fi (Suc si) ss k j"
  by (simp add: visible_def)

lemma search_sections_spec:
  assumes "search_sections env exc cursor n fi si ss = Ok r"
  shows "case r of
      None \<Rightarrow> \<forall>k j. visible cursor n fi si ss k j \<longrightarrow> passes env exc (s_handlers (ss ! k) ! j)
    | Some x \<Rightarrow> \<exists>k j. visible cursor n fi si ss k j \<and> decides env exc (s_handlers (ss ! k) ! j) (address fi (si + k) j) x \<and>
        (\<forall>k' j'. visible cursor n fi si ss k' j' \<and> (k' < k \<or> k' = k \<and> j' < j) \<longrightarrow> passes env exc (s_handlers (ss ! k') ! j'))"
  using assms
proof (induction ss arbitrary: si)
  case (Cons s ss)
  have tail: ?case if p: "\<forall>j. visible cursor n fi si (s # ss) 0 j \<longrightarrow> passes env exc (s_handlers s ! j)"
    and t: "search_sections env exc cursor n fi (Suc si) ss = Ok r"
  proof (cases r)
    case None
    have "passes env exc (s_handlers ((s # ss) ! k) ! j)" if "visible cursor n fi si (s # ss) k j" for k j
      using Cons.IH [OF t] None p that by (cases k) (auto simp: visible_Suc)
    with None show ?thesis by simp
  next
    case (Some x)
    with Cons.IH [OF t] obtain k j where kj: "visible cursor n fi (Suc si) ss k j"
        "decides env exc (s_handlers (ss ! k) ! j) (address fi (Suc si + k) j) x"
        "\<forall>k' j'. visible cursor n fi (Suc si) ss k' j' \<and> (k' < k \<or> k' = k \<and> j' < j) \<longrightarrow> passes env exc (s_handlers (ss ! k') ! j')"
      by auto
    have "passes env exc (s_handlers ((s # ss) ! k') ! j')"
      if "visible cursor n fi si (s # ss) k' j'" "k' < Suc k \<or> k' = Suc k \<and> j' < j" for k' j'
      using that kj(3) p by (cases k') (auto simp: visible_Suc)
    moreover have "visible cursor n fi si (s # ss) (Suc k) j"
        "decides env exc (s_handlers ((s # ss) ! Suc k) ! j) (address fi (si + Suc k) j) x"
      using kj(1,2) by (simp_all add: visible_Suc)
    ultimately show ?thesis unfolding Some option.case by blast
  qed
  show ?case
  proof (cases "in_range (s_instructions s) n")
    case False
    with Cons.prems show ?thesis by (intro tail) (auto simp: visible_def)
  next
    case True
    let ?hs = "handler_start cursor fi si"
    obtain q where q: "search_handlers env exc fi si ?hs (drop ?hs (s_handlers s)) = Ok q"
      using Cons.prems True by (auto simp: Let_def outcome_simps)
    note spec = search_handlers_spec [OF q]
    show ?thesis
    proof (cases q)
      case None
      have "passes env exc (s_handlers s ! j)" if v: "visible cursor n fi si (s # ss) 0 j" for j
      proof -
        obtain i where i: "j = ?hs + i" using v le_Suc_ex by (auto simp: visible_def)
        then have "i < length (drop ?hs (s_handlers s))" using v by (auto simp: visible_def)
        then have "drop ?hs (s_handlers s) ! i \<in> set (drop ?hs (s_handlers s))" by (rule nth_mem)
        moreover have "drop ?hs (s_handlers s) ! i = s_handlers s ! j" using v i by (simp add: visible_def)
        ultimately show ?thesis using spec None by simp
      qed
      with None q True Cons.prems show ?thesis by (intro tail) (auto simp: Let_def)
    next
      case (Some x)
      then obtain k where k: "k < length (drop ?hs (s_handlers s))"
          "decides env exc (drop ?hs (s_handlers s) ! k) (address fi si (?hs + k)) x"
          "\<forall>j < k. passes env exc (drop ?hs (s_handlers s) ! j)"
        using spec by auto
      have "passes env exc (s_handlers s ! j')" if "?hs \<le> j'" "j' < ?hs + k" for j'
      proof -
        obtain i where "j' = ?hs + i" using \<open>?hs \<le> j'\<close> le_Suc_ex by blast
        with that k show ?thesis by auto
      qed
      then have "\<forall>k' j'. visible cursor n fi si (s # ss) k' j' \<and> (k' < 0 \<or> k' = 0 \<and> j' < ?hs + k) \<longrightarrow>
          passes env exc (s_handlers ((s # ss) ! k') ! j')"
        by (auto simp: visible_def)
      moreover have "visible cursor n fi si (s # ss) 0 (?hs + k)"
          "decides env exc (s_handlers ((s # ss) ! 0) ! (?hs + k)) (address fi (si + 0) (?hs + k)) x"
        using k True by (auto simp: visible_def)
      moreover have rx: "r = Some x" using Some q True Cons.prems by (auto simp: Let_def)
      ultimately show ?thesis unfolding rx option.case by blast
    qed
  qed
qed (auto simp: visible_def)

text \<open>
  The handlers of a frame stack by address: whether one guards the instruction its frame is at, whether the
  search that starts at a cursor gets to it, and which of two it gets to first.
\<close>

definition handler_at :: "('g, 'c, 'r) frame_stack \<Rightarrow> handler_address \<Rightarrow> 'c handler" where
  "handler_at fs a = s_handlers (sections_of (frames fs ! frame_index a) ! section_index a) ! handler_index a"

definition guards :: "('g, 'c, 'r) frame_stack \<Rightarrow> handler_address \<Rightarrow> bool" where
  "guards fs a \<longleftrightarrow> frame_index a < length (frames fs) \<and>
     (let f = frames fs ! frame_index a in
        section_index a < length (sections_of f) \<and>
        in_range (s_instructions (sections_of f ! section_index a)) (frame_ip f) \<and>
        handler_index a < length (s_handlers (sections_of f ! section_index a)))"

definition precedes :: "handler_address \<Rightarrow> handler_address \<Rightarrow> bool" where
  "precedes a b \<longleftrightarrow> frame_index b < frame_index a \<or> frame_index a = frame_index b \<and>
     (section_index a < section_index b \<or> section_index a = section_index b \<and> handler_index a < handler_index b)"

definition from_cursor :: "handler_address \<Rightarrow> handler_address \<Rightarrow> bool" where
  "from_cursor cursor a \<longleftrightarrow> \<not> precedes a cursor"

lemma address_simps [simp]:
  "frame_index (address fi si hi) = fi" "section_index (address fi si hi) = si" "handler_index (address fi si hi) = hi"
  by (simp_all add: address_def)

lemma address_eta: "a = address (frame_index a) (section_index a) (handler_index a)"
  by (simp add: address_def)

lemma visible_guards:
  assumes "fi < length (frames fs)" and "fi \<le> frame_index cursor"
  defines "f \<equiv> frames fs ! fi"
  shows "visible cursor (frame_ip f) fi (section_start cursor fi) (drop (section_start cursor fi) (sections_of f)) k j \<longleftrightarrow>
    guards fs (address fi (section_start cursor fi + k) j) \<and> from_cursor cursor (address fi (section_start cursor fi + k) j)"
  using assms
  by (cases "section_start cursor fi \<le> length (sections_of f)")
    (auto simp: visible_def guards_def from_cursor_def precedes_def section_start_def handler_start_def Let_def)

lemma from_cursor_section:
  assumes "from_cursor cursor b" and "frame_index b \<le> frame_index cursor"
  shows "\<exists>k. section_index b = section_start cursor (frame_index b) + k"
  using assms by (auto simp: from_cursor_def precedes_def section_start_def le_iff_add [symmetric])

lemma search_frames_spec:
  assumes "search_frames env exc cursor fs (rev [lo ..< m]) = Ok r"
    and "m \<le> length (frames fs)" and "m \<le> Suc (frame_index cursor)"
  shows "case r of
      None \<Rightarrow> \<forall>b. guards fs b \<and> from_cursor cursor b \<and> lo \<le> frame_index b \<and> frame_index b < m \<longrightarrow>
        passes env exc (handler_at fs b)
    | Some x \<Rightarrow> \<exists>a. guards fs a \<and> from_cursor cursor a \<and> lo \<le> frame_index a \<and> frame_index a < m \<and>
        decides env exc (handler_at fs a) a x \<and>
        (\<forall>b. guards fs b \<and> from_cursor cursor b \<and> frame_index b < m \<and> precedes b a \<longrightarrow> passes env exc (handler_at fs b))"
  using assms
proof (induction m arbitrary: r)
  case (Suc fi)
  show ?case
  proof (cases "lo \<le> fi")
    case False
    with Suc.prems(1) show ?thesis by auto
  next
    case True
    let ?f = "frames fs ! fi" and ?ss = "section_start cursor fi"
    have fi: "fi < length (frames fs)" "fi \<le> frame_index cursor" using Suc.prems by auto
    obtain q where q: "search_sections env exc cursor (frame_ip ?f) fi ?ss (drop ?ss (sections_of ?f)) = Ok q"
      using Suc.prems(1) True fi by (auto simp: frame_at_def Let_def outcome_simps)
    note spec = search_sections_spec [OF q] and vis = visible_guards [OF fi]
    have at: "s_handlers (drop ?ss (sections_of ?f) ! k) ! j = handler_at fs (address fi (?ss + k) j)"
      if "guards fs (address fi (?ss + k) j)" for k j
      using that by (simp add: handler_at_def guards_def Let_def)
    have here: "\<exists>k j. b = address fi (?ss + k) j \<and>
        visible cursor (frame_ip ?f) fi ?ss (drop ?ss (sections_of ?f)) k j"
      if b: "guards fs b" "from_cursor cursor b" "frame_index b = fi" for b
    proof -
      obtain k where "section_index b = ?ss + k" using from_cursor_section [OF b(2)] b(3) fi(2) by auto
      then have "b = address fi (?ss + k) (handler_index b)" using b(3) address_eta by metis
      with b vis show ?thesis by metis
    qed
    show ?thesis
    proof (cases q)
      case None
      have passed: "passes env exc (handler_at fs b)" if "guards fs b" "from_cursor cursor b" "frame_index b = fi" for b
        using here [OF that] spec None at vis by fastforce
      have "search_frames env exc cursor fs (rev [lo ..< fi]) = Ok r"
        using Suc.prems(1) q None True fi by (simp add: frame_at_def Let_def)
      from Suc.IH [OF this] fi show ?thesis
      proof (cases r)
        case None
        with Suc.IH [OF \<open>search_frames env exc cursor fs (rev [lo ..< fi]) = Ok r\<close>] fi passed show ?thesis
          by (auto simp: less_Suc_eq)
      next
        case (Some x)
        with Suc.IH [OF \<open>search_frames env exc cursor fs (rev [lo ..< fi]) = Ok r\<close>] fi obtain a where
          "guards fs a \<and> from_cursor cursor a \<and> lo \<le> frame_index a \<and> frame_index a < fi \<and> decides env exc (handler_at fs a) a x"
          "\<forall>b. guards fs b \<and> from_cursor cursor b \<and> frame_index b < fi \<and> precedes b a \<longrightarrow> passes env exc (handler_at fs b)"
          by auto
        with passed Some show ?thesis unfolding Some option.case by (metis less_Suc_eq)
      qed
    next
      case (Some x)
      with spec obtain k j where kj: "visible cursor (frame_ip ?f) fi ?ss (drop ?ss (sections_of ?f)) k j"
        "decides env exc (s_handlers (drop ?ss (sections_of ?f) ! k) ! j) (address fi (?ss + k) j) x"
        "\<forall>k' j'. visible cursor (frame_ip ?f) fi ?ss (drop ?ss (sections_of ?f)) k' j' \<and> (k' < k \<or> k' = k \<and> j' < j) \<longrightarrow>
           passes env exc (s_handlers (drop ?ss (sections_of ?f) ! k') ! j')"
        by auto
      let ?a = "address fi (?ss + k) j"
      have "passes env exc (handler_at fs b)"
        if b: "guards fs b" "from_cursor cursor b" "frame_index b < Suc fi" "precedes b ?a" for b
      proof -
        have "frame_index b = fi" using b(3,4) by (auto simp: precedes_def)
        then obtain k' j' where b': "b = address fi (?ss + k') j'"
            "visible cursor (frame_ip ?f) fi ?ss (drop ?ss (sections_of ?f)) k' j'"
          using here b by blast
        with b(4) kj(3) have "passes env exc (s_handlers (drop ?ss (sections_of ?f) ! k') ! j')"
          by (auto simp: precedes_def)
        with at b b' show ?thesis by metis
      qed
      moreover have "guards fs ?a" "from_cursor cursor ?a" using kj(1) vis by blast+
      moreover have "decides env exc (handler_at fs ?a) ?a x" using kj(2) at [OF \<open>guards fs ?a\<close>] by simp
      moreover have rx: "r = Some x" using Suc.prems(1) q Some True fi by (simp add: frame_at_def Let_def)
      ultimately show ?thesis using True unfolding rx option.case by (intro exI [of _ ?a]) simp
    qed
  qed
qed simp

definition first_decision ::
    "('g, 'c, 'r) ves_env \<Rightarrow> object_ref \<Rightarrow> handler_address \<Rightarrow> ('g, 'c, 'r) frame_stack \<Rightarrow> found \<Rightarrow> handler_address \<Rightarrow> bool" where
  "first_decision env exc cursor fs x a \<longleftrightarrow> guards fs a \<and> from_cursor cursor a \<and> decides env exc (handler_at fs a) a x \<and>
     (\<forall>b. guards fs b \<and> from_cursor cursor b \<and> precedes b a \<longrightarrow> passes env exc (handler_at fs b))"

lemma from_cursor_frame: "from_cursor cursor b \<Longrightarrow> frame_index b < Suc (frame_index cursor)"
  by (auto simp: from_cursor_def precedes_def)

lemma search_all_frames:
  assumes "search_frames env exc cursor fs (rev [0 ..< Suc (frame_index cursor)]) = Ok r"
    and "frame_index cursor < length (frames fs)"
  shows "case r of
      None \<Rightarrow> \<forall>b. guards fs b \<and> from_cursor cursor b \<longrightarrow> passes env exc (handler_at fs b)
    | Some x \<Rightarrow> \<exists>a. first_decision env exc cursor fs x a"
proof -
  have frame: "from_cursor cursor b \<and> 0 \<le> frame_index b \<and> frame_index b < Suc (frame_index cursor) \<and> P \<longleftrightarrow>
      from_cursor cursor b \<and> P" "from_cursor cursor b \<and> frame_index b < Suc (frame_index cursor) \<and> P \<longleftrightarrow>
      from_cursor cursor b \<and> P" "from_cursor cursor b \<and> 0 \<le> frame_index b \<and> frame_index b < Suc (frame_index cursor) \<longleftrightarrow>
      from_cursor cursor b" for b P
    using from_cursor_frame by blast+
  have "Suc (frame_index cursor) \<le> length (frames fs)" using assms(2) by simp
  from search_frames_spec [OF assms(1) this order_refl] show ?thesis
    unfolding frame first_decision_def .
qed

lemma on_push_mode: "on_push ctx = (Ok ctx' :: ('e, _) outcome) \<Longrightarrow> exception_mode ctx' = exception_mode ctx"
  by (auto simp: on_push_def outcome_simps split: if_splits)

lemma ves_push_mode: "ves_push v ctx = (Ok ctx' :: ('e, _) outcome) \<Longrightarrow> exception_mode ctx' = exception_mode ctx"
  unfolding ves_push_def by (drule on_push_mode) simp

lemma update_frame_mode: "update_frame i g ctx = (Ok ctx' :: ('e, _) outcome) \<Longrightarrow> exception_mode ctx' = exception_mode ctx"
  by (auto simp: update_frame_def outcome_simps)

lemma begin_filter_mode:
  assumes "begin_filter exc h off ctx = Ok (Finished r ctx')"
  shows "r = Exception \<and> (\<exists>f. exception_mode ctx' = Filtering f \<and> filter_handler f = h \<and> filter_exception f = exc)"
  using assms unfolding begin_filter_def Let_def
  by (auto simp: outcome_simps set_mode_def dest!: ves_push_mode update_frame_mode)

text \<open>
  C15: The search pass finds the innermost handler that takes the exception. From the cursor on, frames are
  searched from the top, sections and handlers in order: when the search starts to unwind, it is towards a catch
  whose type test succeeded; when it runs a filter, it is that filter; and every handler that guards the current
  instruction of its frame and comes before was passed over because its type test failed or it is a finally or
  fault. When it gives up, no handler at all takes the exception; otherwise a type test has failed with an error.
\<close>
theorem search_finds_innermost:
  assumes "exception_mode ctx = Searching s" and "search_nested s = None"
    and "frame_index cursor < length (frames (frame_stack ctx))"
    and "search_for_handler env exc cursor ctx = Ok (Finished r ctx')"
  shows "case exception_mode ctx' of
      Unwinding u \<Rightarrow> r = Exception \<and> (\<exists>a. unwind_to u = ToHandler a \<and> first_decision env exc cursor (frame_stack ctx) (FoundCatch a) a)
    | Filtering f \<Rightarrow> r = Exception \<and>
        (\<exists>off. first_decision env exc cursor (frame_stack ctx) (FoundFilter (filter_handler f) off) (filter_handler f))
    | NoException \<Rightarrow> (\<exists>info. r = MethodThrew info) \<and>
        (\<forall>b. guards (frame_stack ctx) b \<and> from_cursor cursor b \<longrightarrow> passes env exc (handler_at (frame_stack ctx) b))
    | Searching _ \<Rightarrow> ctx' = ctx \<and> (\<exists>e. r = Error (TypeResolution e))
    | _ \<Rightarrow> False"
proof -
  let ?r = "search_frames env exc cursor (frame_stack ctx) (rev [0 ..< Suc (frame_index cursor)])"
  have stop: "stop_frame (exception_mode ctx) = (Ok 0 :: (vm_error, _) outcome)" using assms(1,2) by (simp add: stop_frame_def)
  show ?thesis
  proof (cases ?r)
    case (Ok q)
    note spec = search_all_frames [OF Ok assms(3)]
    show ?thesis
    proof (cases q)
      case None
      have "unhandled env exc ctx = Ok (Finished r ctx')"
        using assms(4) stop Ok None by (simp add: search_for_handler_def del: upt_Suc)
      then show ?thesis using spec None assms(1,2) by (auto simp: unhandled_def outcome_simps)
    next
      case (Some x)
      then obtain a where a: "first_decision env exc cursor (frame_stack ctx) x a" using spec by auto
      show ?thesis
      proof (cases x)
        case (FoundCatch h)
        have "begin_unwind_to exc h ctx = Ok (Finished r ctx')"
          using assms(4) stop Ok Some FoundCatch by (simp add: search_for_handler_def del: upt_Suc)
        with a FoundCatch show ?thesis by (auto simp: begin_unwind_to_def outcome_simps first_decision_def decides_def)
      next
        case (FoundFilter h off)
        have "begin_filter exc h off ctx = Ok (Finished r ctx')"
          using assms(4) stop Ok Some FoundFilter by (simp add: search_for_handler_def del: upt_Suc)
        from begin_filter_mode [OF this] a FoundFilter show ?thesis by (auto simp: first_decision_def decides_def)
      qed
    qed
  qed (use assms stop in \<open>auto simp: search_for_handler_def simp del: upt_Suc\<close>)
qed

text \<open>A caller whose outer try catches type 1, and a callee with a finally and a catch of another type.\<close>

definition sample_caller :: "(unit, nat, unit) stack_frame" where
  "sample_caller = sample_frame (sample_method [sample_section 2 4 [(10, 12, Catch 0)],
     sample_section 1 8 [(12, 14, Catch 1), (14, 16, Catch 1)]] ReturnsNothing 0) 0 3 0"

definition sample_callee :: "(unit, nat, unit) stack_frame" where
  "sample_callee = sample_frame (sample_method [sample_section 0 4 [(4, 6, Finally)], sample_section 0 6 [(6, 8, Catch 0)]]
     ReturnsNothing 0) 0 2 0"

theorem search_finds_innermost_witness:
  "\<exists>ctx'. search_for_handler sample_env (Some 32) (address 1 0 0)
        (sample_ves [sample_caller, sample_callee] [] (Searching \<lparr>search_exception = Some 32,
           search_cursor = address 1 0 0, search_nested = None\<rparr>)) = Ok (Finished Exception ctx') \<and>
     (\<exists>u. exception_mode ctx' = Unwinding u \<and> unwind_to u = ToHandler (address 0 1 0) \<and>
        first_decision sample_env (Some 32) (address 1 0 0) (frame_stack (sample_ves [sample_caller, sample_callee] [] NoException))
          (FoundCatch (address 0 1 0)) (address 0 1 0))"
proof -
  let ?m = "Searching \<lparr>search_exception = Some 32, search_cursor = address 1 0 0, search_nested = None\<rparr>"
  let ?ctx = "sample_ves [sample_caller, sample_callee] [] ?m"
  let ?ctx' = "set_mode (Unwinding \<lparr>unwind_exception = Some (Some 32), unwind_to = ToHandler (address 0 1 0),
      unwind_cursor = address 1 0 0, unwind_nested = None\<rparr>) ?ctx"
  have r: "search_for_handler sample_env (Some 32) (address 1 0 0) ?ctx = Ok (Finished Exception ?ctx')"
    by (simp add: sample_simps sample_caller_def sample_callee_def search_for_handler_def stop_frame_def begin_unwind_to_def
        section_start_def handler_start_def catches_def)
  have "frame_index (address 1 0 0) < length (frames (frame_stack ?ctx))" by (simp add: sample_simps)
  from search_finds_innermost [OF _ _ this r] r show ?thesis by (auto simp: sample_ves_def set_mode_def)
qed

end
