(* ===== verification/Unwind_Pass.thy ===== *)
theory Unwind_Pass
  imports Exception_Props
begin

text \<open>
  The unwind pass towards a catch handler, over all the handlers it runs: the finally and fault handlers of the
  sections that are left run once each, from the innermost to the outermost, and then the catch gets control with
  the exception as its only operand. The code of the handlers is a parameter.
\<close>

section \<open>The handlers to run\<close>

text \<open>A finally runs on every way out, a fault only on the way of an exception.\<close>

definition expected_to_run :: "object_ref option \<Rightarrow> 'c handler \<Rightarrow> bool" where
  "expected_to_run exc h \<longleftrightarrow> h_kind h = Finally \<or> h_kind h = Fault \<and> exc \<noteq> None"

lemma should_run_expected: "should_run exc h = expected_to_run exc h"
  by (cases "h_kind h") (simp_all add: should_run_def expected_to_run_def)

text \<open>
  Sections as compilers emit them: a handler is not inside its own try range, an outer range contains all or
  nothing of an inner section and its handlers, and a section has at most one handler to run on the way out.
\<close>

definition nested_sections :: "object_ref option \<Rightarrow> 'c protected_section list \<Rightarrow> bool" where
  "nested_sections exc ss \<longleftrightarrow>
     (\<forall>s \<in> set ss. length (filter (expected_to_run exc) (s_handlers s)) \<le> 1 \<and>
        (\<forall>h \<in> set (s_handlers s). fst (h_instructions h) < snd (h_instructions h) \<and>
           (\<forall>n. in_range (h_instructions h) n \<longrightarrow> \<not> in_range (s_instructions s) n))) \<and>
     (\<forall>i j. i < j \<and> j < length ss \<longrightarrow>
        (\<forall>h \<in> set (s_handlers (ss ! i)). \<forall>n m.
           in_range (s_instructions (ss ! i)) n \<and> in_range (h_instructions h) m \<longrightarrow>
             in_range (s_instructions (ss ! j)) n = in_range (s_instructions (ss ! j)) m))"

definition section_plan :: "object_ref option \<Rightarrow> nat \<Rightarrow> 'c protected_section \<Rightarrow> 'c handler list" where
  "section_plan exc n s = (if in_range (s_instructions s) n then filter (expected_to_run exc) (s_handlers s) else [])"

definition sections_plan :: "object_ref option \<Rightarrow> nat \<Rightarrow> 'c protected_section list \<Rightarrow> 'c handler list" where
  "sections_plan exc n ss = concat (map (section_plan exc n) ss)"

text \<open>The handlers of a frame from a section on; in the frame of the target only those before its section.\<close>

definition section_limit :: "handler_address \<Rightarrow> nat \<Rightarrow> 'c protected_section list \<Rightarrow> nat" where
  "section_limit h i ss = (if i = frame_index h then section_index h else length ss)"

definition frame_plan ::
    "object_ref option \<Rightarrow> handler_address \<Rightarrow> nat \<Rightarrow> nat \<Rightarrow> ('g, 'c, 'r) stack_frame \<Rightarrow> (nat \<times> nat) list" where
  "frame_plan exc h i lo f =
     map (\<lambda>x. (i, fst (h_instructions x)))
       (sections_plan exc (frame_ip f) (drop lo (take (section_limit h i (sections_of f)) (sections_of f))))"

definition stack_plan ::
    "object_ref option \<Rightarrow> handler_address \<Rightarrow> ('g, 'c, 'r) stack_frame list \<Rightarrow> nat \<Rightarrow> nat \<Rightarrow> (nat \<times> nat) list" where
  "stack_plan exc h fs i lo =
     frame_plan exc h i lo (fs ! i) @ concat (map (\<lambda>j. frame_plan exc h j 0 (fs ! j)) (rev [frame_index h ..< i]))"

section \<open>One scan\<close>

lemma unwind_handlers_try:
  assumes "\<forall>h \<in> set hs. \<not> in_range (h_instructions h) n"
  shows "filter (expected_to_run exc) hs = [] \<Longrightarrow> unwind_handlers exc n fi hi hs ctx = Ok (None, ctx)"
    and "filter (expected_to_run exc) hs = x # xs \<Longrightarrow> \<exists>k. unwind_handlers exc n fi hi hs ctx = Ok (Some (k, x), ctx)"
  using assms by (induction hs arbitrary: hi) (auto simp: should_run_expected split: if_splits)

lemma sections_plan_simps [simp]:
  "sections_plan exc n [] = []"
  "sections_plan exc n (s # ss) = section_plan exc n s @ sections_plan exc n ss"
  by (simp_all add: sections_plan_def)

definition own_ranges :: "'c protected_section \<Rightarrow> bool" where
  "own_ranges s \<longleftrightarrow> (\<forall>h \<in> set (s_handlers s). \<forall>n. in_range (h_instructions h) n \<longrightarrow> \<not> in_range (s_instructions s) n)"

lemma unwind_sections_plan:
  assumes "\<forall>s \<in> set ss. own_ranges s \<and> length (filter (expected_to_run exc) (s_handlers s)) \<le> 1"
    and "\<forall>i < length ss. past_target target fi (si + i) \<longleftrightarrow> k \<le> i"
    and "target = ToHandler h"
    and "\<forall>i < length ss. in_range (s_instructions (ss ! i)) n \<longrightarrow> handler_start cursor fi (si + i) = 0"
  shows "case sections_plan exc n (take k ss) of
      [] \<Rightarrow> unwind_sections exc target cursor n fi si ss ctx = (Ok (None, ctx) :: ('e, _) outcome)
    | x # xs \<Rightarrow> \<exists>j hi. unwind_sections exc target cursor n fi si ss ctx = (Ok (Some (si + j, hi, x), ctx) :: ('e, _) outcome) \<and>
        j < length ss \<and> j < k \<and> x \<in> set (s_handlers (ss ! j)) \<and> in_range (s_instructions (ss ! j)) n \<and>
        xs = sections_plan exc n (drop (Suc j) (take k ss))"
  using assms
proof (induction ss arbitrary: si k)
  case (Cons s ss)
  show ?case
  proof (cases k)
    case 0
    then show ?thesis using Cons.prems(2) [rule_format, of 0] by simp
  next
    case (Suc k')
    have past: "\<not> past_target target fi si" using Cons.prems(2) [rule_format, of 0] Suc by simp
    have IH: "case sections_plan exc n (take k' ss) of
      [] \<Rightarrow> unwind_sections exc target cursor n fi (Suc si) ss ctx = (Ok (None, ctx) :: ('e, _) outcome)
    | x # xs \<Rightarrow> \<exists>j hi. unwind_sections exc target cursor n fi (Suc si) ss ctx = (Ok (Some (Suc si + j, hi, x), ctx) :: ('e, _) outcome) \<and>
        j < length ss \<and> j < k' \<and> x \<in> set (s_handlers (ss ! j)) \<and> in_range (s_instructions (ss ! j)) n \<and>
        xs = sections_plan exc n (drop (Suc j) (take k' ss))"
      using Cons.prems(2) [rule_format, of "Suc i" for i] Cons.prems(4) [rule_format, of "Suc i" for i] Cons.prems(1,3) Suc
      by (intro Cons.IH) auto
    have exiting: "is_exiting_section s n target \<longleftrightarrow> in_range (s_instructions s) n"
      using Cons.prems(3) by (simp add: is_exiting_section_def)
    show ?thesis
    proof (cases "section_plan exc n s")
      case Nil
      have "unwind_sections exc target cursor n fi si (s # ss) ctx = (unwind_sections exc target cursor n fi (Suc si) ss ctx :: ('e, _) outcome)"
      proof (cases "in_range (s_instructions s) n")
        case True
        have "unwind_handlers exc n fi 0 (s_handlers s) ctx = (Ok (None, ctx) :: ('e, _) outcome)"
          using Nil True Cons.prems(1) by (intro unwind_handlers_try(1)) (auto simp: section_plan_def own_ranges_def)
        then show ?thesis using past exiting True Cons.prems(4) [rule_format, of 0] by simp
      qed (use past exiting in simp)
      moreover have "sections_plan exc n (take k (s # ss)) = sections_plan exc n (take k' ss)" using Nil Suc by simp
      ultimately have eqs: "unwind_sections exc target cursor n fi si (s # ss) ctx =
            (unwind_sections exc target cursor n fi (Suc si) ss ctx :: ('e, _) outcome)"
          "sections_plan exc n (take k (s # ss)) = sections_plan exc n (take k' ss)" by blast+
      show ?thesis
      proof (cases "sections_plan exc n (take k' ss)")
        case (Cons x xs)
        from IH [unfolded Cons list.case] obtain j hi where "unwind_sections exc target cursor n fi (Suc si) ss ctx =
              (Ok (Some (Suc si + j, hi, x), ctx) :: ('e, _) outcome) \<and> j < length ss \<and> j < k' \<and>
            x \<in> set (s_handlers (ss ! j)) \<and> in_range (s_instructions (ss ! j)) n \<and>
            xs = sections_plan exc n (drop (Suc j) (take k' ss))"
          by (elim exE)
        then show ?thesis using Suc unfolding eqs Cons list.case
          by (intro exI [of _ "Suc j"] exI [of _ hi]) (simp del: unwind_sections.simps)
      next
        case Nil
        show ?thesis unfolding eqs Nil list.case by (rule IH [unfolded Nil list.case])
      qed
    next
      case (Cons x xs)
      then have in_try: "in_range (s_instructions s) n" and p: "filter (expected_to_run exc) (s_handlers s) = x # xs"
        by (auto simp: section_plan_def split: if_splits)
      with Cons.prems(1) have xs: "xs = []" by simp
      have "\<exists>hi. unwind_handlers exc n fi 0 (s_handlers s) ctx = (Ok (Some (hi, x), ctx) :: ('e, _) outcome)"
        using Cons.prems(1) in_try by (intro unwind_handlers_try(2) [OF _ p]) (auto simp: own_ranges_def)
      then obtain hi where "unwind_handlers exc n fi 0 (s_handlers s) ctx = (Ok (Some (hi, x), ctx) :: ('e, _) outcome)" by blast
      then have r: "unwind_sections exc target cursor n fi si (s # ss) ctx = (Ok (Some (si, hi, x), ctx) :: ('e, _) outcome)"
        using past exiting in_try Cons.prems(4) [rule_format, of 0] by simp
      have plan: "sections_plan exc n (take k (s # ss)) = x # sections_plan exc n (take k' ss)" using Cons xs Suc by simp
      have "x \<in> set (filter (expected_to_run exc) (s_handlers s))" unfolding p by simp
      then show ?thesis unfolding r plan list.case using in_try Suc by (intro exI [of _ 0] exI [of _ hi]) simp
    qed
  qed
qed simp

text \<open>What unwinding down to a frame keeps: the frames below, and the operands below the base \<open>b\<close>.\<close>

definition popped :: "nat \<Rightarrow> nat \<Rightarrow> ('g, 'c, 'r) ves \<Rightarrow> ('g, 'c, 'r) ves \<Rightarrow> bool" where
  "popped b i ctx ctx' \<longleftrightarrow>
     frames (frame_stack ctx') = take (Suc i) (frames (frame_stack ctx)) \<and>
     storage_inv (frame_stack ctx') (gauges ctx') \<and> exception_mode ctx' = exception_mode ctx \<and>
     take b (stack (evaluation_stack ctx')) = take b (stack (evaluation_stack ctx))"

lemma unwind_frame_ok:
  assumes "storage_inv (frame_stack ctx) (gauges ctx)" and "frames (frame_stack ctx) = xs @ [f]"
    and "\<not> is_cctor (info_handle (state f))"
  shows "\<exists>ctx'. unwind_frame env ctx = (Ok ctx' :: ('e, _) outcome) \<and> frames (frame_stack ctx') = xs \<and>
    storage_inv (frame_stack ctx') (gauges ctx') \<and> exception_mode ctx' = exception_mode ctx \<and>
    stack (evaluation_stack ctx') = take (base_arguments (base f)) (stack (evaluation_stack ctx))"
proof -
  obtain fs' th' where r: "recycle_frame f ((frame_stack ctx)\<lparr>frames := xs\<rparr>) (gauges ctx) = (Ok (fs', th') :: ('e, _) outcome)"
      "storage_inv fs' th'" "frames fs' = xs"
    using recycle_ok [OF assms(1), where 'e = 'e] assms(2) by (auto simp: pop_and_recycle_def fs_pop_def outcome_simps)
  then show ?thesis
    using assms(2,3) by (simp add: unwind_frame_def fs_pop_def recycle_def leave_finalizer_def clear_evaluation_stack_from_def
        es_truncate_def)
qed

lemma stack_plan_step:
  assumes "frame_index h < i" and "frame_plan exc h i lo (fs ! i) = []"
  shows "stack_plan exc h fs i lo = stack_plan exc h fs (i - 1) 0"
proof -
  obtain j where "i = Suc j" "frame_index h \<le> j" using assms(1) by (metis Suc_le_eq less_Suc_eq_le not0_implies_Suc not_less0)
  with assms(2) show ?thesis by (simp add: stack_plan_def)
qed

lemma stack_plan_take: "i < n \<Longrightarrow> stack_plan exc h (take n fs) i lo = stack_plan exc h fs i lo"
  by (auto simp: stack_plan_def intro!: arg_cong [where f = concat])

text \<open>The section positions the scan of one frame may run a handler of.\<close>

definition run_at ::
    "object_ref option \<Rightarrow> handler_address \<Rightarrow> ('g, 'c, 'r) stack_frame list \<Rightarrow> nat \<Rightarrow> nat \<Rightarrow> 'c handler \<Rightarrow> bool" where
  "run_at exc h fs i si x \<longleftrightarrow> i < length fs \<and> frame_index h \<le> i \<and> si < length (sections_of (fs ! i)) \<and>
     x \<in> set (s_handlers (sections_of (fs ! i) ! si)) \<and> in_range (s_instructions (sections_of (fs ! i) ! si)) (frame_ip (fs ! i))"

lemma nested_own:
  "nested_sections exc ss \<Longrightarrow> s \<in> set ss \<Longrightarrow> own_ranges s \<and> length (filter (expected_to_run exc) (s_handlers s)) \<le> 1"
  by (auto simp: nested_sections_def own_ranges_def)

lemma nested_nonempty:
  "nested_sections exc ss \<Longrightarrow> s \<in> set ss \<Longrightarrow> h \<in> set (s_handlers s) \<Longrightarrow> fst (h_instructions h) < snd (h_instructions h)"
  by (simp add: nested_sections_def)

lemma unwind_frame_scan:
  fixes ctx :: "('g, 'c, 'r) ves"
  assumes "nested_sections exc (sections_of f)" and "section_start cursor i = lo"
    and "\<And>j. lo \<le> j \<Longrightarrow> j < length (sections_of f) \<Longrightarrow> in_range (s_instructions (sections_of f ! j)) (frame_ip f) \<Longrightarrow>
      handler_start cursor i j = 0"
  shows "case frame_plan exc h i lo f of
      [] \<Rightarrow> unwind_sections exc (ToHandler h) cursor (frame_ip f) i lo (drop lo (sections_of f)) ctx =
              (Ok (None, ctx) :: ('e, _) outcome)
    | y # ys \<Rightarrow> \<exists>si hi x. unwind_sections exc (ToHandler h) cursor (frame_ip f) i lo (drop lo (sections_of f)) ctx =
          (Ok (Some (si, hi, x), ctx) :: ('e, _) outcome) \<and> si < length (sections_of f) \<and>
        x \<in> set (s_handlers (sections_of f ! si)) \<and> in_range (s_instructions (sections_of f ! si)) (frame_ip f) \<and>
        y = (i, fst (h_instructions x)) \<and> ys = frame_plan exc h i (Suc si) f"
proof -
  let ?ss = "drop lo (sections_of f)" and ?k = "section_limit h i (sections_of f) - lo"
  note spec = unwind_sections_plan [of ?ss exc "ToHandler h" i lo ?k h "frame_ip f" cursor ctx, where 'e = 'e]
  have plan: "frame_plan exc h i lo f = map (\<lambda>x. (i, fst (h_instructions x))) (sections_plan exc (frame_ip f) (take ?k ?ss))"
    by (simp add: frame_plan_def drop_take)
  have own: "\<forall>s \<in> set ?ss. own_ranges s \<and> length (filter (expected_to_run exc) (s_handlers s)) \<le> 1"
    using nested_own [OF assms(1)] by (meson in_set_dropD)
  have past: "\<forall>j < length ?ss. past_target (ToHandler h) i (lo + j) \<longleftrightarrow> ?k \<le> j"
    by (auto simp: past_target_def section_limit_def)
  have start: "\<forall>j < length ?ss. in_range (s_instructions (?ss ! j)) (frame_ip f) \<longrightarrow> handler_start cursor i (lo + j) = 0"
    using assms(3) by simp
  note spec = spec [OF own past refl start]
  show ?thesis
  proof (cases "sections_plan exc (frame_ip f) (take ?k ?ss)")
    case Nil
    then have "frame_plan exc h i lo f = []" using plan by simp
    then show ?thesis using spec [unfolded Nil list.case] by simp
  next
    case (Cons x xs)
    from spec [unfolded Cons list.case] obtain j hi where j: "unwind_sections exc (ToHandler h) cursor (frame_ip f) i lo ?ss ctx =
        (Ok (Some (lo + j, hi, x), ctx) :: ('e, _) outcome) \<and> j < length ?ss \<and> j < ?k \<and> x \<in> set (s_handlers (?ss ! j)) \<and>
        in_range (s_instructions (?ss ! j)) (frame_ip f) \<and> xs = sections_plan exc (frame_ip f) (drop (Suc j) (take ?k ?ss))"
      by (elim exE)
    have p: "frame_plan exc h i lo f = (i, fst (h_instructions x)) # frame_plan exc h i (Suc (lo + j)) f"
      unfolding plan Cons using j by (simp add: frame_plan_def drop_take add.commute)
    show ?thesis unfolding p list.case
      by (rule exI [of _ "lo + j"], rule exI [of _ hi], rule exI [of _ x]) (use j in auto)
  qed
qed

text \<open>A scan over frames stops at the first handler of the plan, or has popped everything above the target.\<close>

lemma rev_upt_top: "a \<le> i \<Longrightarrow> rev [a ..< Suc i] = i # rev [a ..< i]"
  by simp

abbreviation vframes :: "('g, 'c, 'r) ves \<Rightarrow> ('g, 'c, 'r) stack_frame list" where
  "vframes ctx \<equiv> frames (frame_stack ctx)"

text \<open>What the frames down to the target have to satisfy, for the operands below \<open>b\<close> to survive.\<close>

definition unwindable :: "object_ref option \<Rightarrow> handler_address \<Rightarrow> nat \<Rightarrow> ('g, 'c, 'r) stack_frame list \<Rightarrow> bool" where
  "unwindable exc h b fs \<longleftrightarrow>
     (\<forall>j < length fs. frame_index h \<le> j \<longrightarrow> nested_sections exc (sections_of (fs ! j)) \<and> b \<le> base_stack (base (fs ! j))) \<and>
     (\<forall>j < length fs. frame_index h < j \<longrightarrow>
        \<not> is_cctor (info_handle (state (fs ! j))) \<and> b \<le> base_arguments (base (fs ! j)))"

definition cursor_fits :: "handler_address \<Rightarrow> nat \<Rightarrow> ('g, 'c, 'r) stack_frame \<Rightarrow> bool" where
  "cursor_fits cursor i f \<longleftrightarrow> i \<le> frame_index cursor \<and>
     (\<forall>j < length (sections_of f). in_range (s_instructions (sections_of f ! j)) (frame_ip f) \<longrightarrow> handler_start cursor i j = 0)"

lemma unwindable_take: "unwindable exc h b fs \<Longrightarrow> unwindable exc h b (take n fs)"
  by (simp add: unwindable_def)

lemma cursor_fits_below: "i < frame_index cursor \<Longrightarrow> cursor_fits cursor i f \<and> section_start cursor i = 0"
  by (simp add: cursor_fits_def handler_start_def section_start_def)

lemma popped_trans:
  "popped b j ctx1 ctx2 \<Longrightarrow> popped b i ctx ctx1 \<Longrightarrow> j \<le> i \<Longrightarrow> popped b j ctx ctx2"
  by (simp add: popped_def min_absorb1)

lemma unwind_frames_plan:
  fixes ctx :: "('g, 'c, 'r) ves"
  assumes "storage_inv (frame_stack ctx) (gauges ctx)" and "length (vframes ctx) = Suc i" and "frame_index h \<le> i"
    and "unwindable exc h b (vframes ctx)" and "\<forall>e p. exception_mode ctx \<noteq> Throwing e p"
    and "cursor_fits cursor i (vframes ctx ! i)"
  shows "case stack_plan exc h (vframes ctx) i (section_start cursor i) of
      [] \<Rightarrow> \<exists>ctx'. unwind_frames env exc (ToHandler h) cursor (frame_index h) (rev [frame_index h ..< Suc i]) ctx =
               (Ok (Reached, ctx') :: ('e, _) outcome) \<and> popped b (frame_index h) ctx ctx'
    | y # ys \<Rightarrow> \<exists>ctx' k si hi x. unwind_frames env exc (ToHandler h) cursor (frame_index h) (rev [frame_index h ..< Suc i]) ctx =
               (Ok (RunHandler k si hi x (length (s_handlers (sections_of (vframes ctx ! k) ! si))), ctx') :: ('e, _) outcome) \<and>
             popped b k ctx ctx' \<and> run_at exc h (vframes ctx) k si x \<and> y = (k, fst (h_instructions x)) \<and>
             ys = stack_plan exc h (vframes ctx) k (Suc si)"
    (is "?scan ctx i")
  using assms
proof (induction i arbitrary: ctx rule: less_induct)
  case (less i)
  let ?f = "vframes ctx ! i" and ?lo = "section_start cursor i"
  have f: "frame_at i (frame_stack ctx) = (Ok ?f :: ('e, _) outcome)" using less.prems(2) by (simp add: frame_at_def)
  have nested: "nested_sections exc (sections_of ?f)" using less.prems(2-4) by (simp add: unwindable_def)
  have fits: "handler_start cursor i j = 0"
    if "?lo \<le> j" "j < length (sections_of ?f)" "in_range (s_instructions (sections_of ?f ! j)) (frame_ip ?f)" for j
    using that less.prems(6) by (simp add: cursor_fits_def)
  note scan = unwind_frame_scan [OF nested refl fits, of h ctx, where 'e = 'e]
  note top = rev_upt_top [OF less.prems(3)]
  show ?case
  proof (cases "frame_plan exc h i ?lo ?f")
    case (Cons y ys)
    from scan [unfolded Cons list.case] obtain si hi x where u: "unwind_sections exc (ToHandler h) cursor (frame_ip ?f) i ?lo
          (drop ?lo (sections_of ?f)) ctx = (Ok (Some (si, hi, x), ctx) :: ('e, _) outcome) \<and> si < length (sections_of ?f) \<and>
        x \<in> set (s_handlers (sections_of ?f ! si)) \<and> in_range (s_instructions (sections_of ?f ! si)) (frame_ip ?f) \<and>
        y = (i, fst (h_instructions x)) \<and> ys = frame_plan exc h i (Suc si) ?f"
      by blast
    let ?rest = "concat (map (\<lambda>j. frame_plan exc h j 0 (vframes ctx ! j)) (rev [frame_index h ..< i]))"
    have plan: "stack_plan exc h (vframes ctx) i ?lo = y # (ys @ ?rest)" by (simp add: stack_plan_def Cons)
    have keep: "popped b i ctx ctx" using less.prems(1,2) by (simp add: popped_def)
    have at: "run_at exc h (vframes ctx) i si x" using u less.prems(2,3) by (simp add: run_at_def)
    have rest: "ys @ ?rest = stack_plan exc h (vframes ctx) i (Suc si)" using u by (simp add: stack_plan_def)
    show ?thesis unfolding plan list.case top
      by (rule exI [of _ ctx], rule exI [of _ i], rule exI [of _ si], rule exI [of _ hi], rule exI [of _ x])
        (use u f keep at rest in simp)
  next
    case Nil
    have u: "unwind_sections exc (ToHandler h) cursor (frame_ip ?f) i ?lo (drop ?lo (sections_of ?f)) ctx =
        (Ok (None, ctx) :: ('e, _) outcome)"
      using scan [unfolded Nil list.case] .
    show ?thesis
    proof (cases "frame_index h < i")
      case False
      then have "i = frame_index h" using less.prems(3) by simp
      then have "stack_plan exc h (vframes ctx) i ?lo = []" using Nil by (simp add: stack_plan_def)
      moreover have "popped b (frame_index h) ctx ctx" using less.prems(1,2) \<open>i = frame_index h\<close> by (simp add: popped_def)
      ultimately show ?thesis unfolding top using f u \<open>i = frame_index h\<close> by simp
    next
      case True
      then obtain j where j: "i = Suc j" "frame_index h \<le> j" by (metis less_Suc_eq_le not0_implies_Suc not_less0)
      have fs: "vframes ctx = take (Suc j) (vframes ctx) @ [?f]"
        using less.prems(2) j(1) by (metis lessI take_Suc_conv_app_nth take_all_iff order_refl)
      have "\<not> is_cctor (info_handle (state ?f))" "b \<le> base_arguments (base ?f)"
        using less.prems(2,4) True by (simp_all add: unwindable_def)
      with unwind_frame_ok [OF less.prems(1) fs, of env, where 'e = 'e] obtain ctx1 where
        c: "unwind_frame env ctx = (Ok ctx1 :: ('e, _) outcome)" "vframes ctx1 = take (Suc j) (vframes ctx)" and p: "popped b j ctx ctx1"
        by (auto simp: popped_def min_absorb1)
      have mode: "\<forall>e p. exception_mode ctx1 \<noteq> Throwing e p" using p less.prems(5) by (simp add: popped_def)
      have below: "cursor_fits cursor j (vframes ctx1 ! j)" "section_start cursor j = 0"
        using cursor_fits_below [of j cursor "vframes ctx1 ! j"] less.prems(6) j(1) by (auto simp: cursor_fits_def)
      have "j < i" "length (vframes ctx1) = Suc j" "storage_inv (frame_stack ctx1) (gauges ctx1)"
          "unwindable exc h b (vframes ctx1)"
        using j c(2) p less.prems(2) unwindable_take [OF less.prems(4)] by (simp_all add: popped_def)
      note IH = less.IH [OF this(1,3,2) j(2) this(4) mode below(1), unfolded below(2)]
      have run: "unwind_frames env exc (ToHandler h) cursor (frame_index h) (rev [frame_index h ..< Suc i]) ctx =
          (unwind_frames env exc (ToHandler h) cursor (frame_index h) (rev [frame_index h ..< Suc j]) ctx1 :: ('e, _) outcome)"
        unfolding top using f u True c(1) mode j(1) by (cases "exception_mode ctx1") auto
      have plan: "stack_plan exc h (vframes ctx) i ?lo = stack_plan exc h (vframes ctx1) j 0"
        using stack_plan_step [OF True Nil] j(1) c(2) by (simp add: stack_plan_take)
      show ?thesis
      proof (cases "stack_plan exc h (vframes ctx1) j 0")
        case Nil
        from IH [unfolded Nil list.case] popped_trans [OF _ p j(2)] show ?thesis unfolding run plan Nil list.case by blast
      next
        case (Cons y ys)
        from IH [unfolded Cons list.case] obtain ctx' k si hi x where
          r: "unwind_frames env exc (ToHandler h) cursor (frame_index h) (rev [frame_index h ..< Suc j]) ctx1 =
               (Ok (RunHandler k si hi x (length (s_handlers (sections_of (vframes ctx1 ! k) ! si))), ctx') :: ('e, _) outcome)"
          and k: "popped b k ctx1 ctx'" "run_at exc h (vframes ctx1) k si x" "y = (k, fst (h_instructions x))"
             "ys = stack_plan exc h (vframes ctx1) k (Suc si)"
          by blast
        have kj: "k \<le> j" "vframes ctx1 ! k = vframes ctx ! k" "stack_plan exc h (vframes ctx1) k (Suc si) = stack_plan exc h (vframes ctx) k (Suc si)"
          using k(2) c(2) less.prems(2) j(1) by (simp_all add: run_at_def stack_plan_take)
        have at: "run_at exc h (vframes ctx) k si x" using k(2) kj c(2) less.prems(2) j(1) by (simp add: run_at_def)
        show ?thesis unfolding run plan Cons list.case
          by (rule exI [of _ ctx'], rule exI [of _ k], rule exI [of _ si], rule exI [of _ hi], rule exI [of _ x])
            (use r k(3,4) kj at popped_trans [OF k(1) p kj(1)] in simp)
      qed
    qed
  qed
qed

section \<open>The whole pass\<close>

text \<open>
  A handler body runs to its \<open>endfinally\<close>: it ends inside the handler that was entered, keeps the frames below,
  the operands below the base of its frame and the bookkeeping of frame storage, and leaves the pending unwind.
\<close>

definition body_effect :: "('g, 'c, 'r) ves \<Rightarrow> ('g, 'c, 'r) ves \<Rightarrow> bool" where
  "body_effect c c' \<longleftrightarrow> vframes c \<noteq> [] \<longrightarrow>
     exception_mode c' = exception_mode c \<and>
     (\<exists>n k. vframes c' = butlast (vframes c) @ [set_ip n ((last (vframes c))\<lparr>stack_height := k\<rparr>)] \<and>
        (\<forall>s \<in> set (sections_of (last (vframes c))). \<forall>x \<in> set (s_handlers s).
           fst (h_instructions x) = frame_ip (last (vframes c)) \<and> fst (h_instructions x) < snd (h_instructions x) \<longrightarrow>
             in_range (h_instructions x) n)) \<and>
     (storage_inv (frame_stack c) (gauges c) \<longrightarrow> storage_inv (frame_stack c') (gauges c')) \<and>
     take (base_stack (base (last (vframes c)))) (stack (evaluation_stack c')) =
       take (base_stack (base (last (vframes c)))) (stack (evaluation_stack c))"

text \<open>The handlers entered, as pairs of frame and first instruction, and the state in which the pass ends.\<close>

fun run_handlers ::
    "('g, 'c, 'r) ves_env \<Rightarrow> (('g, 'c, 'r) ves \<Rightarrow> ('g, 'c, 'r) ves) \<Rightarrow> nat \<Rightarrow> ('g, 'c, 'r) vm_step option \<Rightarrow>
     ((nat \<times> nat) list \<times> ('g, 'c, 'r) ves) option" where
  "run_handlers env body 0 r = None"
| "run_handlers env body (Suc n) r =
     (case r of
        Some (Ok (Exception, c)) \<Rightarrow>
          (case exception_mode c of
             ExecutingHandler _ \<Rightarrow>
               map_option (\<lambda>(as, c'). ((length (vframes c) - 1, frame_ip (last (vframes c))) # as, c'))
                 (run_handlers env body n (endfinally_op env (body c)))
           | NoException \<Rightarrow> Some ([], c)
           | _ \<Rightarrow> None)
      | _ \<Rightarrow> None)"

lemma frame_simps [simp]:
  "sections_of (set_ip n f) = sections_of f" "sections_of (f\<lparr>stack_height := k\<rparr>) = sections_of f"
  "frame_ip (set_ip n f) = n" "base (set_ip n f) = base f" "frame_ip (f\<lparr>stack_height := k\<rparr>) = frame_ip f"
  "info_handle (state (set_ip n f)) = info_handle (state f)" "exception_stack (set_ip n f) = exception_stack f"
  "stack_height (set_ip n f) = stack_height f" "allocations (state (set_ip n f)) = allocations (state f)" "homes (set_ip n f) = homes f"
  by (simp_all add: sections_of_def set_ip_def frame_ip_def)

lemma set_ip_again [simp]:
  "set_ip n ((set_ip m f)\<lparr>stack_height := k\<rparr>) = set_ip n (f\<lparr>stack_height := k\<rparr>)"
  by (simp add: set_ip_def)

lemma set_mode_simps [simp]:
  "frame_stack (set_mode m c) = frame_stack c" "gauges (set_mode m c) = gauges c"
  "evaluation_stack (set_mode m c) = evaluation_stack c" "continuation (set_mode m c) = continuation c"
  by (simp_all add: set_mode_def)

lemma sections_plan_same:
  assumes "nested_sections exc ss" and "si < length ss" and "x \<in> set (s_handlers (ss ! si))"
    and "in_range (s_instructions (ss ! si)) n" and "in_range (h_instructions x) m"
  shows "sections_plan exc m (drop (Suc si) (take k ss)) = sections_plan exc n (drop (Suc si) (take k ss))"
    and "\<not> in_range (s_instructions (ss ! si)) m"
proof -
  have "section_plan exc m s = section_plan exc n s" if s: "s \<in> set (drop (Suc si) (take k ss))" for s
  proof -
    obtain i where i: "i < length (drop (Suc si) (take k ss))" "drop (Suc si) (take k ss) ! i = s"
      using s by (auto simp: in_set_conv_nth)
    then have "Suc si \<le> length (take k ss)" by (auto simp: min_def split: if_splits)
    from nth_drop [OF this] i have j: "si < Suc si + i" "Suc si + i < length ss" "s = ss ! (Suc si + i)" by auto
    have "\<forall>h \<in> set (s_handlers (ss ! si)). \<forall>n m. in_range (s_instructions (ss ! si)) n \<and> in_range (h_instructions h) m \<longrightarrow>
        in_range (s_instructions s) n = in_range (s_instructions s) m"
      using assms(1) j unfolding nested_sections_def by blast
    with assms(3-5) have "in_range (s_instructions s) n = in_range (s_instructions s) m" by blast
    then show ?thesis by (simp add: section_plan_def)
  qed
  then show "sections_plan exc m (drop (Suc si) (take k ss)) = sections_plan exc n (drop (Suc si) (take k ss))"
    unfolding sections_plan_def by (simp cong: map_cong)
  show "\<not> in_range (s_instructions (ss ! si)) m"
    using nested_own [OF assms(1) nth_mem [OF assms(2)]] assms(3,5) by (simp add: own_ranges_def)
qed

lemma frame_plan_after:
  assumes "nested_sections exc (sections_of f)" and "si < length (sections_of f)" and "x \<in> set (s_handlers (sections_of f ! si))"
    and "in_range (s_instructions (sections_of f ! si)) (frame_ip f)" and "in_range (h_instructions x) m"
    and "lo = Suc si \<or> lo = si"
  shows "frame_plan exc h i lo (set_ip m (f\<lparr>stack_height := k\<rparr>)) = frame_plan exc h i (Suc si) f"
proof -
  note same = sections_plan_same [OF assms(1-5)]
  let ?l = "section_limit h i (sections_of f)"
  have "sections_plan exc m (drop lo (take ?l (sections_of f))) = sections_plan exc m (drop (Suc si) (take ?l (sections_of f)))"
  proof (cases "lo = Suc si")
    case False
    with assms(6) have lo: "lo = si" by simp
    show ?thesis
    proof (cases "si < ?l")
      case True
      then have "drop si (take ?l (sections_of f)) = sections_of f ! si # drop (Suc si) (take ?l (sections_of f))"
        using assms(2) by (metis Cons_nth_drop_Suc length_take min_less_iff_conj nth_take)
      then show ?thesis using same(2) lo by (simp add: section_plan_def)
    qed (simp add: lo)
  qed simp
  then show ?thesis using same(1) by (simp add: frame_plan_def)
qed

lemma after_handler:
  assumes "unwindable exc h b fs" and "run_at exc h fs k si x" and "in_range (h_instructions x) m"
    and "fs' = take k fs @ [set_ip m ((fs ! k)\<lparr>stack_height := n\<rparr>)]" and "cursor = next_cursor k si hi count"
  shows "unwindable exc h b fs'" and "cursor_fits cursor k (fs' ! k)" and "length fs' = Suc k"
    and "stack_plan exc h fs' k (section_index cursor) = stack_plan exc h fs k (Suc si)"
proof -
  let ?f = "fs ! k" and ?f' = "set_ip m ((fs ! k)\<lparr>stack_height := n\<rparr>)"
  have at: "k < length fs" "frame_index h \<le> k" "si < length (sections_of ?f)" "x \<in> set (s_handlers (sections_of ?f ! si))"
      "in_range (s_instructions (sections_of ?f ! si)) (frame_ip ?f)"
    using assms(2) by (simp_all add: run_at_def)
  have nth: "fs' ! j = (if j = k then ?f' else fs ! j)" if "j \<le> k" for j
    using at(1) assms(4) that by (simp add: nth_append)
  show len: "length fs' = Suc k" using at(1) assms(4) by simp
  have nested: "nested_sections exc (sections_of ?f)" using assms(1) at(1,2) by (simp add: unwindable_def)
  show "unwindable exc h b fs'"
    using assms(1) at(1) unfolding unwindable_def len by (auto simp: nth less_Suc_eq_le)
  have out: "\<not> in_range (s_instructions (sections_of ?f ! si)) m"
    by (rule sections_plan_same(2) [OF nested at(3-5) assms(3)])
  have cursor: "frame_index cursor = k" "section_index cursor = Suc si \<or> section_index cursor = si"
      "section_index cursor \<noteq> si \<Longrightarrow> handler_index cursor = 0"
    by (auto simp: assms(5) next_cursor_def)
  show "cursor_fits cursor k (fs' ! k)"
    using cursor out by (auto simp: cursor_fits_def handler_start_def nth)
  have "frame_plan exc h k (section_index cursor) ?f' = frame_plan exc h k (Suc si) ?f"
    by (rule frame_plan_after [OF nested at(3-5) assms(3) cursor(2)])
  then show "stack_plan exc h fs' k (section_index cursor) = stack_plan exc h fs k (Suc si)"
    by (auto simp: stack_plan_def nth intro!: arg_cong [where f = concat])
qed

text \<open>What the pass keeps of the target frame and of everything below it.\<close>

definition kept :: "nat \<Rightarrow> nat \<Rightarrow> ('g, 'c, 'r) ves \<Rightarrow> ('g, 'c, 'r) ves \<Rightarrow> bool" where
  "kept tf b ctx ctx' \<longleftrightarrow> tf < length (vframes ctx') \<and> take tf (vframes ctx') = take tf (vframes ctx) \<and>
     exception_stack (vframes ctx' ! tf) = exception_stack (vframes ctx ! tf) \<and> base (vframes ctx' ! tf) = base (vframes ctx ! tf) \<and>
     sections_of (vframes ctx' ! tf) = sections_of (vframes ctx ! tf) \<and>
     take b (stack (evaluation_stack ctx')) = take b (stack (evaluation_stack ctx))"

lemma kept_trans: "kept tf b ctx ctx1 \<Longrightarrow> kept tf b ctx1 ctx2 \<Longrightarrow> kept tf b ctx ctx2"
  by (simp add: kept_def)

lemma popped_kept: "popped b k ctx ctx' \<Longrightarrow> tf \<le> k \<Longrightarrow> k < length (vframes ctx) \<Longrightarrow> kept tf b ctx ctx'"
  by (simp add: popped_def kept_def min_absorb1)

definition unwind_ready :: "object_ref \<Rightarrow> handler_address \<Rightarrow> nat \<Rightarrow> ('g, 'c, 'r) ves \<Rightarrow> unwind_state \<Rightarrow> bool" where
  "unwind_ready e h b ctx u \<longleftrightarrow> exception_mode ctx = Unwinding u \<and> unwind_exception u = Some e \<and> unwind_to u = ToHandler h \<and>
     length (vframes ctx) = Suc (frame_index (unwind_cursor u)) \<and> frame_index h \<le> frame_index (unwind_cursor u) \<and>
     storage_inv (frame_stack ctx) (gauges ctx) \<and> unwindable (Some e) h b (vframes ctx) \<and>
     cursor_fits (unwind_cursor u) (frame_index (unwind_cursor u)) (vframes ctx ! frame_index (unwind_cursor u))"

definition plan_of :: "object_ref \<Rightarrow> handler_address \<Rightarrow> ('g, 'c, 'r) ves \<Rightarrow> unwind_state \<Rightarrow> (nat \<times> nat) list" where
  "plan_of e h ctx u =
     stack_plan (Some e) h (vframes ctx) (frame_index (unwind_cursor u)) (section_index (unwind_cursor u))"

text \<open>The state in which the catch handler starts.\<close>

definition caught :: "object_ref \<Rightarrow> handler_address \<Rightarrow> ('g, 'c, 'r) ves \<Rightarrow> ('g, 'c, 'r) ves \<Rightarrow> bool" where
  "caught e h ctx ctx' \<longleftrightarrow>
     (let f = vframes ctx ! frame_index h in
      exception_mode ctx' = NoException \<and>
      (\<exists>f'. vframes ctx' = take (frame_index h) (vframes ctx) @ [f'] \<and>
         frame_ip f' = fst (h_instructions (handler_at (frame_stack ctx) h)) \<and> stack_height f' = 1 \<and>
         exception_stack f' = exception_stack f @ [e]) \<and>
      stack (evaluation_stack ctx') = take (base_stack (base f)) (stack (evaluation_stack ctx)) @ [Stack_Value.ObjectRef e])"

lemma frame_update_simps [simp]:
  "frame_ip (f\<lparr>exception_stack := es\<rparr>) = frame_ip f" "sections_of (f\<lparr>exception_stack := es\<rparr>) = sections_of f"
  "stack_height (set_ip n f) = stack_height f"
  by (simp_all add: frame_ip_def sections_of_def)

lemma update_frame_snoc:
  "vframes c = xs @ [f] \<Longrightarrow> length xs = i \<Longrightarrow>
     update_frame i g c = (Ok (c\<lparr>frame_stack := (frame_stack c)\<lparr>frames := xs @ [g f]\<rparr>\<rparr>) :: ('e, _) outcome)"
  by (auto simp: update_frame_def frame_at_def set_frame_def)

lemma ves_push_snoc:
  "vframes c = xs @ [f] \<Longrightarrow> stack_height f < usize_max \<Longrightarrow>
     ves_push v c = (Ok (c\<lparr>evaluation_stack := es_push v (evaluation_stack c),
       frame_stack := (frame_stack c)\<lparr>frames := xs @ [f\<lparr>stack_height := Suc (stack_height f)\<rparr>]\<rparr>\<rparr>) :: ('e, _) outcome)"
  by (auto simp: ves_push_def on_push_def uadd_def usize_of_def map_current_def current_frame_def set_frame_def)

lemma enter_catch_ok:
  assumes "kept (frame_index h) (base_stack (base (vframes ctx ! frame_index h))) ctx c"
    and "length (vframes c) = Suc (frame_index h)"
    and "section_index h < length (sections_of (vframes ctx ! frame_index h))"
    and "handler_index h < length (s_handlers (sections_of (vframes ctx ! frame_index h) ! section_index h))"
  shows "\<exists>ctx'. enter_catch (Some e) h (set_mode NoException c) = Ok (Finished Exception ctx') \<and> caught e h ctx ctx'"
proof -
  obtain xs f where c: "vframes c = xs @ [f]" "length xs = frame_index h"
    using assms(2) by (metis length_Suc_conv_rev)
  with assms(1) have k: "xs = take (frame_index h) (vframes ctx)" "exception_stack f = exception_stack (vframes ctx ! frame_index h)"
      "base f = base (vframes ctx ! frame_index h)" "sections_of f = sections_of (vframes ctx ! frame_index h)"
      "take (base_stack (base f)) (stack (evaluation_stack c)) = take (base_stack (base f)) (stack (evaluation_stack ctx))"
    by (auto simp: kept_def nth_append)
  let ?start = "fst (h_instructions (s_handlers (sections_of f ! section_index h) ! handler_index h))"
  let ?c1 = "(set_mode NoException c)\<lparr>evaluation_stack := es_truncate (base_stack (base f)) (evaluation_stack (set_mode NoException c))\<rparr>"
  let ?g = "\<lambda>f. set_ip ?start (f\<lparr>stack_height := 0, exception_stack := exception_stack f @ [e]\<rparr>)"
  have f: "frame_at (frame_index h) (frame_stack (set_mode NoException c)) = (Ok f :: (vm_error, _) outcome)"
    using c by (simp add: frame_at_def set_mode_def nth_append)
  have c1: "vframes ?c1 = xs @ [f]" using c(1) by (simp add: set_mode_def)
  note u = update_frame_snoc [OF c1 c(2), of ?g, where 'e = vm_error]
  have p: "ves_push (Stack_Value.ObjectRef e) (?c1\<lparr>frame_stack := (frame_stack ?c1)\<lparr>frames := xs @ [?g f]\<rparr>\<rparr>) =
      (Ok (?c1\<lparr>evaluation_stack := es_push (Stack_Value.ObjectRef e) (evaluation_stack ?c1),
         frame_stack := (frame_stack ?c1)\<lparr>frames := xs @ [(?g f)\<lparr>stack_height := 1\<rparr>]\<rparr>\<rparr>) :: (vm_error, _) outcome)"
    using ves_push_snoc [of "?c1\<lparr>frame_stack := (frame_stack ?c1)\<lparr>frames := xs @ [?g f]\<rparr>\<rparr>" xs "?g f", where 'e = vm_error]
    by (simp add: usize_max_def)
  have "enter_catch (Some e) h (set_mode NoException c) =
      Ok (Finished Exception (?c1\<lparr>evaluation_stack := es_push (Stack_Value.ObjectRef e) (evaluation_stack ?c1),
         frame_stack := (frame_stack ?c1)\<lparr>frames := xs @ [(?g f)\<lparr>stack_height := 1\<rparr>]\<rparr>\<rparr>))"
    using f u p assms(3,4) k(4) by (simp add: enter_catch_def)
  then show ?thesis using k by (simp add: caught_def Let_def handler_at_def es_push_def es_truncate_def set_mode_def)
qed

lemma unwind_catch:
  assumes "unwind_ready e h b ctx u" and "plan_of e h ctx u = []"
    and "b = base_stack (base (vframes ctx ! frame_index h))"
    and "section_index h < length (sections_of (vframes ctx ! frame_index h))"
    and "handler_index h < length (s_handlers (sections_of (vframes ctx ! frame_index h) ! section_index h))"
  shows "\<exists>ctx'. handle_exception env ctx = Some (Ok (Exception, ctx')) \<and> caught e h ctx ctx'"
proof -
  let ?i = "frame_index (unwind_cursor u)"
  have r: "exception_mode ctx = Unwinding u" "unwind_exception u = Some e" "unwind_to u = ToHandler h"
      "length (vframes ctx) = Suc ?i" "frame_index h \<le> ?i" "storage_inv (frame_stack ctx) (gauges ctx)"
      "unwindable (Some e) h b (vframes ctx)" "cursor_fits (unwind_cursor u) ?i (vframes ctx ! ?i)"
    using assms(1) by (simp_all add: unwind_ready_def)
  have "\<forall>e p. exception_mode ctx \<noteq> Throwing e p" using r(1) by simp
  note scan = unwind_frames_plan [OF r(6,4,5,7) this r(8), of env, where 'e = vm_error]
  have "stack_plan (Some e) h (vframes ctx) ?i (section_start (unwind_cursor u) ?i) = []"
    using assms(2) by (simp add: plan_of_def section_start_def)
  from scan [unfolded this list.case] obtain c where
    c: "unwind_frames env (Some e) (ToHandler h) (unwind_cursor u) (frame_index h) (rev [frame_index h ..< Suc ?i]) ctx =
         (Ok (Reached, c) :: (vm_error, _) outcome)"
       "popped b (frame_index h) ctx c"
    by blast
  have k: "kept (frame_index h) (base_stack (base (vframes ctx ! frame_index h))) ctx c"
    using popped_kept [OF c(2)] r(4,5) assms(3) by simp
  have len: "length (vframes c) = Suc (frame_index h)" using c(2) r(4,5) by (simp add: popped_def)
  obtain ctx' where e: "enter_catch (Some e) h (set_mode NoException c) = Ok (Finished Exception ctx')" "caught e h ctx ctx'"
    using enter_catch_ok [OF k len assms(4,5)] by blast
  have "target_frame_of u = frame_index h" using r(3) by (simp add: target_frame_of_def)
  then have "unwind env u ctx = Ok (Finished Exception ctx')"
    using c(1) e(1) r(2,3) by (simp add: unwind_def finish_unwind_def del: upt_Suc)
  then have "handle_exception env ctx = Some (Ok (Exception, ctx'))"
    using r(1) by (subst handle_exception.simps) (simp add: handle_once_def)
  with e(2) show ?thesis by blast
qed

text \<open>After the body of a handler the pass is where the plan goes on.\<close>

lemma body_frames:
  assumes "body_effect c c'" and "vframes c = xs @ [f]" and "s \<in> set (sections_of f)" and "x \<in> set (s_handlers s)"
    and "fst (h_instructions x) = frame_ip f" and "fst (h_instructions x) < snd (h_instructions x)"
  shows "\<exists>n k. vframes c' = xs @ [set_ip n (f\<lparr>stack_height := k\<rparr>)] \<and> in_range (h_instructions x) n"
proof -
  from assms(1,2) obtain n k where "vframes c' = xs @ [set_ip n (f\<lparr>stack_height := k\<rparr>)]"
    and "\<forall>s \<in> set (sections_of f). \<forall>x \<in> set (s_handlers s). fst (h_instructions x) = frame_ip f \<and>
      fst (h_instructions x) < snd (h_instructions x) \<longrightarrow> in_range (h_instructions x) n"
    by (auto simp: body_effect_def)
  with assms(3-6) show ?thesis by blast
qed

lemma resume_ready:
  assumes "unwind_ready e h b ctx u" and "popped b k ctx c0" and "run_at (Some e) h (vframes ctx) k si x"
    and "vframes c = take k (vframes ctx) @ [set_ip (fst (h_instructions x)) ((vframes ctx ! k)\<lparr>stack_height := 0\<rparr>)]"
    and "storage_inv (frame_stack c) (gauges c)" and "stack (evaluation_stack c) = stack (evaluation_stack c0)"
    and "u' = u\<lparr>unwind_cursor := next_cursor k si hi count\<rparr>" and "exception_mode c = ExecutingHandler u'"
    and "body_effect c c'"
  shows "unwind_ready e h b (set_mode (Unwinding u') c') u'"
    and "plan_of e h (set_mode (Unwinding u') c') u' = stack_plan (Some e) h (vframes ctx) k (Suc si)"
    and "kept (frame_index h) b ctx c'" and "exception_mode c' = ExecutingHandler u'"
proof -
  let ?f = "vframes ctx ! k"
  have r: "unwind_exception u = Some e" "unwind_to u = ToHandler h" "unwindable (Some e) h b (vframes ctx)"
    using assms(1) by (simp_all add: unwind_ready_def)
  have at: "k < length (vframes ctx)" "frame_index h \<le> k" "sections_of ?f ! si \<in> set (sections_of ?f)"
      "x \<in> set (s_handlers (sections_of ?f ! si))"
    using assms(3) by (simp_all add: run_at_def)
  have nested: "nested_sections (Some e) (sections_of ?f)" and b: "b \<le> base_stack (base ?f)"
    using r(3) at(1,2) by (simp_all add: unwindable_def)
  have s: "sections_of ?f ! si \<in> set (sections_of (set_ip (fst (h_instructions x)) (?f\<lparr>stack_height := 0\<rparr>)))"
    and ip: "fst (h_instructions x) = frame_ip (set_ip (fst (h_instructions x)) (?f\<lparr>stack_height := 0\<rparr>))"
    using at(3) by simp_all
  from body_frames [OF assms(9,4) s at(4) ip nested_nonempty [OF nested at(3,4)]] obtain m n where m: "vframes c' = take k (vframes ctx) @ [set_ip m (?f\<lparr>stack_height := n\<rparr>)]" "in_range (h_instructions x) m"
    by auto
  note after = after_handler [OF r(3) assms(3) m(2,1), of "next_cursor k si hi count" hi count, OF refl]
  have eff: "exception_mode c' = exception_mode c" "storage_inv (frame_stack c') (gauges c')"
      "take (base_stack (base ?f)) (stack (evaluation_stack c')) = take (base_stack (base ?f)) (stack (evaluation_stack c))"
    using assms(4,5,9) by (simp_all add: body_effect_def)
  show "exception_mode c' = ExecutingHandler u'" using eff(1) assms(8) by simp
  have cur: "frame_index (next_cursor k si hi count) = k" by (simp add: next_cursor_def)
  show "unwind_ready e h b (set_mode (Unwinding u') c') u'"
    using r after(1-3) eff(2) at(2) cur by (simp add: unwind_ready_def assms(7) set_mode_def)
  show "plan_of e h (set_mode (Unwinding u') c') u' = stack_plan (Some e) h (vframes ctx) k (Suc si)"
    using after(4) cur by (simp add: plan_of_def assms(7) set_mode_def)
  have "take b (stack (evaluation_stack c')) = take b (stack (evaluation_stack ctx))"
    using arg_cong [OF eff(3), of "take b"] b assms(2,6) by (simp add: popped_def min_absorb1)
  then show "kept (frame_index h) b ctx c'"
    using m(1) at(1,2) by (simp add: kept_def nth_append min_absorb1)
qed

lemma unwind_handler:
  assumes "unwind_ready e h b ctx u" and "plan_of e h ctx u = y # ys"
  shows "\<exists>c u'. handle_exception env ctx = Some (Ok (Exception, c)) \<and> exception_mode c = ExecutingHandler u' \<and>
    y = (length (vframes c) - 1, frame_ip (last (vframes c))) \<and>
    (\<forall>c'. body_effect c c' \<longrightarrow> unwind_ready e h b (set_mode (Unwinding u') c') u' \<and>
       plan_of e h (set_mode (Unwinding u') c') u' = ys \<and> kept (frame_index h) b ctx c' \<and>
       exception_mode c' = ExecutingHandler u')"
proof -
  let ?i = "frame_index (unwind_cursor u)"
  have r: "exception_mode ctx = Unwinding u" "unwind_exception u = Some e" "unwind_to u = ToHandler h"
      "length (vframes ctx) = Suc ?i" "frame_index h \<le> ?i" "storage_inv (frame_stack ctx) (gauges ctx)"
      "unwindable (Some e) h b (vframes ctx)" "cursor_fits (unwind_cursor u) ?i (vframes ctx ! ?i)"
    using assms(1) by (simp_all add: unwind_ready_def)
  have "\<forall>e p. exception_mode ctx \<noteq> Throwing e p" using r(1) by simp
  note scan = unwind_frames_plan [OF r(6,4,5,7) this r(8), of env, where 'e = vm_error]
  have "stack_plan (Some e) h (vframes ctx) ?i (section_start (unwind_cursor u) ?i) = y # ys"
    using assms(2) by (simp add: plan_of_def section_start_def)
  from scan [unfolded this list.case] obtain c0 k si hi x where
    c: "unwind_frames env (Some e) (ToHandler h) (unwind_cursor u) (frame_index h) (rev [frame_index h ..< Suc ?i]) ctx =
         (Ok (RunHandler k si hi x (length (s_handlers (sections_of (vframes ctx ! k) ! si))), c0) :: (vm_error, _) outcome)"
    and p: "popped b k ctx c0" and at: "run_at (Some e) h (vframes ctx) k si x" and y: "y = (k, fst (h_instructions x))"
    and ys: "ys = stack_plan (Some e) h (vframes ctx) k (Suc si)"
    by blast
  let ?f = "vframes ctx ! k" and ?cur = "next_cursor k si hi (length (s_handlers (sections_of (vframes ctx ! k) ! si)))"
  let ?u = "u\<lparr>unwind_cursor := ?cur\<rparr>" and ?f' = "set_ip (fst (h_instructions x)) ((vframes ctx ! k)\<lparr>stack_height := 0\<rparr>)"
  let ?c = "(set_mode (ExecutingHandler ?u) c0)\<lparr>frame_stack := (frame_stack c0)\<lparr>frames := take k (vframes ctx) @ [?f']\<rparr>\<rparr>"
  have k: "k < length (vframes ctx)" "frame_index h \<le> k" using at by (simp_all add: run_at_def)
  have c0: "vframes (set_mode (ExecutingHandler ?u) c0) = take k (vframes ctx) @ [?f]" "frame_stack (set_mode (ExecutingHandler ?u) c0) = frame_stack c0"
    using p k(1) by (simp_all add: popped_def set_mode_def take_Suc_conv_app_nth)
  have "update_frame k (\<lambda>f. set_ip (fst (h_instructions x)) (f\<lparr>stack_height := 0\<rparr>)) (set_mode (ExecutingHandler ?u) c0) =
      (Ok ?c :: (vm_error, _) outcome)"
    using k(1) by (subst update_frame_snoc [OF c0(1)]) (simp_all add: c0(2))
  moreover have "target_frame_of u = frame_index h" using r(3) by (simp add: target_frame_of_def)
  ultimately have "unwind env u ctx = Ok (Finished Exception ?c)"
    using c r(2,3) by (simp add: unwind_def del: upt_Suc)
  then have run: "handle_exception env ctx = Some (Ok (Exception, ?c))"
    using r(1) by (subst handle_exception.simps) (simp add: handle_once_def)
  have "frame_stack ?c = set_frame k ?f' (frame_stack c0)"
    using c0 k(1) by (simp add: set_frame_def list_update_append set_mode_def)
  then have inv: "storage_inv (frame_stack ?c) (gauges ?c)"
    using p k(1) by (simp add: popped_def inv_update(1))
  have frames: "vframes ?c = take k (vframes ctx) @ [?f']" and same: "stack (evaluation_stack ?c) = stack (evaluation_stack c0)"
      and mode: "exception_mode ?c = ExecutingHandler ?u"
    by simp_all
  note resume = resume_ready [OF assms(1) p at frames inv same refl mode]
  have "\<forall>c'. body_effect ?c c' \<longrightarrow> unwind_ready e h b (set_mode (Unwinding ?u) c') ?u \<and>
       plan_of e h (set_mode (Unwinding ?u) c') ?u = ys \<and> kept (frame_index h) b ctx c' \<and>
       exception_mode c' = ExecutingHandler ?u"
    unfolding ys by (intro allI impI conjI) (erule resume)+
  moreover have "y = (length (vframes ?c) - 1, frame_ip (last (vframes ?c)))" using k(1) y by simp
  ultimately show ?thesis using run mode by blast
qed

lemma caught_kept:
  "kept (frame_index h) b ctx c \<Longrightarrow> b = base_stack (base (vframes ctx ! frame_index h)) \<Longrightarrow> caught e h (set_mode m c) ctx' \<Longrightarrow>
     caught e h ctx ctx'"
  by (simp add: caught_def kept_def handler_at_def Let_def)

lemma run_plan:
  assumes "\<forall>c. body_effect c (body c)" and "unwind_ready e h b ctx u" and "plan_of e h ctx u = plan"
    and "b = base_stack (base (vframes ctx ! frame_index h))"
    and "section_index h < length (sections_of (vframes ctx ! frame_index h))"
    and "handler_index h < length (s_handlers (sections_of (vframes ctx ! frame_index h) ! section_index h))"
  shows "\<exists>ctx'. run_handlers env body (Suc (length plan)) (handle_exception env ctx) = Some (plan, ctx') \<and> caught e h ctx ctx'"
  using assms(2-)
proof (induction plan arbitrary: ctx u)
  case Nil
  obtain ctx' where "handle_exception env ctx = Some (Ok (Exception, ctx'))" "caught e h ctx ctx'"
    using unwind_catch [OF Nil] by blast
  then show ?case by (simp add: caught_def Let_def)
next
  case (Cons y ys)
  obtain c u' where c: "handle_exception env ctx = Some (Ok (Exception, c))" "exception_mode c = ExecutingHandler u'"
      "y = (length (vframes c) - 1, frame_ip (last (vframes c)))"
    and after: "\<forall>c'. body_effect c c' \<longrightarrow> unwind_ready e h b (set_mode (Unwinding u') c') u' \<and>
      plan_of e h (set_mode (Unwinding u') c') u' = ys \<and> kept (frame_index h) b ctx c' \<and> exception_mode c' = ExecutingHandler u'"
    using unwind_handler [OF Cons.prems(1,2)] by blast
  let ?c = "set_mode (Unwinding u') (body c)"
  have r: "unwind_ready e h b ?c u'" "plan_of e h ?c u' = ys" and k: "kept (frame_index h) b ctx (body c)"
      and m: "exception_mode (body c) = ExecutingHandler u'"
    using after assms(1) by blast+
  have t: "base (vframes ?c ! frame_index h) = base (vframes ctx ! frame_index h)"
      "sections_of (vframes ?c ! frame_index h) = sections_of (vframes ctx ! frame_index h)"
    using k by (simp_all add: kept_def)
  obtain ctx' where i: "run_handlers env body (Suc (length ys)) (handle_exception env ?c) = Some (ys, ctx')" "caught e h ?c ctx'"
    using Cons.IH [OF r] Cons.prems(3-5) unfolding t by blast
  have "endfinally_op env (body c) = handle_exception env ?c" using m by (simp add: endfinally_op_def)
  then have "run_handlers env body (Suc (length (y # ys))) (handle_exception env ctx) = Some (y # ys, ctx')"
    using i(1) c by simp
  with caught_kept [OF k Cons.prems(3) i(2)] show ?case by blast
qed

text \<open>
  C4: An exception runs every finally and fault handler on its way, once and in order. Once the search has decided
  for a catch handler, the unwind pass enters exactly the finally and fault handlers of the try blocks that are left:
  frame by frame from the top, in each frame from the inner to the outer blocks, and in the frame of the catch only
  those inside its block. Whatever the handlers do up to their \<open>endfinally\<close> (while they keep to their own frame),
  the pass then always gets to the catch: all frames above are gone, the operands of its frame are dropped, and the
  exception is the only operand. It needs properly nested blocks and no type initializer among the frames left.
\<close>
theorem unwind_runs_finally_once:
  fixes ctx :: "('g, 'c, 'r) ves"
  defines "n \<equiv> length (vframes ctx) - 1"
  assumes "exception_mode ctx = Unwinding \<lparr>unwind_exception = Some e, unwind_to = ToHandler h,
      unwind_cursor = address n 0 0, unwind_nested = None\<rparr>"
    and "guards (frame_stack ctx) h" and "storage_inv (frame_stack ctx) (gauges ctx)"
    and "unwindable (Some e) h (base_stack (base (vframes ctx ! frame_index h))) (vframes ctx)"
    and "\<forall>c. body_effect c (body c)"
  shows "\<exists>ctx'. run_handlers env body (Suc (length (stack_plan (Some e) h (vframes ctx) n 0))) (handle_exception env ctx) =
      Some (stack_plan (Some e) h (vframes ctx) n 0, ctx') \<and> caught e h ctx ctx'"
proof -
  let ?u = "\<lparr>unwind_exception = Some e, unwind_to = ToHandler h, unwind_cursor = address n 0 0, unwind_nested = None\<rparr>"
  have g: "frame_index h < length (vframes ctx)" "section_index h < length (sections_of (vframes ctx ! frame_index h))"
      "handler_index h < length (s_handlers (sections_of (vframes ctx ! frame_index h) ! section_index h))"
    using assms(3) by (simp_all add: guards_def Let_def)
  then have "unwind_ready e h (base_stack (base (vframes ctx ! frame_index h))) ctx ?u"
    using assms(2,4,5) by (auto simp: unwind_ready_def n_def cursor_fits_def handler_start_def)
  moreover have "plan_of e h ctx ?u = stack_plan (Some e) h (vframes ctx) n 0" by (simp add: plan_of_def)
  ultimately show ?thesis using run_plan [OF assms(6) _ _ refl g(2,3)] by blast
qed

lemma body_effect_refl: "body_effect c c"
proof -
  have "set_ip (frame_ip f) (f\<lparr>stack_height := stack_height f\<rparr>) = f" for f :: "('a, 'b, 'c) stack_frame"
    by (simp add: set_ip_def frame_ip_def)
  then have "\<exists>n k. vframes c = butlast (vframes c) @ [set_ip n ((last (vframes c))\<lparr>stack_height := k\<rparr>)] \<and> n = frame_ip (last (vframes c))"
    if "vframes c \<noteq> []" using that by (metis append_butlast_last_id)
  then show ?thesis by (force simp: body_effect_def in_range_def)
qed

definition sample_outer :: "(unit, nat, unit) stack_frame" where
  "sample_outer = sample_frame (sample_method [sample_section 2 4 [(4, 6, Finally)], sample_section 1 8 [(8, 10, Catch 1)]]
     ReturnsNothing 0) 0 3 1"

definition sample_inner :: "(unit, nat, unit) stack_frame" where
  "sample_inner = sample_frame (sample_method [sample_section 0 4 [(4, 6, Fault)], sample_section 0 8 [(8, 10, Finally)]]
     ReturnsNothing 0) 1 2 0"

definition sample_unwinding :: "(unit, nat, unit) ves" where
  "sample_unwinding = sample_ves [sample_outer, sample_inner] [Stack_Value.Int32 7]
     (Unwinding \<lparr>unwind_exception = Some (Some 32), unwind_to = ToHandler (address 0 1 0), unwind_cursor = address 1 0 0,
        unwind_nested = None\<rparr>)"

lemma sample_nested: "nested_sections exc (sections_of sample_outer)" "nested_sections exc (sections_of sample_inner)"
  by (auto simp: nested_sections_def sample_outer_def sample_inner_def sample_simps less_Suc_eq)

theorem unwind_runs_finally_once_witness:
  "\<exists>ctx'. run_handlers sample_env id 4 (handle_exception sample_env sample_unwinding) = Some ([(1, 4), (1, 8), (0, 4)], ctx') \<and>
     caught (Some 32) (address 0 1 0) sample_unwinding ctx'"
proof -
  let ?h = "address 0 1 0"
  have fs: "vframes sample_unwinding = [sample_outer, sample_inner]" by (simp add: sample_unwinding_def sample_ves_def)
  have mode: "exception_mode sample_unwinding = Unwinding \<lparr>unwind_exception = Some (Some 32), unwind_to = ToHandler ?h,
      unwind_cursor = address (length (vframes sample_unwinding) - 1) 0 0, unwind_nested = None\<rparr>"
    unfolding fs by (simp add: sample_unwinding_def sample_ves_def)
  have guards: "guards (frame_stack sample_unwinding) ?h"
    by (simp add: guards_def fs sample_outer_def sample_simps)
  have inv: "storage_inv (frame_stack sample_unwinding) (gauges sample_unwinding)"
    by (simp add: storage_inv_def frames_owned_def sample_unwinding_def sample_outer_def sample_inner_def sample_simps
        used_of_def block_count_def serials_of_def frame_budget_default_def)
  have unw: "unwindable (Some (Some 32)) ?h (base_stack (base (vframes sample_unwinding ! frame_index ?h))) (vframes sample_unwinding)"
    using sample_nested by (simp add: unwindable_def fs less_Suc_eq) (simp add: sample_outer_def sample_inner_def sample_simps)
  have plan: "stack_plan (Some (Some 32)) ?h (vframes sample_unwinding) (length (vframes sample_unwinding) - 1) 0 = [(1, 4), (1, 8), (0, 4)]"
    unfolding fs by (simp add: stack_plan_def frame_plan_def section_limit_def section_plan_def expected_to_run_def sample_outer_def
        sample_inner_def sample_simps)
  show ?thesis
    using unwind_runs_finally_once [OF mode guards inv unw, of id sample_env] unfolding plan
    by (simp add: body_effect_refl numeral_eq_Suc del: run_handlers.simps)
qed

end
