(* ===== verification/Leave_Filter.thy ===== *)
theory Leave_Filter
  imports Unwind_Pass
begin

text \<open>
  The instructions that leave a block: what \<open>leave\<close> does to the operands and to an unwind that is waiting for the
  handler it is executed in, and that a filter which rejects the exception leaves no trace.
\<close>

section \<open>Leaving blocks without handlers to run\<close>

definition exits_quietly :: "('g, 'c, 'r) stack_frame \<Rightarrow> nat \<Rightarrow> bool" where
  "exits_quietly f t \<longleftrightarrow> (\<forall>s \<in> set (sections_of f). is_exiting_section s (frame_ip f) (ToInstruction t) \<longrightarrow>
     (\<forall>h \<in> set (s_handlers s). \<not> should_run None h))"

text \<open>Leaving a catch ends its exception; everything else of the state stays.\<close>

definition drops_exceptions :: "nat \<Rightarrow> ('g, 'c, 'r) ves \<Rightarrow> ('g, 'c, 'r) ves \<Rightarrow> bool" where
  "drops_exceptions fi ctx ctx' \<longleftrightarrow>
     (\<exists>es. ctx' = ctx\<lparr>frame_stack := (frame_stack ctx)\<lparr>frames := (vframes ctx)[fi := (vframes ctx ! fi)\<lparr>exception_stack := es\<rparr>]\<rparr>\<rparr>)"

lemma drops_exceptions_refl: "drops_exceptions fi ctx ctx"
proof -
  have "ctx = ctx\<lparr>frame_stack := (frame_stack ctx)\<lparr>frames := (vframes ctx)[fi := (vframes ctx ! fi)
      \<lparr>exception_stack := exception_stack (vframes ctx ! fi)\<rparr>]\<rparr>\<rparr>"
    by simp
  then show ?thesis unfolding drops_exceptions_def by blast
qed

lemma drops_exceptions_step:
  assumes "drops_exceptions fi ctx ctx'" and "fi < length (vframes ctx)"
  shows "\<exists>ctx''. update_frame fi (\<lambda>f. f\<lparr>exception_stack := g (exception_stack f)\<rparr>) ctx' = (Ok ctx'' :: ('e, _) outcome) \<and>
    drops_exceptions fi ctx ctx''"
proof -
  obtain es where c: "ctx' = ctx\<lparr>frame_stack := (frame_stack ctx)\<lparr>frames := (vframes ctx)[fi := (vframes ctx ! fi)\<lparr>exception_stack := es\<rparr>]\<rparr>\<rparr>"
    using assms(1) by (auto simp: drops_exceptions_def)
  have "update_frame fi (\<lambda>f. f\<lparr>exception_stack := g (exception_stack f)\<rparr>) ctx' =
      (Ok (ctx\<lparr>frame_stack := (frame_stack ctx)\<lparr>frames := (vframes ctx)[fi := (vframes ctx ! fi)\<lparr>exception_stack := g es\<rparr>]\<rparr>\<rparr>) :: ('e, _) outcome)"
    using assms(2) by (simp add: c update_frame_def frame_at_def set_frame_def)
  then show ?thesis unfolding drops_exceptions_def by blast
qed

lemma unwind_handlers_quiet:
  assumes "\<forall>h \<in> set hs. \<not> should_run exc h" and "drops_exceptions fi ctx ctx'" and "fi < length (vframes ctx)"
  shows "\<exists>ctx''. unwind_handlers exc n fi hi hs ctx' = (Ok (None, ctx'') :: ('e, _) outcome) \<and> drops_exceptions fi ctx ctx''"
  using assms(1,2)
proof (induction hs arbitrary: hi ctx')
  case (Cons h hs)
  obtain c where c: "update_frame fi (\<lambda>f. f\<lparr>exception_stack := butlast (exception_stack f)\<rparr>) ctx' = (Ok c :: ('e, _) outcome)"
      "drops_exceptions fi ctx c"
    using drops_exceptions_step [OF Cons.prems(2) assms(3), where 'e = 'e] by blast
  show ?case
    using Cons.IH [of c "Suc hi"] Cons.IH [of ctx' "Suc hi"] Cons.prems c by (cases "h_kind h") auto
qed simp

lemma unwind_sections_quiet:
  assumes "\<forall>s \<in> set ss. is_exiting_section s n (ToInstruction t) \<longrightarrow> (\<forall>h \<in> set (s_handlers s). \<not> should_run exc h)"
    and "drops_exceptions fi ctx ctx'" and "fi < length (vframes ctx)"
  shows "\<exists>ctx''. unwind_sections exc (ToInstruction t) cursor n fi si ss ctx' = (Ok (None, ctx'') :: ('e, _) outcome) \<and>
    drops_exceptions fi ctx ctx''"
  using assms(1,2)
proof (induction ss arbitrary: si ctx')
  case (Cons s ss)
  show ?case
  proof (cases "is_exiting_section s n (ToInstruction t)")
    case True
    let ?hs = "drop (handler_start cursor fi si) (s_handlers s)"
    have "\<forall>h \<in> set ?hs. \<not> should_run exc h" using Cons.prems(1) True by (auto dest: in_set_dropD)
    from unwind_handlers_quiet [OF this Cons.prems(2) assms(3), where 'e = 'e] obtain c where
      "unwind_handlers exc n fi (handler_start cursor fi si) ?hs ctx' = (Ok (None, c) :: ('e, _) outcome)" "drops_exceptions fi ctx c"
      by blast
    then show ?thesis using Cons.IH [of c "Suc si"] Cons.prems(1) True by (simp add: past_target_def)
  next
    case False
    then show ?thesis using Cons.IH [OF _ Cons.prems(2)] Cons.prems(1) by (simp add: past_target_def)
  qed
qed simp

text \<open>A leave that runs no handler: the jump, with an operand count of zero and all operands still there.\<close>

lemma leave_quiet:
  assumes "vframes ctx = xs @ [f]" and "exits_quietly f t" and "t \<noteq> usize_max" and "continuation ctx = NoContinuation"
    and "\<And>s. exception_mode ctx = ExecutingHandler s \<Longrightarrow> length xs \<le> frame_index (unwind_cursor s)"
  shows "\<exists>es. leave_op env t ctx = Some (Ok (Exception, (set_mode NoException ctx)\<lparr>frame_stack :=
    (frame_stack ctx)\<lparr>frames := xs @ [set_ip t (f\<lparr>stack_height := 0, exception_stack := es\<rparr>)]\<rparr>\<rparr>))"
proof -
  let ?u = "\<lparr>unwind_exception = None, unwind_to = ToInstruction t, unwind_cursor = address (length xs) 0 0, unwind_nested = None\<rparr>"
  let ?c = "set_mode (Unwinding ?u) ctx"
  have top: "top_cursor ctx = (Ok (address (length xs) 0 0) :: (vm_error, _) outcome)"
    using assms(1) by (simp add: top_cursor_def usub_def)
  then have l: "leave_op env t ctx = handle_exception env ?c"
    using assms(5) by (cases "exception_mode ctx") (auto simp: leave_op_def Let_def not_less)
  have fs: "vframes ?c = xs @ [f]" using assms(1) by simp
  obtain c1 where c1: "unwind_sections None (ToInstruction t) (address (length xs) 0 0) (frame_ip f) (length xs) 0 (sections_of f) ?c =
      (Ok (None, c1) :: (vm_error, _) outcome)" "drops_exceptions (length xs) ?c c1"
    using unwind_sections_quiet [OF assms(2) [unfolded exits_quietly_def] drops_exceptions_refl, of "length xs" ?c
        "address (length xs) 0 0" 0, where 'e = vm_error] fs by auto
  obtain es where es: "c1 = ?c\<lparr>frame_stack := (frame_stack ctx)\<lparr>frames := xs @ [f\<lparr>exception_stack := es\<rparr>]\<rparr>\<rparr>"
    using c1(2) fs by (auto simp: drops_exceptions_def)
  have "frame_at (length xs) (frame_stack ?c) = (Ok f :: (vm_error, _) outcome)" using fs by (simp add: frame_at_def)
  then have "unwind_frames env None (ToInstruction t) (address (length xs) 0 0) (length xs) (rev [length xs ..< Suc (length xs)]) ?c =
      (Ok (Reached, c1) :: (vm_error, _) outcome)"
    using c1(1) by (simp add: section_start_def)
  then have u: "unwind env ?u ?c = finish_unwind ?u c1" by (simp add: unwind_def target_frame_of_def)
  have commute: "f\<lparr>exception_stack := es, stack_height := 0\<rparr> = f\<lparr>stack_height := 0, exception_stack := es\<rparr>" by (cases f) simp
  have p: "pop_handler_unwind c1 = (None, c1)" using assms(4) by (simp add: es pop_handler_unwind_def)
  have v: "vframes (set_mode NoException c1) = xs @ [f\<lparr>exception_stack := es\<rparr>]" by (simp add: es)
  have "finish_unwind ?u c1 = Ok (Finished Exception ((set_mode NoException ctx)\<lparr>frame_stack :=
      (frame_stack ctx)\<lparr>frames := xs @ [set_ip t (f\<lparr>stack_height := 0, exception_stack := es\<rparr>)]\<rparr>\<rparr>))"
    using assms(3) p update_frame_snoc [OF v refl, where 'e = vm_error]
    by (simp add: finish_unwind_def target_frame_of_def) (simp add: es set_mode_def commute)
  with u have "handle_exception env ?c = Some (Ok (Exception, (set_mode NoException ctx)\<lparr>frame_stack :=
      (frame_stack ctx)\<lparr>frames := xs @ [set_ip t (f\<lparr>stack_height := 0, exception_stack := es\<rparr>)]\<rparr>\<rparr>))"
    by (subst handle_exception.simps) (simp add: handle_once_def)
  with l show ?thesis by (intro exI [of _ es]) simp
qed

text \<open>
  C34: A leave inside a finally or fault handler forgets the unwind that is waiting for that handler. When code of
  the handler leaves an inner try block of the same method, even without any handler to run, the thread is in no
  exception state afterwards: the exception that was on its way is lost, and the \<open>endfinally\<close> of the
  handler is refused as invalid code. Only a leave in a frame above the handler saves the pending unwind.
\<close>
theorem leave_forgets_pending_unwind:
  assumes "exception_mode ctx = ExecutingHandler s" and "vframes ctx = xs @ [f]"
    and "frame_index (unwind_cursor s) = length xs" and "continuation ctx = NoContinuation"
    and "exits_quietly f t" and "t \<noteq> usize_max"
  shows "\<exists>ctx'. leave_op env t ctx = Some (Ok (Exception, ctx')) \<and> frame_ip (last (vframes ctx')) = t \<and>
    active_exception (exception_mode ctx') = None \<and> endfinally_op env ctx' = Some (Ok (Error (Execution InvalidCil), ctx'))"
proof -
  obtain es where "leave_op env t ctx = Some (Ok (Exception, (set_mode NoException ctx)\<lparr>frame_stack :=
      (frame_stack ctx)\<lparr>frames := xs @ [set_ip t (f\<lparr>stack_height := 0, exception_stack := es\<rparr>)]\<rparr>\<rparr>))"
    using leave_quiet [OF assms(2,5,6,4)] assms(1,3) by auto
  then show ?thesis by (simp add: active_exception_def endfinally_op_def)
qed

text \<open>A try block with a catch inside the finally of an outer try, in the state a pending exception leaves it in.\<close>

definition sample_try_in_finally :: "(unit, nat, unit) stack_frame" where
  "sample_try_in_finally = sample_frame (sample_method [sample_section 10 12 [(14, 16, Catch 1)],
     sample_section 1 8 [(8, 18, Finally)]] ReturnsValue 0) 0 11 1"

definition sample_pending :: unwind_state where
  "sample_pending = \<lparr>unwind_exception = Some (Some 32), unwind_to = ToHandler (address 0 2 0),
     unwind_cursor = address 0 2 0, unwind_nested = None\<rparr>"

lemma sample_exits_quietly: "exits_quietly sample_try_in_finally 16"
  by (simp add: sample_try_in_finally_def sample_simps exits_quietly_def is_exiting_section_def should_run_def)

theorem leave_forgets_pending_unwind_witness:
  "\<exists>ctx'. leave_op sample_env 16 (sample_ves [sample_try_in_finally] [] (ExecutingHandler sample_pending)) =
       Some (Ok (Exception, ctx')) \<and>
     active_exception (ExecutingHandler sample_pending) = Some (Some 32) \<and> active_exception (exception_mode ctx') = None"
proof -
  let ?ctx = "sample_ves [sample_try_in_finally] [] (ExecutingHandler sample_pending)"
  have "exception_mode ?ctx = ExecutingHandler sample_pending" "vframes ?ctx = [] @ [sample_try_in_finally]"
      "continuation ?ctx = NoContinuation" "frame_index (unwind_cursor sample_pending) = length []" "16 \<noteq> usize_max"
    by (simp_all add: sample_ves_def sample_pending_def usize_max_def)
  from leave_forgets_pending_unwind [OF this(1,2,4,3) sample_exits_quietly this(5), of sample_env]
  show ?thesis by (auto simp: active_exception_def sample_pending_def)
qed

text \<open>
  C35: A leave does not drop the operands of the block. It only sets the operand count of the frame to zero, so when
  operands were left on the stack, a value pushed afterwards lands above them, and a return takes the slot at the
  base of the frame: the method returns the left-over operand instead of the value.
\<close>
theorem leave_returns_stale_operand:
  assumes "exception_mode ctx = NoException" and "vframes ctx = xs @ [f]" and "continuation ctx = NoContinuation"
    and "exits_quietly f t" and "t \<noteq> usize_max" and "return_type (info_handle (state f)) = ReturnsValue"
    and "base_stack (base f) < length (stack (evaluation_stack ctx))" and "length (stack (evaluation_stack ctx)) < usize_max"
  shows "\<exists>ctx1 ctx2. leave_op env t ctx = Some (Ok (Exception, ctx1)) \<and> ves_push v ctx1 = (Ok ctx2 :: ('e, _) outcome) \<and>
    stack (evaluation_stack ctx2) = stack (evaluation_stack ctx) @ [v] \<and>
    return_value_of (last (vframes ctx2)) (evaluation_stack ctx2) =
      (Ok (Some (stack (evaluation_stack ctx) ! base_stack (base f))) :: ('e, _) outcome)"
proof -
  obtain es where l: "leave_op env t ctx = Some (Ok (Exception, (set_mode NoException ctx)\<lparr>frame_stack :=
      (frame_stack ctx)\<lparr>frames := xs @ [set_ip t (f\<lparr>stack_height := 0, exception_stack := es\<rparr>)]\<rparr>\<rparr>))"
    using leave_quiet [OF assms(2,4,5,3)] assms(1) by auto
  let ?c = "(set_mode NoException ctx)\<lparr>frame_stack :=
      (frame_stack ctx)\<lparr>frames := xs @ [set_ip t (f\<lparr>stack_height := 0, exception_stack := es\<rparr>)]\<rparr>\<rparr>"
  have "vframes ?c = xs @ [set_ip t (f\<lparr>stack_height := 0, exception_stack := es\<rparr>)]" by simp
  note p = ves_push_snoc [OF this, of v, where 'e = 'e]
  show ?thesis
    by (intro exI conjI, rule l, rule p)
      (use assms(6-8) in \<open>simp_all add: usize_max_def es_push_def return_value_of_def get_slot_def usub_def uadd_def
         usize_of_def nth_append\<close>)
qed

theorem leave_returns_stale_operand_witness:
  "\<exists>ctx1 ctx2. leave_op sample_env 16 (sample_ves [sample_try_in_finally] [Stack_Value.Int32 7] NoException) =
       Some (Ok (Exception, ctx1)) \<and>
     ves_push (Stack_Value.Int32 42) ctx1 = (Ok ctx2 :: (unit, _) outcome) \<and>
     return_value_of (last (vframes ctx2)) (evaluation_stack ctx2) = (Ok (Some (Stack_Value.Int32 7)) :: (unit, _) outcome)"
proof -
  let ?ctx = "sample_ves [sample_try_in_finally] [Stack_Value.Int32 7] NoException"
  have "exception_mode ?ctx = NoException" "vframes ?ctx = [] @ [sample_try_in_finally]" "continuation ?ctx = NoContinuation"
      "16 \<noteq> usize_max" "return_type (info_handle (state sample_try_in_finally)) = ReturnsValue"
      "base_stack (base sample_try_in_finally) < length (stack (evaluation_stack ?ctx))"
      "length (stack (evaluation_stack ?ctx)) < usize_max"
    by (simp_all add: sample_try_in_finally_def sample_simps)
  from leave_returns_stale_operand [OF this(1-3) sample_exits_quietly this(4-7), of sample_env "Stack_Value.Int32 42", where 'e = unit]
  show ?thesis by (auto simp: sample_try_in_finally_def sample_simps)
qed

section \<open>Filters\<close>

text \<open>
  The code of a filter, up to its \<open>endfilter\<close>, which has popped the verdict: the frames below and the suspended
  part are as before, and the operands are those the frame had below its base.
\<close>

definition filter_effect :: "('g, 'c, 'r) ves \<Rightarrow> ('g, 'c, 'r) ves \<Rightarrow> bool" where
  "filter_effect c c' \<longleftrightarrow> exception_mode c' = exception_mode c \<and>
     evaluation_stack c' = (evaluation_stack c)\<lparr>stack := butlast (stack (evaluation_stack c))\<rparr> \<and>
     suspended_frames (frame_stack c') = suspended_frames (frame_stack c) \<and>
     (\<exists>n k. vframes c' = butlast (vframes c) @ [set_ip n ((last (vframes c))\<lparr>stack_height := k\<rparr>)])"

lemma begin_filter_Ok:
  assumes "begin_filter exc h off ctx = Ok (Finished r c)"
  shows "\<exists>f. frame_index h < length (vframes ctx) \<and> vframes ctx ! frame_index h = f \<and>
    base_stack (base f) \<le> length (stack (evaluation_stack ctx)) \<and>
    exception_mode c = Filtering \<lparr>filter_exception = exc, filter_handler = h, filter_ip = frame_ip f,
      filter_stack_height = base_stack (base f) + stack_height f\<rparr> \<and>
    evaluation_stack c = \<lparr>stack = take (base_stack (base f)) (stack (evaluation_stack ctx)) @ [Stack_Value.ObjectRef exc],
      suspended_stack = drop (base_stack (base f)) (stack (evaluation_stack ctx))\<rparr> \<and>
    suspended_frames (frame_stack c) = drop (Suc (frame_index h)) (vframes ctx) \<and>
    vframes c = take (frame_index h) (vframes ctx) @
      [set_ip off (f\<lparr>stack_height := 1, exception_stack := exception_stack f @ [exc]\<rparr>)]"
proof -
  let ?i = "frame_index h" and ?f = "vframes ctx ! frame_index h" and ?es = "evaluation_stack ctx"
  have i: "?i < length (vframes ctx)" using assms by (auto simp: begin_filter_def frame_at_def Let_def split: if_splits)
  have f: "frame_at ?i (frame_stack ctx) = (Ok ?f :: (vm_error, _) outcome)" using i by (simp add: frame_at_def)
  let ?c1 = "set_mode (Filtering \<lparr>filter_exception = exc, filter_handler = h, filter_ip = frame_ip ?f,
      filter_stack_height = base_stack (base ?f) + stack_height ?f\<rparr>) ctx"
  obtain fs th c3 where s: "base_stack (base ?f) \<le> length (stack ?es)"
      "fs_suspend_above ?i (frame_stack ctx) (gauges ctx) = (Ok (fs, th) :: (vm_error, _) outcome)"
    and rest: "update_frame ?i (\<lambda>f. set_ip off f\<lparr>stack_height := 0, exception_stack := exception_stack f @ [exc]\<rparr>)
        (?c1\<lparr>evaluation_stack := \<lparr>stack = take (base_stack (base ?f)) (stack ?es),
           suspended_stack = drop (base_stack (base ?f)) (stack ?es)\<rparr>, frame_stack := fs, gauges := th,
           original_ip := frame_ip ?f, original_stack_height := stack_height ?f\<rparr>) = (Ok c3 :: (vm_error, _) outcome)"
      "ves_push (Stack_Value.ObjectRef exc) c3 = (Ok c :: (vm_error, _) outcome)"
    using assms f by (auto simp: begin_filter_def Let_def outcome_simps uadd_def es_suspend_above_def split: if_splits)
  have fs: "frames fs = take ?i (vframes ctx) @ [?f]" "suspended_frames fs = drop (Suc ?i) (vframes ctx)"
    using s(2) i by (auto simp: fs_suspend_above_def outcome_simps uadd_def take_Suc_conv_app_nth split: if_splits)
  let ?c2 = "?c1\<lparr>evaluation_stack := \<lparr>stack = take (base_stack (base ?f)) (stack ?es),
      suspended_stack = drop (base_stack (base ?f)) (stack ?es)\<rparr>, frame_stack := fs, gauges := th,
      original_ip := frame_ip ?f, original_stack_height := stack_height ?f\<rparr>"
  let ?g = "\<lambda>f. set_ip off f\<lparr>stack_height := 0, exception_stack := exception_stack f @ [exc]\<rparr>"
  have v: "vframes ?c2 = take ?i (vframes ctx) @ [?f]" "length (take ?i (vframes ctx)) = ?i" using fs(1) i by simp_all
  note u = update_frame_snoc [OF v, of ?g, where 'e = vm_error]
  have v3: "vframes (?c2\<lparr>frame_stack := (frame_stack ?c2)\<lparr>frames := take ?i (vframes ctx) @ [?g ?f]\<rparr>\<rparr>) = take ?i (vframes ctx) @ [?g ?f]"
    by simp
  have h: "stack_height (?g ?f) < usize_max" by (simp add: usize_max_def)
  have c3: "c3 = ?c2\<lparr>frame_stack := (frame_stack ?c2)\<lparr>frames := take ?i (vframes ctx) @ [?g ?f]\<rparr>\<rparr>"
    using rest(1) unfolding u by simp
  note p = rest(2) [unfolded c3 ves_push_snoc [OF v3 h, where 'e = vm_error] outcome.inject]
  show ?thesis
    unfolding p [symmetric] using i s(1) fs(2) by (simp add: es_push_def set_mode_def) (simp add: set_ip_def)
qed

text \<open>
  C20: A filter leaves no trace. The search pass suspends the frames and operands above the filter while its code
  runs; whatever the verdict, \<open>endfilter\<close> gives back exactly the frames and operands from before, the owner of the
  filter with its instruction, operand count and active exceptions. With the verdict 1 the unwind pass starts from the
  top towards the handler; with any other verdict the search goes on with the handler after the filter.
\<close>
theorem filter_leaves_no_trace:
  assumes "begin_filter exc h off ctx = Ok (Finished r c1)" and "filter_effect c1 c2" and "handler_index h < usize_max"
  shows "\<exists>c3. endfilter_op verdict c2 = Ok (Exception, c3) \<and> vframes c3 = vframes ctx \<and>
    stack (evaluation_stack c3) = stack (evaluation_stack ctx) \<and>
    suspended_frames (frame_stack c3) = [] \<and> suspended_stack (evaluation_stack c3) = [] \<and>
    exception_mode c3 = (if verdict = 1
      then Unwinding \<lparr>unwind_exception = Some exc, unwind_to = ToHandler h,
             unwind_cursor = address (length (vframes ctx) - 1) 0 0, unwind_nested = None\<rparr>
      else Searching \<lparr>search_exception = exc, search_cursor = address (frame_index h) (section_index h) (handler_index h + 1),
             search_nested = None\<rparr>)"
proof -
  let ?i = "frame_index h" and ?f = "vframes ctx ! frame_index h" and ?es = "evaluation_stack ctx"
  let ?xs = "take ?i (vframes ctx)" and ?b = "base_stack (base (vframes ctx ! frame_index h))"
  have i: "?i < length (vframes ctx)" and mode: "exception_mode c1 = Filtering \<lparr>filter_exception = exc, filter_handler = h,
        filter_ip = frame_ip ?f, filter_stack_height = ?b + stack_height ?f\<rparr>"
    and es: "evaluation_stack c1 = \<lparr>stack = take ?b (stack ?es) @ [Stack_Value.ObjectRef exc], suspended_stack = drop ?b (stack ?es)\<rparr>"
    and sus: "suspended_frames (frame_stack c1) = drop (Suc ?i) (vframes ctx)"
    and v1: "vframes c1 = ?xs @ [set_ip off (?f\<lparr>stack_height := 1, exception_stack := exception_stack ?f @ [exc]\<rparr>)]"
    using begin_filter_Ok [OF assms(1)] by simp_all
  obtain n k where v2: "vframes c2 = ?xs @ [set_ip n (?f\<lparr>exception_stack := exception_stack ?f @ [exc], stack_height := k\<rparr>)]"
    using assms(2) v1 by (auto simp: filter_effect_def set_ip_def)
  have c2: "exception_mode c2 = exception_mode c1" "suspended_frames (frame_stack c2) = drop (Suc ?i) (vframes ctx)"
      "evaluation_stack c2 = \<lparr>stack = take ?b (stack ?es), suspended_stack = drop ?b (stack ?es)\<rparr>"
    using assms(2) es sus by (simp_all add: filter_effect_def)
  let ?g = "\<lambda>f. set_ip (frame_ip ?f) (f\<lparr>stack_height := (?b + stack_height ?f) - base_stack (base f),
      exception_stack := butlast (exception_stack f)\<rparr>)"
  have g: "?g (set_ip n (?f\<lparr>exception_stack := exception_stack ?f @ [exc], stack_height := k\<rparr>)) = ?f"
    by (cases ?f) (simp add: set_ip_def frame_ip_def)
  have len: "length ?xs = ?i" using i by simp
  have u: "update_frame ?i ?g c2 = (Ok (c2\<lparr>frame_stack := (frame_stack c2)\<lparr>frames := ?xs @ [?f]\<rparr>\<rparr>) :: (vm_error, _) outcome)"
    using update_frame_snoc [OF v2 len, of ?g, where 'e = vm_error] g by simp
  have all: "?xs @ ?f # drop (Suc ?i) (vframes ctx) = vframes ctx" using i by (simp add: id_take_nth_drop [symmetric])
  let ?c3 = "c2\<lparr>evaluation_stack := es_restore_suspended (evaluation_stack c2),
      frame_stack := fs_restore_suspended ((frame_stack c2)\<lparr>frames := ?xs @ [?f]\<rparr>)\<rparr>"
  have c3: "vframes ?c3 = vframes ctx" "stack (evaluation_stack ?c3) = stack ?es" "suspended_frames (frame_stack ?c3) = []"
      "suspended_stack (evaluation_stack ?c3) = []"
    using all by (simp_all add: fs_restore_suspended_def es_restore_suspended_def c2)
  have top: "top_cursor ?c3 = (Ok (address (length (vframes ctx) - 1) 0 0) :: (vm_error, _) outcome)"
    using i c3(1) by (simp add: top_cursor_def usub_def)
  show ?thesis
  proof (cases "verdict = 1")
    case True
    then show ?thesis using u top c3 by (simp add: endfilter_op_def c2(1) mode Let_def)
  next
    case False
    then show ?thesis using u c3 assms(3) by (simp add: endfilter_op_def c2(1) mode Let_def uadd_def usize_of_def)
  qed
qed

definition sample_filtered :: "(unit, nat, unit) ves" where
  "sample_filtered = sample_ves [sample_frame (sample_method [sample_section 1 8 [(8, 10, Filter 20)]] ReturnsNothing 0) 0 3 1,
     sample_callee] [Stack_Value.Int32 7, Stack_Value.Int32 8] NoException"

theorem filter_leaves_no_trace_witness:
  "\<exists>c1 c3. begin_filter (Some 32) (address 0 0 0) 20 sample_filtered = Ok (Finished Exception c1) \<and>
     frame_ip (last (vframes c1)) = 20 \<and> length (vframes c1) = 1 \<and>
     endfilter_op 0 (c1\<lparr>evaluation_stack := (evaluation_stack c1)\<lparr>stack := butlast (stack (evaluation_stack c1))\<rparr>\<rparr>) = Ok (Exception, c3) \<and>
     vframes c3 = vframes sample_filtered \<and> stack (evaluation_stack c3) = [Stack_Value.Int32 7, Stack_Value.Int32 8]"
proof -
  have "\<exists>c1. begin_filter (Some 32) (address 0 0 0) 20 sample_filtered = Ok (Finished Exception c1)"
    by (simp add: begin_filter_def sample_filtered_def sample_callee_def sample_simps es_suspend_above_def fs_suspend_above_def
        drop_frames_def ves_push_def on_push_def usize_of_def Let_def)
  then obtain c1 where c1: "begin_filter (Some 32) (address 0 0 0) 20 sample_filtered = Ok (Finished Exception c1)" by blast
  let ?c2 = "c1\<lparr>evaluation_stack := (evaluation_stack c1)\<lparr>stack := butlast (stack (evaluation_stack c1))\<rparr>\<rparr>"
  have v: "frame_ip (last (vframes c1)) = 20" "length (vframes c1) = 1"
    using begin_filter_Ok [OF c1] by (auto simp: sample_filtered_def sample_ves_def)
  have "set_ip (frame_ip f) (f\<lparr>stack_height := stack_height f\<rparr>) = f" for f :: "(unit, nat, unit) stack_frame"
    by (simp add: set_ip_def frame_ip_def)
  then have "\<exists>n k. vframes c1 = butlast (vframes c1) @ [set_ip n ((last (vframes c1))\<lparr>stack_height := k\<rparr>)]"
    using v(2) by (metis append_butlast_last_id list.size(3) zero_neq_one)
  then have "filter_effect c1 ?c2" by (simp add: filter_effect_def)
  from filter_leaves_no_trace [OF c1 this, of 0] c1 v show ?thesis
    by (auto simp: usize_max_def) (simp add: sample_filtered_def sample_ves_def)
qed

end
