(* ===== verification/Call_Return.thy ===== *)
theory Call_Return
  imports Leave_Filter
begin

text \<open>
  Calls and returns together: a call consumes its arguments, a return drops everything the callee has put on the
  stack and leaves exactly the result, and the frame storage of the thread stays accounted for in between.
\<close>

section \<open>Entering a frame\<close>

lemma set_slot_at_keeps:
  "set_slot_at i v es = (Ok es' :: ('e, _) outcome) \<Longrightarrow> n \<le> i \<Longrightarrow> n \<le> length (stack es) \<Longrightarrow>
     take n (stack es') = take n (stack es) \<and> n \<le> length (stack es')"
  by (auto simp: set_slot_at_def set_slot_def split: if_splits)

lemma init_locals_keeps:
  assumes "init_locals_from env hl gens b i ls es = Ok (ps, es')" and "n \<le> b" and "n \<le> length (stack es)"
  shows "take n (stack es') = take n (stack es) \<and> n \<le> length (stack es') \<and> length ps = length ls"
  using assms
proof (induction ls arbitrary: i es ps)
  case (Cons l ls)
  obtain p v es1 ps' where s: "set_slot_at (b + i) v es = (Ok es1 :: (type_resolution_error, _) outcome)"
      "init_locals_from env hl gens b (Suc i) ls es1 = Ok (ps', es')" "ps = p # ps'"
    using Cons.prems(1) by (auto simp: outcome_simps uadd_def split: prod.splits)
  have "take n (stack es1) = take n (stack es) \<and> n \<le> length (stack es1)"
    by (rule set_slot_at_keeps [OF s(1)]) (use Cons.prems in simp_all)
  with Cons.IH [OF s(2) Cons.prems(2)] s(3) show ?case by simp
qed simp

lemma canonical_this_keeps:
  assumes "canonical_this env info b es = Ok es'" and "n \<le> b" and "n \<le> length (stack es)"
  shows "take n (stack es') = take n (stack es) \<and> n \<le> length (stack es')"
proof -
  have "es' = es \<or> (\<exists>v. set_slot_at b v es = (Ok es' :: (type_resolution_error, _) outcome))"
  proof (cases "has_this info")
    case True
    then obtain v where v: "get_slot b es = (Ok v :: (type_resolution_error, _) outcome)"
      using assms(1) by (auto simp: canonical_this_def outcome_simps)
    show ?thesis
    proof (cases v)
      case (ObjectRef obj)
      show ?thesis
        using assms(1) True v ObjectRef by (cases obj) (auto simp: canonical_this_def outcome_simps split: if_splits)
    qed (use assms(1) True v in \<open>simp_all add: canonical_this_def\<close>)
  qed (use assms(1) in \<open>simp add: canonical_this_def\<close>)
  with set_slot_at_keeps [OF _ assms(2,3), where 'e = type_resolution_error] assms(3) show ?thesis by auto
qed

lemma allocate_homes_frames:
  "allocate_frame_homes host info fs th = Ok (hs, fs1, th1) \<Longrightarrow>
     allocate_frame_homes host info (fs\<lparr>frames := ys\<rparr>) th = Ok (hs, fs1\<lparr>frames := ys\<rparr>, th1) \<and> frames fs1 = frames fs"
  by (auto simp: allocate_frame_homes_def issue_home_serial_def outcome_simps split: option.splits)

text \<open>The frames of a call are those of \<open>enter_frame\<close>, after the caller has given up its arguments.\<close>

lemma call_frame_Ok:
  assumes "call_frame env info gens ctx = Ok ctx1" and "vframes ctx = xs @ [caller]"
  shows "\<exists>es fs th pinned bp. ctx1 = ctx\<lparr>evaluation_stack := es, frame_stack := fs, gauges := th\<rparr> \<and>
    argument_count info \<le> stack_height caller \<and> argument_count info \<le> length (stack (evaluation_stack ctx)) \<and>
    base_arguments bp = length (stack (evaluation_stack ctx)) - argument_count info \<and>
    base_stack bp = length (stack (evaluation_stack ctx)) + length (method_locals info) \<and>
    take (base_arguments bp) (stack es) = take (base_arguments bp) (stack (evaluation_stack ctx)) \<and>
    enter_frame (host_env env) bp info gens pinned
      ((frame_stack ctx)\<lparr>frames := xs @ [caller\<lparr>stack_height := stack_height caller - argument_count info\<rparr>]\<rparr>) (gauges ctx) = Ok (fs, th)"
proof -
  let ?top = "length (stack (evaluation_stack ctx))" and ?n = "argument_count info"
  let ?ys = "xs @ [caller\<lparr>stack_height := stack_height caller - ?n\<rparr>]"
  obtain pinned es1 hs fs1 th1 es2 fs2 fs3 th2 fs4 where
    n: "?n \<le> ?top" and l: "init_locals env info gens ?top (evaluation_stack ctx) = Ok (pinned, es1)"
    and h: "allocate_frame_homes (host_env env) info (frame_stack ctx) (gauges ctx) = Ok (hs, fs1, th1)"
    and t: "canonical_this env info (?top - ?n) es1 = Ok es2"
    and c: "(if frames fs1 = [] then Ok fs1 else and_then (usub (stack_height (last (frames fs1))) ?n) (\<lambda>h.
              map_current (\<lambda>f. f\<lparr>stack_height := h\<rparr>) fs1)) = (Ok fs2 :: (type_resolution_error, _) outcome)"
    and p: "push_frame \<lparr>base_arguments = ?top - ?n, base_locals = ?top, base_stack = ?top + length pinned\<rparr>
              info gens pinned fs2 th1 = (Ok (fs3, th2) :: (type_resolution_error, _) outcome)"
    and i: "install_frame_homes env hs (?top - ?n) es2 fs3 = Ok fs4"
    and ctx1: "ctx1 = ctx\<lparr>evaluation_stack := es2, frame_stack := fs4, gauges := th2\<rparr>"
    using assms(1) by (auto simp: call_frame_def Let_def outcome_simps uadd_def usub_def split: prod.splits if_splits)
  note homes = allocate_homes_frames [OF h, of ?ys]
  have fs2: "?n \<le> stack_height caller" "fs2 = fs1\<lparr>frames := ?ys\<rparr>"
    using c homes assms(2) by (auto simp: outcome_simps usub_def split: if_splits)
  have i': "map_current (\<lambda>f. f\<lparr>homes := hs\<rparr>) fs3 = (Ok fs4 :: (type_resolution_error, _) outcome)"
    using i by (auto simp: install_frame_homes_def and_then_eq_Ok map_outcome_eq_Ok split: option.splits)
  have enter: "enter_frame (host_env env) \<lparr>base_arguments = ?top - ?n, base_locals = ?top, base_stack = ?top + length pinned\<rparr>
      info gens pinned ((frame_stack ctx)\<lparr>frames := ?ys\<rparr>) (gauges ctx) = Ok (fs4, th2)"
    using homes p i' fs2(2) by (simp add: enter_frame_def)
  have "take (?top - ?n) (stack es1) = take (?top - ?n) (stack (evaluation_stack ctx)) \<and> ?top - ?n \<le> length (stack es1) \<and>
      length pinned = length (method_locals info)"
    by (rule init_locals_keeps [OF l [unfolded init_locals_def]]) simp_all
  with canonical_this_keeps [OF t, of "?top - ?n"] enter n fs2(1) ctx1 show ?thesis
    by (intro exI [of _ es2] exI [of _ fs4] exI [of _ th2] exI [of _ pinned]
        exI [of _ "\<lparr>base_arguments = ?top - ?n, base_locals = ?top, base_stack = ?top + length pinned\<rparr>"]) simp
qed

lemma push_frame_top:
  assumes "push_frame bp info gens pinned fs th = (Ok (fs', th') :: ('e, _) outcome)"
  shows "\<exists>f. frames fs' = frames fs @ [f] \<and> base f = bp \<and> info_handle (state f) = info \<and> stack_height f = 0 \<and>
    constructor_result f = None \<and> frame_continuation f = None"
proof (cases "pooled_frames fs = []")
  case True
  then show ?thesis using assms by (auto simp: push_frame_def stack_frame_new_def method_state_new_def)
next
  case False
  then show ?thesis using assms by (auto simp: push_frame_def outcome_simps reset_for_call_def method_state_new_def split: prod.splits)
qed

lemma enter_frame_top:
  assumes "enter_frame host bp info gens pinned fs th = Ok (fs', th')"
  shows "\<exists>f. frames fs' = frames fs @ [f] \<and> base f = bp \<and> info_handle (state f) = info \<and> stack_height f = 0 \<and>
    constructor_result f = None \<and> frame_continuation f = None"
proof -
  obtain hs fs1 th1 fs2 th2 where s: "allocate_frame_homes host info fs th = Ok (hs, fs1, th1)"
      "push_frame bp info gens pinned fs1 th1 = (Ok (fs2, th2) :: (type_resolution_error, _) outcome)"
      "map_current (\<lambda>f. f\<lparr>homes := hs\<rparr>) fs2 = (Ok fs' :: (type_resolution_error, _) outcome)"
    using assms by (auto simp: enter_frame_def outcome_simps)
  from push_frame_top [OF s(2)] allocate_homes_frames [OF s(1)] s(3) show ?thesis by (auto simp: outcome_simps)
qed

section \<open>Returning\<close>

definition result_count :: "('g, 'c, 'r) stack_frame \<Rightarrow> nat" where
  "result_count f = (if return_type (info_handle (state f)) = ReturnsNothing then 0 else 1)"

lemma take_continuation_none:
  assumes "vframes c = xs @ [f]" and "frame_continuation f = None"
  shows "take_continuation c = (None, c)"
proof -
  have "f\<lparr>frame_continuation := None\<rparr> = f" using assms(2) by (cases f) simp
  moreover have "c\<lparr>frame_stack := (frame_stack c)\<lparr>frames := xs @ [f]\<rparr>\<rparr> = c"
    unfolding assms(1) [symmetric] by simp
  ultimately show ?thesis using assms by (cases xs) (simp_all add: take_continuation_def)
qed

text \<open>What is left to do once the frame is popped and the flags are set: the result, and the frame back to the pool.\<close>

lemma finish_return:
  assumes "fs_pop (frame_stack ctx) = Some (f, fs0)" and "return_type (info_handle (state f)) \<noteq> ReturnsTypedReference"
    and "constructor_result f = None" and "return_value_of f (evaluation_stack ctx) = (Ok ret :: ('e, _) outcome)"
  shows "\<exists>c. frame_stack c = fs0 \<and> gauges c = gauges ctx \<and>
    evaluation_stack c = es_truncate (base_arguments (base f)) (evaluation_stack ctx) \<and>
    return_frame env ctx = and_then (case ret of None \<Rightarrow> Ok c | Some v \<Rightarrow> ves_push v c) (\<lambda>c4.
      (let (action, c6) = take_continuation c4 in
        and_then (case action of None \<Rightarrow> Ok c6 | Some (InvokeReturn rt) \<Rightarrow> invoke_return env rt c6) (\<lambda>c7.
          map_outcome (Pair step_result.Continue) (recycle f c7))) :: ('e, _) outcome)"
proof -
  define c2 where "c2 = (let c0 = ctx\<lparr>frame_stack := fs0\<rparr> in leave_finalizer f
    (if is_cctor (info_handle (state f)) then c0\<lparr>static_table := mark_initialized (static_table c0) (cctor_key env f)\<rparr> else c0))"
  have es: "evaluation_stack c2 = evaluation_stack ctx" "frame_stack c2 = fs0" "gauges c2 = gauges ctx"
    by (simp_all add: c2_def leave_finalizer_def Let_def)
  have "return_value_of f (evaluation_stack c2) = (Ok ret :: ('e, _) outcome)" using assms(4) es by simp
  then have "return_frame env ctx = and_then (case ret of None \<Rightarrow> Ok (clear_evaluation_stack_from (base_arguments (base f)) c2)
      | Some v \<Rightarrow> ves_push v (clear_evaluation_stack_from (base_arguments (base f)) c2)) (\<lambda>c4.
      (let (action, c6) = take_continuation c4 in
        and_then (case action of None \<Rightarrow> Ok c6 | Some (InvokeReturn rt) \<Rightarrow> invoke_return env rt c6) (\<lambda>c7.
          map_outcome (Pair step_result.Continue) (recycle f c7))) :: ('e, _) outcome)"
    unfolding return_frame_def assms(1) option.case prod.case Let_def c2_def assms(3) using assms(2) by simp
  then show ?thesis
    using es by (intro exI [of _ "clear_evaluation_stack_from (base_arguments (base f)) c2"])
      (simp add: clear_evaluation_stack_from_def)
qed

lemma return_frame_ok:
  assumes "storage_inv (frame_stack ctx) (gauges ctx)" and "vframes ctx = (xs @ [caller]) @ [f]"
    and "return_type (info_handle (state f)) \<noteq> ReturnsTypedReference" and "constructor_result f = None"
    and "frame_continuation caller = None" and "length (stack (evaluation_stack ctx)) = base_stack (base f) + stack_height f"
    and "result_count f \<le> stack_height f" and "length (stack (evaluation_stack ctx)) \<le> usize_max"
    and "stack_height caller < usize_max"
  shows "\<exists>ctx'. return_frame env ctx = (Ok (step_result.Continue, ctx') :: ('e, _) outcome) \<and>
    vframes ctx' = xs @ [caller\<lparr>stack_height := stack_height caller + result_count f\<rparr>] \<and>
    stack (evaluation_stack ctx') = take (base_arguments (base f)) (stack (evaluation_stack ctx)) @
      (if result_count f = 0 then [] else [last (stack (evaluation_stack ctx))]) \<and>
    storage_inv (frame_stack ctx') (gauges ctx')"
proof -
  let ?caller = "caller\<lparr>stack_height := stack_height caller + result_count f\<rparr>"
  have "set_frame (length xs) ?caller (frame_stack ctx) = (frame_stack ctx)\<lparr>frames := (xs @ [?caller]) @ [f]\<rparr>"
    using assms(2) by (simp add: set_frame_def)
  then have inv: "storage_inv ((frame_stack ctx)\<lparr>frames := (xs @ [?caller]) @ [f]\<rparr>) (gauges ctx)"
    using inv_update(1) [OF assms(1), of "length xs" ?caller] assms(2) by (simp add: nth_append)
  obtain fs' th' where r: "recycle_frame f ((frame_stack ctx)\<lparr>frames := xs @ [?caller]\<rparr>) (gauges ctx) = (Ok (fs', th') :: ('e, _) outcome)"
      "storage_inv fs' th'" "frames fs' = xs @ [?caller]"
    using recycle_ok [OF inv, where 'e = 'e] by (auto simp: pop_and_recycle_def fs_pop_def outcome_simps butlast_append)
  let ?ret = "if result_count f = 0 then None else Some (last (stack (evaluation_stack ctx)))"
  have "last (stack (evaluation_stack ctx)) = stack (evaluation_stack ctx) ! (base_stack (base f) + stack_height f - 1)" if "0 < stack_height f"
    using that assms(6) by (subst last_conv_nth) auto
  then have ret: "return_value_of f (evaluation_stack ctx) = (Ok ?ret :: ('e, _) outcome)"
    using assms(3,6-8)
    by (cases "return_type (info_handle (state f))")
      (auto simp: return_value_of_def result_count_def uadd_def usize_of_def usub_def get_slot_def)
  have pop: "fs_pop (frame_stack ctx) = Some (f, (frame_stack ctx)\<lparr>frames := xs @ [caller]\<rparr>)"
    using assms(2) by (simp add: fs_pop_def butlast_append)
  obtain c where c: "frame_stack c = (frame_stack ctx)\<lparr>frames := xs @ [caller]\<rparr>" "gauges c = gauges ctx"
      "evaluation_stack c = es_truncate (base_arguments (base f)) (evaluation_stack ctx)"
    and run: "return_frame env ctx = and_then (case ?ret of None \<Rightarrow> Ok c | Some v \<Rightarrow> ves_push v c) (\<lambda>c4.
      (let (action, c6) = take_continuation c4 in
        and_then (case action of None \<Rightarrow> Ok c6 | Some (InvokeReturn rt) \<Rightarrow> invoke_return env rt c6) (\<lambda>c7.
          map_outcome (Pair step_result.Continue) (recycle f c7))) :: ('e, _) outcome)"
    using finish_return [OF pop assms(3,4) ret] by blast
  let ?c4 = "c\<lparr>evaluation_stack := (evaluation_stack c)\<lparr>stack := stack (evaluation_stack c) @
      (if result_count f = 0 then [] else [last (stack (evaluation_stack ctx))])\<rparr>,
    frame_stack := (frame_stack c)\<lparr>frames := xs @ [?caller]\<rparr>\<rparr>"
  have v: "vframes c = xs @ [caller]" using c(1) by simp
  have "(case ?ret of None \<Rightarrow> Ok c | Some v \<Rightarrow> ves_push v c) = (Ok ?c4 :: ('e, _) outcome)"
  proof (cases "result_count f = 0")
    case True
    then show ?thesis using c by simp
  next
    case False
    then have "result_count f = 1" by (simp add: result_count_def split: if_splits)
    then show ?thesis using ves_push_snoc [OF v assms(9), where 'e = 'e] by (simp add: es_push_def)
  qed
  moreover have "take_continuation ?c4 = (None, ?c4)"
    by (rule take_continuation_none [of _ xs ?caller]) (simp_all add: assms(5))
  moreover have "recycle f ?c4 = (Ok (?c4\<lparr>frame_stack := fs', gauges := th'\<rparr>) :: ('e, _) outcome)"
    using r(1) c by (simp add: recycle_def)
  ultimately have "return_frame env ctx = (Ok (step_result.Continue, ?c4\<lparr>frame_stack := fs', gauges := th'\<rparr>) :: ('e, _) outcome)"
    unfolding run by simp
  then show ?thesis using r(2,3) c(3) by (simp add: es_truncate_def)
qed

section \<open>Calls are balanced\<close>

text \<open>
  The code of a method, from its first instruction to its return: it works in its own frame, above its arguments,
  keeps the accounts of frame storage, and has its result as the top operand when it returns one.
\<close>

definition callee_effect :: "('g, 'c, 'r) ves \<Rightarrow> ('g, 'c, 'r) ves \<Rightarrow> bool" where
  "callee_effect c c' \<longleftrightarrow>
     (\<exists>f. vframes c' = butlast (vframes c) @ [f] \<and> base f = base (last (vframes c)) \<and>
        info_handle (state f) = info_handle (state (last (vframes c))) \<and>
        constructor_result f = constructor_result (last (vframes c)) \<and>
        take (base_arguments (base f)) (stack (evaluation_stack c')) = take (base_arguments (base f)) (stack (evaluation_stack c)) \<and>
        length (stack (evaluation_stack c')) = base_stack (base f) + stack_height f \<and> result_count f \<le> stack_height f) \<and>
     length (stack (evaluation_stack c')) \<le> usize_max \<and>
     (storage_inv (frame_stack c) (gauges c) \<longrightarrow> storage_inv (frame_stack c') (gauges c'))"


text \<open>A method with one parameter, called with an operand left below, that pushes its result and returns.\<close>

definition sample_calling :: "(unit, nat, unit) ves" where
  "sample_calling = sample_ves [sample_frame (sample_method [] ReturnsNothing 0) 0 3 2] [Stack_Value.Int32 7, Stack_Value.Int32 8] NoException"

definition sample_called :: "(unit, nat, unit) ves" where
  "sample_called = sample_ves [sample_frame (sample_method [] ReturnsNothing 0) 0 3 1,
     (stack_frame_new \<lparr>base_arguments = 1, base_locals = 2, base_stack = 2\<rparr> (sample_method [] ReturnsValue 1) () [])]
     [Stack_Value.Int32 7, Stack_Value.Int32 8] NoException"

definition sample_returning :: "(unit, nat, unit) ves" where
  "sample_returning = sample_ves [sample_frame (sample_method [] ReturnsNothing 0) 0 3 1,
     (stack_frame_new \<lparr>base_arguments = 1, base_locals = 2, base_stack = 2\<rparr> (sample_method [] ReturnsValue 1) () [])\<lparr>stack_height := 1\<rparr>]
     [Stack_Value.Int32 7, Stack_Value.Int32 8, Stack_Value.Int32 42] NoException"

lemma sample_storage:
  assumes "\<forall>f \<in> set fs. allocations (state f) = frame_allocations_default \<and> homes f = frame_homes_default"
  shows "storage_inv (frame_stack (sample_ves fs vs m)) (gauges (sample_ves fs vs m))"
proof -
  have "\<forall>f \<in> set fs. owns_nothing f"
    using assms by (simp add: owns_nothing_def used_of_def block_count_def frame_allocations_default_def)
  then have p: "used_sum fs = 0" "block_sum fs = 0" "serials fs = []" using owns_nothing_sums by blast+
  have "\<forall>f \<in> set fs. used_of f = 0" using assms by (simp add: used_of_def frame_allocations_default_def)
  then show ?thesis
    unfolding storage_inv_def frames_owned_def by (simp add: p sample_ves_def frame_budget_default_def)
qed


end
