(* ===== verification/Generics.thy ===== *)
theory Generics
  imports Managed_Ptr
begin

text \<open>
  Concrete types, generic arguments and the specialization of metadata types (\<open>dotnet-types/src/generics.rs\<close>, built
  without \<open>generic-constraint-validation\<close>, as by default). Metadata types are those of the metadata reader as the code
  takes them apart: modifiers and array shapes are opaque values, a function pointer is the shape of its signature
  and the types in it. A resolution scope is a number, 0 for none. The hash function is a parameter.
\<close>

section \<open>Types\<close>

datatype user_type = Definition nat | Reference nat

datatype value_kind = ClassKind | ValueKind

datatype 'a type_source = UserSource user_type | GenericSource user_type "'a list"

datatype 'a base_type =
    BType "'a type_source" "value_kind option"
  | BBoolean | BChar | BInt8 | BUInt8 | BInt16 | BUInt16 | BInt32 | BUInt32 | BInt64 | BUInt64
  | BFloat32 | BFloat64 | BIntPtr | BUIntPtr | BObject | BString
  | BVector "nat list" 'a
  | BArray 'a "nat list"
  | BValuePointer "nat list" "'a option"
  | BFunctionPointer "nat list" "'a list"

datatype concrete_type = ConcreteType (c_source: nat) (c_base: "concrete_type base_type")

datatype method_type = MBase "method_type base_type" | TypeGeneric nat | MethodGeneric nat

text \<open>The number each kind of type has in the hash.\<close>

definition base_tag :: "'a base_type \<Rightarrow> nat" where
  "base_tag b = (case b of
     BType _ _ \<Rightarrow> 0 | BBoolean \<Rightarrow> 1 | BChar \<Rightarrow> 2 | BInt8 \<Rightarrow> 3 | BUInt8 \<Rightarrow> 4 | BInt16 \<Rightarrow> 5 | BUInt16 \<Rightarrow> 6
   | BInt32 \<Rightarrow> 7 | BUInt32 \<Rightarrow> 8 | BInt64 \<Rightarrow> 9 | BUInt64 \<Rightarrow> 10 | BFloat32 \<Rightarrow> 11 | BFloat64 \<Rightarrow> 12 | BIntPtr \<Rightarrow> 13
   | BUIntPtr \<Rightarrow> 14 | BObject \<Rightarrow> 15 | BString \<Rightarrow> 16 | BVector _ _ \<Rightarrow> 17 | BArray _ _ \<Rightarrow> 18
   | BValuePointer _ _ \<Rightarrow> 19 | BFunctionPointer _ _ \<Rightarrow> 20)"

section \<open>Identity\<close>

text \<open>
  Equality ignores the value kind. The children of the left type come as the predicates that say what equals them,
  so that the recursion follows the left type.
\<close>

definition children_eq :: "('a \<Rightarrow> bool) list \<Rightarrow> 'a list \<Rightarrow> bool" where
  "children_eq = list_all2 (\<lambda>p x. p x)"

definition source_eq :: "('a \<Rightarrow> bool) type_source \<Rightarrow> 'a type_source \<Rightarrow> bool" where
  "source_eq l r =
     (case l of
        UserSource u \<Rightarrow> (case r of UserSource v \<Rightarrow> u = v | _ \<Rightarrow> False)
      | GenericSource u ps \<Rightarrow> (case r of GenericSource v xs \<Rightarrow> u = v \<and> children_eq ps xs | _ \<Rightarrow> False))"

definition base_type_eq_without_value_kind :: "('a \<Rightarrow> bool) base_type \<Rightarrow> 'a base_type \<Rightarrow> bool" where
  "base_type_eq_without_value_kind l r =
     (case l of
        BType s _ \<Rightarrow> (case r of BType t _ \<Rightarrow> source_eq s t | _ \<Rightarrow> False)
      | BVector m p \<Rightarrow> (case r of BVector n x \<Rightarrow> m = n \<and> p x | _ \<Rightarrow> False)
      | BArray p sh \<Rightarrow> (case r of BArray x sh' \<Rightarrow> p x \<and> sh = sh' | _ \<Rightarrow> False)
      | BValuePointer m p \<Rightarrow> (case r of BValuePointer n x \<Rightarrow> m = n \<and> rel_option (\<lambda>p x. p x) p x | _ \<Rightarrow> False)
      | BFunctionPointer sg ps \<Rightarrow> (case r of BFunctionPointer sg' xs \<Rightarrow> sg = sg' \<and> children_eq ps xs | _ \<Rightarrow> False)
      | _ \<Rightarrow> base_tag l = base_tag r)"

primrec concrete_eq :: "concrete_type \<Rightarrow> concrete_type \<Rightarrow> bool" where
  "concrete_eq (ConcreteType r b) = (\<lambda>c. r = c_source c \<and> base_type_eq_without_value_kind (map_base_type concrete_eq b) (c_base c))"

section \<open>Hashing\<close>

datatype hash_item = HashByte nat | HashWord u64 | HashScope nat | HashUser user_type | HashOpaque "nat list" | HashLength nat

definition source_items :: "u64 type_source \<Rightarrow> hash_item list" where
  "source_items s =
     (case s of
        UserSource u \<Rightarrow> [HashLength 0, HashUser u]
      | GenericSource u hs \<Rightarrow> [HashLength 1, HashUser u, HashLength (length hs)] @ map HashWord hs)"

definition hash_base_type_without_value_kind :: "u64 base_type \<Rightarrow> hash_item list" where
  "hash_base_type_without_value_kind b = HashByte (base_tag b) #
     (case b of
        BType s _ \<Rightarrow> source_items s
      | BVector m h \<Rightarrow> [HashOpaque m, HashWord h]
      | BArray h sh \<Rightarrow> [HashWord h, HashOpaque sh]
      | BValuePointer m h \<Rightarrow> HashOpaque m # (case h of None \<Rightarrow> [HashLength 0] | Some w \<Rightarrow> [HashLength 1, HashWord w])
      | BFunctionPointer sg hs \<Rightarrow> [HashOpaque sg, HashLength (length hs)] @ map HashWord hs
      | _ \<Rightarrow> [])"

primrec concrete_hash :: "(hash_item list \<Rightarrow> u64) \<Rightarrow> concrete_type \<Rightarrow> u64" where
  "concrete_hash hasher (ConcreteType r b) =
     hasher (HashScope r # hash_base_type_without_value_kind (map_base_type (concrete_hash hasher) b))"

section \<open>Generic arguments\<close>

record generic_lookup =
  type_generics :: "concrete_type list"
  method_generics :: "concrete_type list"
  lookup_hash :: u64

definition compute_hash :: "(hash_item list \<Rightarrow> u64) \<Rightarrow> concrete_type list \<Rightarrow> concrete_type list \<Rightarrow> u64" where
  "compute_hash hasher ts ms =
     hasher ([HashLength (length ts)] @ map (\<lambda>t. HashWord (concrete_hash hasher t)) ts @
             [HashLength (length ms)] @ map (\<lambda>t. HashWord (concrete_hash hasher t)) ms)"

definition from_arcs :: "(hash_item list \<Rightarrow> u64) \<Rightarrow> concrete_type list \<Rightarrow> concrete_type list \<Rightarrow> generic_lookup" where
  "from_arcs hasher ts ms = \<lparr>type_generics = ts, method_generics = ms, lookup_hash = compute_hash hasher ts ms\<rparr>"

definition set_type_generics :: "(hash_item list \<Rightarrow> u64) \<Rightarrow> concrete_type list \<Rightarrow> generic_lookup \<Rightarrow> generic_lookup" where
  "set_type_generics hasher ts gl = gl\<lparr>lookup_hash := compute_hash hasher ts (method_generics gl), type_generics := ts\<rparr>"

definition set_method_generics :: "(hash_item list \<Rightarrow> u64) \<Rightarrow> concrete_type list \<Rightarrow> generic_lookup \<Rightarrow> generic_lookup" where
  "set_method_generics hasher ms gl = gl\<lparr>lookup_hash := compute_hash hasher (type_generics gl) ms, method_generics := ms\<rparr>"

definition lookup_eq :: "generic_lookup \<Rightarrow> generic_lookup \<Rightarrow> bool" where
  "lookup_eq a b \<longleftrightarrow> list_all2 concrete_eq (type_generics a) (type_generics b) \<and>
     list_all2 concrete_eq (method_generics a) (method_generics b)"

definition bounded_generic_arg :: "concrete_type list \<Rightarrow> nat \<Rightarrow> (type_resolution_error, concrete_type) outcome" where
  "bounded_generic_arg gs i = (if i < length gs then Ok (gs ! i) else Err (GenericIndexOutOfBounds i (length gs)))"

definition type_arg :: "generic_lookup \<Rightarrow> nat \<Rightarrow> (type_resolution_error, concrete_type) outcome" where
  "type_arg gl = bounded_generic_arg (type_generics gl)"

definition method_arg :: "generic_lookup \<Rightarrow> nat \<Rightarrow> (type_resolution_error, concrete_type) outcome" where
  "method_arg gl = bounded_generic_arg (method_generics gl)"

section \<open>Specialization\<close>

definition checked_minus :: "nat \<Rightarrow> nat \<Rightarrow> nat option" where
  "checked_minus a b = (if b \<le> a then Some (a - b) else None)"

fun first_in :: "'a list \<Rightarrow> nat option list \<Rightarrow> 'a option" where
  "first_in xs [] = None"
| "first_in xs (None # is) = first_in xs is"
| "first_in xs (Some i # is) = (if i < length xs then Some (xs ! i) else first_in xs is)"

definition lookup_method_generic_with_fallback_indices :: "generic_lookup \<Rightarrow> nat \<Rightarrow> concrete_type option" where
  "lookup_method_generic_with_fallback_indices gl i =
     (let type_arity = length (type_generics gl); method_arity = length (method_generics gl) in
      first_in (method_generics gl)
        [Some i, checked_minus i type_arity, checked_minus i (type_arity + 1), checked_minus i method_arity,
         checked_minus i (method_arity + 1), checked_minus i 1])"

definition type_generic_slot :: "generic_lookup \<Rightarrow> nat \<Rightarrow> (type_resolution_error, concrete_type) outcome" where
  "type_generic_slot gl i =
     (if i < length (type_generics gl) then Ok (type_generics gl ! i)
      else case lookup_method_generic_with_fallback_indices gl i of
        Some ty \<Rightarrow> Ok ty
      | None \<Rightarrow> Err (GenericIndexOutOfBounds i (length (type_generics gl))))"

definition method_generic_slot :: "generic_lookup \<Rightarrow> nat \<Rightarrow> (type_resolution_error, concrete_type) outcome" where
  "method_generic_slot gl i =
     (if i < length (method_generics gl) then Ok (method_generics gl ! i)
      else case lookup_method_generic_with_fallback_indices gl i of
        Some ty \<Rightarrow> Ok ty
      | None \<Rightarrow>
          (let method_arity = length (method_generics gl) in
           case first_in (type_generics gl)
                  [Some i, checked_minus i method_arity, checked_minus i (method_arity + 1), checked_minus i 1] of
             Some ty \<Rightarrow> Ok ty
           | None \<Rightarrow> Err (GenericIndexOutOfBounds i method_arity)))"

definition base_children :: "'a base_type \<Rightarrow> 'a list" where
  "base_children b = (case b of
     BType (GenericSource _ ps) _ \<Rightarrow> ps | BVector _ x \<Rightarrow> [x] | BArray x _ \<Rightarrow> [x]
   | BValuePointer _ (Some x) \<Rightarrow> [x] | BFunctionPointer _ xs \<Rightarrow> xs | _ \<Rightarrow> [])"

text \<open>Every child is specialized; of several errors the last one is reported.\<close>

definition last_error :: "('e, 'a) outcome list \<Rightarrow> 'e option" where
  "last_error rs = fold (\<lambda>r acc. case r of Err e \<Rightarrow> Some e | _ \<Rightarrow> acc) rs None"

primrec make_concrete :: "generic_lookup \<Rightarrow> nat \<Rightarrow> method_type \<Rightarrow> (type_resolution_error, concrete_type) outcome" where
  "make_concrete gl res (MBase b) =
     (let rs = map_base_type (make_concrete gl res) b in
      case last_error (base_children rs) of
        Some e \<Rightarrow> Err e
      | None \<Rightarrow> Ok (ConcreteType res (map_base_type (\<lambda>r. case r of Ok c \<Rightarrow> c | _ \<Rightarrow> ConcreteType res BBoolean) rs)))"
| "make_concrete gl res (TypeGeneric i) = type_generic_slot gl i"
| "make_concrete gl res (MethodGeneric i) = method_generic_slot gl i"

datatype member_type = MemberBase "member_type base_type" | MemberTypeGeneric nat

primrec method_of_member :: "member_type \<Rightarrow> method_type" where
  "method_of_member (MemberBase b) = MBase (map_base_type method_of_member b)"
| "method_of_member (MemberTypeGeneric i) = TypeGeneric i"

definition member_to_method_type :: "member_type type_source \<Rightarrow> method_type" where
  "member_to_method_type s = MBase (BType (map_type_source method_of_member s) None)"

section \<open>The arguments of a concrete type\<close>

definition lookup_cache_capacity :: nat where
  "lookup_cache_capacity = 512"

type_synonym lookup_cache = "(concrete_type \<times> concrete_type list) list"

text \<open>The most recently used entries first; keys are compared as types are.\<close>

definition make_lookup :: "(hash_item list \<Rightarrow> u64) \<Rightarrow> concrete_type \<Rightarrow> lookup_cache \<Rightarrow> generic_lookup \<times> lookup_cache" where
  "make_lookup hasher c cache =
     (case c_base c of
        BType (GenericSource _ ps) _ \<Rightarrow>
          (case find (\<lambda>(k, _). concrete_eq c k) cache of
             Some (k, vs) \<Rightarrow> (from_arcs hasher vs [], (k, vs) # remove1 (k, vs) cache)
           | None \<Rightarrow> (from_arcs hasher ps [], take lookup_cache_capacity ((c, ps) # cache)))
      | _ \<Rightarrow> (from_arcs hasher [] [], cache))"

section \<open>Identity and hashing agree\<close>

definition drop_kind :: "'a base_type \<Rightarrow> 'a base_type" where
  "drop_kind b = (case b of BType s _ \<Rightarrow> BType s None | _ \<Rightarrow> b)"

primrec erase :: "concrete_type \<Rightarrow> concrete_type" where
  "erase (ConcreteType r b) = ConcreteType r (drop_kind (map_base_type erase b))"

lemma children_eq_map:
  "(\<And>x. x \<in> set xs \<Longrightarrow> \<forall>c. f x c \<longleftrightarrow> g x = g c) \<Longrightarrow> children_eq (map f xs) ys \<longleftrightarrow> map g xs = map g ys"
  by (induction xs arbitrary: ys) (auto simp: children_eq_def list_all2_Cons1 Cons_eq_map_conv)

lemma source_eq_map:
  "(\<And>x. x \<in> set_type_source s \<Longrightarrow> \<forall>c. f x c \<longleftrightarrow> g x = g c) \<Longrightarrow>
   source_eq (map_type_source f s) t \<longleftrightarrow> map_type_source g s = map_type_source g t"
  by (cases s; cases t) (auto simp: source_eq_def children_eq_map [where g = g])

lemma rel_option_map_eq:
  "(\<And>x. p = Some x \<Longrightarrow> \<forall>c. f x c \<longleftrightarrow> g x = g c) \<Longrightarrow>
   rel_option (\<lambda>p. p) (map_option f p) q \<longleftrightarrow> map_option g p = map_option g q"
  by (cases p; cases q) simp_all

lemma base_eq_map:
  assumes "\<And>x. x \<in> set_base_type b \<Longrightarrow> \<forall>c. f x c \<longleftrightarrow> g x = g c"
  shows "base_type_eq_without_value_kind (map_base_type f b) b' \<longleftrightarrow>
    drop_kind (map_base_type g b) = drop_kind (map_base_type g b')"
  using assms
  by (cases b; cases b')
    (simp_all add: base_type_eq_without_value_kind_def drop_kind_def base_tag_def source_eq_map [where g = g]
       rel_option_map_eq [where g = g] children_eq_map [where g = g])

lemma concrete_eq_erase: "concrete_eq a b \<longleftrightarrow> erase a = erase b"
proof (induction a arbitrary: b)
  case (ConcreteType r base)
  show ?case by (cases b) (simp add: base_eq_map [where g = erase] ConcreteType)
qed

lemma hash_base_drop_kind: "hash_base_type_without_value_kind (map_base_type h (drop_kind b)) = hash_base_type_without_value_kind (map_base_type h b)"
  by (cases b) (simp_all add: hash_base_type_without_value_kind_def drop_kind_def base_tag_def)

lemma concrete_hash_erase: "concrete_hash hasher (erase c) = concrete_hash hasher c"
proof (induction c)
  case (ConcreteType r b)
  then show ?case by (simp add: hash_base_drop_kind base_type.map_comp o_def cong: base_type.map_cong)
qed

lemma concrete_eq_hash: "concrete_eq a b \<Longrightarrow> concrete_hash hasher a = concrete_hash hasher b"
  by (metis concrete_eq_erase concrete_hash_erase)

lemma concrete_eqs_erase: "list_all2 concrete_eq xs ys \<longleftrightarrow> map erase xs = map erase ys"
  by (induction xs arbitrary: ys) (auto simp: concrete_eq_erase list_all2_Cons1 Cons_eq_map_conv)

lemma concrete_eqs_hashes:
  "list_all2 concrete_eq xs ys \<Longrightarrow> length xs = length ys \<and> map (\<lambda>t. HashWord (concrete_hash hasher t)) xs = map (\<lambda>t. HashWord (concrete_hash hasher t)) ys"
  by (induction rule: list_all2_induct) (auto simp: concrete_eq_hash)

lemma concrete_eq_equivp: "equivp concrete_eq"
  by (rule equivpI) (auto simp: reflp_def symp_def transp_def concrete_eq_erase)

lemma lookup_eq_equivp: "equivp lookup_eq"
  by (rule equivpI) (auto simp: reflp_def symp_def transp_def lookup_eq_def concrete_eqs_erase)

lemma lookup_eq_hash: "lookup_eq a b \<Longrightarrow> compute_hash hasher (type_generics a) (method_generics a) = compute_hash hasher (type_generics b) (method_generics b)"
  using concrete_eqs_hashes [of "type_generics a" "type_generics b" hasher]
    concrete_eqs_hashes [of "method_generics a" "method_generics b" hasher]
  by (simp add: lookup_eq_def compute_hash_def)

text \<open>The memoized hash is the hash of the arguments.\<close>

definition hash_memo_ok :: "(hash_item list \<Rightarrow> u64) \<Rightarrow> generic_lookup \<Rightarrow> bool" where
  "hash_memo_ok hasher gl \<longleftrightarrow> lookup_hash gl = compute_hash hasher (type_generics gl) (method_generics gl)"

lemma hash_memo_kept [simp]:
  "hash_memo_ok hasher (from_arcs hasher ts ms)"
  "hash_memo_ok hasher gl \<Longrightarrow> hash_memo_ok hasher (set_type_generics hasher ts gl)"
  "hash_memo_ok hasher gl \<Longrightarrow> hash_memo_ok hasher (set_method_generics hasher ms gl)"
  by (simp_all add: hash_memo_ok_def from_arcs_def set_type_generics_def set_method_generics_def)

text \<open>
  C36: Two concrete types are equal exactly when they agree up to the value kinds inside them. This is an equivalence
  relation, equal types have equal hashes for every hash function, the same holds of generic lookups with their
  memoized hash, and the setters keep the memo the hash of the arguments.
\<close>

theorem concrete_identity:
  "(concrete_eq a b \<longleftrightarrow> erase a = erase b) \<and> equivp concrete_eq \<and> equivp lookup_eq \<and>
   (concrete_eq a b \<longrightarrow> concrete_hash hasher a = concrete_hash hasher b) \<and>
   (hash_memo_ok hasher gl \<longrightarrow> hash_memo_ok hasher (set_type_generics hasher ts gl) \<and> hash_memo_ok hasher (set_method_generics hasher ts gl)) \<and>
   (hash_memo_ok hasher gl \<longrightarrow> hash_memo_ok hasher gl' \<longrightarrow> lookup_eq gl gl' \<longrightarrow> lookup_hash gl = lookup_hash gl')"
  using lookup_eq_hash [of gl gl' hasher]
  by (simp add: concrete_eq_erase concrete_eq_equivp lookup_eq_equivp)
    (simp add: hash_memo_ok_def concrete_eq_erase [symmetric] concrete_eq_hash)

theorem concrete_identity_witness:
  "concrete_eq (ConcreteType 1 (BType (UserSource (Definition 2)) None)) (ConcreteType 1 (BType (UserSource (Definition 2)) (Some ValueKind))) \<and>
   concrete_hash (\<lambda>items. of_nat (length items)) (ConcreteType 1 (BType (UserSource (Definition 2)) None)) =
   concrete_hash (\<lambda>items. of_nat (length items)) (ConcreteType 1 (BType (UserSource (Definition 2)) (Some ValueKind))) \<and>
   hash_memo_ok (\<lambda>items. of_nat (length items))
     (set_type_generics (\<lambda>items. of_nat (length items)) [ConcreteType 1 BInt32] (from_arcs (\<lambda>items. of_nat (length items)) [] [])) \<and>
   lookup_hash (from_arcs (\<lambda>items. of_nat (length items)) [ConcreteType 1 BInt32] []) =
   lookup_hash (from_arcs (\<lambda>items. of_nat (length items)) [ConcreteType 1 BInt32] [])"
proof -
  let ?h = "\<lambda>items. of_nat (length items) :: u64"
  have "concrete_eq (ConcreteType 1 (BType (UserSource (Definition 2)) None)) (ConcreteType 1 (BType (UserSource (Definition 2)) (Some ValueKind)))"
    by (simp add: base_type_eq_without_value_kind_def source_eq_def)
  then show ?thesis
    using concrete_identity [of "ConcreteType 1 (BType (UserSource (Definition 2)) None)"
        "ConcreteType 1 (BType (UserSource (Definition 2)) (Some ValueKind))" ?h "from_arcs ?h [] []" "[ConcreteType 1 BInt32]"
        "from_arcs ?h [] []"]
    by simp
qed

section \<open>Specialization is substitution\<close>

primrec instantiate :: "concrete_type list \<Rightarrow> concrete_type list \<Rightarrow> nat \<Rightarrow> method_type \<Rightarrow> concrete_type" where
  "instantiate ts ms res (MBase b) = ConcreteType res (map_base_type (instantiate ts ms res) b)"
| "instantiate ts ms res (TypeGeneric i) = ts ! i"
| "instantiate ts ms res (MethodGeneric i) = ms ! i"

primrec in_arity :: "nat \<Rightarrow> nat \<Rightarrow> method_type \<Rightarrow> bool" where
  "in_arity m n (MBase b) \<longleftrightarrow> list_all (\<lambda>x. x) (base_children (map_base_type (in_arity m n) b))"
| "in_arity m n (TypeGeneric i) \<longleftrightarrow> i < m"
| "in_arity m n (MethodGeneric i) \<longleftrightarrow> i < n"

primrec subst_method_type :: "method_type list \<Rightarrow> method_type list \<Rightarrow> method_type \<Rightarrow> method_type" where
  "subst_method_type ts ms (MBase b) = MBase (map_base_type (subst_method_type ts ms) b)"
| "subst_method_type ts ms (TypeGeneric i) = ts ! i"
| "subst_method_type ts ms (MethodGeneric i) = ms ! i"

lemma set_base_children: "set (base_children b) = set_base_type b"
  by (cases b) (auto simp: base_children_def split: type_source.splits option.splits elim: type_source.set_cases)

lemma base_children_map: "base_children (map_base_type f b) = map f (base_children b)"
  by (cases b) (auto simp: base_children_def split: type_source.splits option.splits)

lemma last_error_None: "last_error rs = None \<longleftrightarrow> (\<forall>e. Err e \<notin> set rs)"
  by (induction rs rule: rev_induct) (auto simp: last_error_def split: outcome.splits)

lemma last_error_Some: "last_error rs = Some e \<Longrightarrow> Err e \<in> set rs"
  by (induction rs rule: rev_induct) (auto simp: last_error_def split: outcome.splits)

lemma in_arity_MBase: "in_arity m n (MBase b) \<longleftrightarrow> (\<forall>x \<in> set_base_type b. in_arity m n x)"
  by (simp add: base_children_map list_all_iff set_base_children)

lemma make_concrete_children:
  assumes "\<forall>x \<in> set_base_type b. make_concrete gl res x = Ok (f x)"
  shows "make_concrete gl res (MBase b) = Ok (ConcreteType res (map_base_type f b))"
proof -
  have "last_error (base_children (map_base_type (make_concrete gl res) b)) = None"
    using assms by (auto simp: last_error_None base_children_map set_base_children)
  then show ?thesis using assms by (simp add: base_type.map_comp o_def cong: base_type.map_cong)
qed

lemma make_concrete_instantiate:
  "in_arity (length (type_generics gl)) (length (method_generics gl)) t \<Longrightarrow>
   make_concrete gl res t = Ok (instantiate (type_generics gl) (method_generics gl) res t)"
proof (induction t)
  case (MBase b)
  then show ?case using make_concrete_children [of b gl res] by (simp add: in_arity_MBase del: make_concrete.simps in_arity.simps)
qed (simp_all add: type_generic_slot_def method_generic_slot_def)

lemma instantiate_subst:
  "in_arity (length ts) (length ms) t \<Longrightarrow>
   instantiate us vs res (subst_method_type ts ms t) =
   instantiate (map (instantiate us vs res) ts) (map (instantiate us vs res) ms) res t"
  by (induction t) (simp_all add: in_arity_MBase base_type.map_comp o_def del: in_arity.simps(1) cong: base_type.map_cong)

lemma in_arity_subst:
  "in_arity (length ts) (length ms) t \<Longrightarrow> list_all (in_arity m n) (ts @ ms) \<Longrightarrow> in_arity m n (subst_method_type ts ms t)"
  by (induction t) (auto simp: in_arity_MBase base_type.set_map list_all_iff simp del: in_arity.simps(1))

text \<open>
  C22: When every generic slot a metadata type mentions is within the arity, specialization is substitution:
  specializing a type whose slots were replaced by other metadata types gives what specializing those types first,
  and then the type with the results as its arguments, gives, and it succeeds.
\<close>

theorem make_concrete_compose:
  assumes "in_arity (length ts) (length ms) t"
    and "list_all (in_arity (length (type_generics gl)) (length (method_generics gl))) (ts @ ms)"
  shows "\<exists>us vs c. map (make_concrete gl res) ts = map Ok us \<and> map (make_concrete gl res) ms = map Ok vs \<and>
    make_concrete gl res (subst_method_type ts ms t) = Ok c \<and> make_concrete (from_arcs hasher us vs) res t = Ok c"
proof -
  let ?f = "instantiate (type_generics gl) (method_generics gl) res"
  have args: "make_concrete gl res u = Ok (?f u)" if "u \<in> set (ts @ ms)" for u
    using assms(2) that by (auto simp: list_all_iff intro: make_concrete_instantiate)
  have "make_concrete gl res (subst_method_type ts ms t) = Ok (instantiate (map ?f ts) (map ?f ms) res t)"
    by (simp add: make_concrete_instantiate [OF in_arity_subst [OF assms]] instantiate_subst [OF assms(1)])
  moreover have "make_concrete (from_arcs hasher (map ?f ts) (map ?f ms)) res t = Ok (instantiate (map ?f ts) (map ?f ms) res t)"
    using make_concrete_instantiate [of "from_arcs hasher (map ?f ts) (map ?f ms)" t res] assms(1)
    by (simp add: from_arcs_def)
  moreover have "map (make_concrete gl res) ts = map Ok (map ?f ts)" "map (make_concrete gl res) ms = map Ok (map ?f ms)"
    using args by simp_all
  ultimately show ?thesis by blast
qed

theorem make_concrete_compose_witness:
  "\<exists>us vs c. map (make_concrete (from_arcs (\<lambda>_. 0) [ConcreteType 1 BInt32] []) 2) [MBase (BVector [] (TypeGeneric 0))] = map Ok us \<and>
     map (make_concrete (from_arcs (\<lambda>_. 0) [ConcreteType 1 BInt32] []) 2) [TypeGeneric 0] = map Ok vs \<and>
     make_concrete (from_arcs (\<lambda>_. 0) [ConcreteType 1 BInt32] []) 2
       (subst_method_type [MBase (BVector [] (TypeGeneric 0))] [TypeGeneric 0]
         (MBase (BType (GenericSource (Definition 7) [TypeGeneric 0, MethodGeneric 0]) None))) = Ok c \<and>
     make_concrete (from_arcs (\<lambda>_. 0) us vs) 2
       (MBase (BType (GenericSource (Definition 7) [TypeGeneric 0, MethodGeneric 0]) None)) = Ok c"
  using make_concrete_compose [of "[MBase (BVector [] (TypeGeneric 0))]" "[TypeGeneric 0]"
      "MBase (BType (GenericSource (Definition 7) [TypeGeneric 0, MethodGeneric 0]) None)"
      "from_arcs (\<lambda>_. 0) [ConcreteType 1 BInt32] []" 2 "\<lambda>_. 0"]
  by (simp add: base_children_def from_arcs_def)

lemma generic_slot_errors:
  "type_generic_slot gl i \<noteq> Panic" "method_generic_slot gl i \<noteq> Panic"
  "type_generic_slot gl i = Err e \<Longrightarrow> e = GenericIndexOutOfBounds i (length (type_generics gl)) \<and> length (type_generics gl) \<le> i"
  "method_generic_slot gl i = Err e \<Longrightarrow> e = GenericIndexOutOfBounds i (length (method_generics gl)) \<and> length (method_generics gl) \<le> i"
  by (auto simp: type_generic_slot_def method_generic_slot_def Let_def split: option.splits if_splits)

lemma make_concrete_total: "make_concrete gl res t \<noteq> Panic"
  by (cases t) (simp_all add: generic_slot_errors Let_def split: option.split)

lemma make_concrete_error:
  "make_concrete gl res t = Err e \<Longrightarrow>
   \<exists>i. e = GenericIndexOutOfBounds i (length (type_generics gl)) \<and> length (type_generics gl) \<le> i \<or>
       e = GenericIndexOutOfBounds i (length (method_generics gl)) \<and> length (method_generics gl) \<le> i"
proof (induction t)
  case (MBase b)
  obtain x where "x \<in> set_base_type b" "make_concrete gl res x = Err e"
    using MBase.prems last_error_Some [of "base_children (map_base_type (make_concrete gl res) b)"]
    by (auto simp: base_children_map set_base_children Let_def image_iff split: option.splits)
  then show ?case using MBase.IH by blast
qed (use generic_slot_errors in fastforce)+

section \<open>The cache of lookups\<close>

definition own_arguments :: "concrete_type \<Rightarrow> concrete_type list" where
  "own_arguments c = (case c_base c of BType (GenericSource _ ps) _ \<Rightarrow> ps | _ \<Rightarrow> [])"

definition lookup_cache_ok :: "lookup_cache \<Rightarrow> bool" where
  "lookup_cache_ok cache \<longleftrightarrow> list_all (\<lambda>(k, vs). vs = own_arguments k) cache \<and> length cache \<le> lookup_cache_capacity"

lemma own_arguments_erase: "own_arguments (erase c) = map erase (own_arguments c)"
proof (cases c)
  case (ConcreteType r b)
  then show ?thesis
  proof (cases b)
    case (BType s vk)
    then show ?thesis using ConcreteType by (cases s) (simp_all add: own_arguments_def drop_kind_def)
  qed (simp_all add: own_arguments_def drop_kind_def)
qed

lemma own_arguments_eq: "concrete_eq a b \<Longrightarrow> list_all2 concrete_eq (own_arguments b) (own_arguments a)"
  by (metis concrete_eq_erase concrete_eqs_erase own_arguments_erase)

lemma make_lookup_transparent:
  assumes "lookup_cache_ok cache"
  shows "lookup_eq (fst (make_lookup hasher c cache)) (from_arcs hasher (own_arguments c) []) \<and>
    lookup_cache_ok (snd (make_lookup hasher c cache)) \<and> hash_memo_ok hasher (fst (make_lookup hasher c cache))"
proof (cases "\<exists>u ps vk. c_base c = BType (GenericSource u ps) vk")
  case False
  then show ?thesis using assms
    by (auto simp: make_lookup_def own_arguments_def lookup_eq_def from_arcs_def hash_memo_ok_def split: base_type.split type_source.split)
next
  case True
  then obtain u ps vk where c: "c_base c = BType (GenericSource u ps) vk" by blast
  show ?thesis
  proof (cases "find (\<lambda>(k, _). concrete_eq c k) cache")
    case None
    have own: "own_arguments c = ps" using c by (simp add: own_arguments_def)
    have "list_all (\<lambda>(k, vs). vs = own_arguments k) (take lookup_cache_capacity ((c, ps) # cache))"
      using assms own by (auto simp: lookup_cache_ok_def list_all_iff dest!: in_set_takeD)
    then show ?thesis using None c own
      by (simp add: make_lookup_def lookup_eq_def lookup_cache_ok_def from_arcs_def hash_memo_ok_def concrete_eqs_erase)
  next
    case (Some e)
    obtain k vs where e: "e = (k, vs)" by (cases e)
    have hit: "(k, vs) \<in> set cache" "concrete_eq c k"
      using Some [unfolded e find_Some_iff] by (auto simp: in_set_conv_nth)
    have "Suc (length cache - Suc 0) = length cache" using hit(1) by (cases cache) auto
    moreover have "vs = own_arguments k" using hit(1) assms by (auto simp: lookup_cache_ok_def list_all_iff)
    ultimately show ?thesis using assms hit c Some e own_arguments_eq [OF hit(2)]
      by (auto simp: make_lookup_def lookup_eq_def from_arcs_def lookup_cache_ok_def hash_memo_ok_def
          list_all_iff length_remove1 dest: notin_set_remove1)
  qed
qed

end
