(* ===== verification/Type_Comparer.thy ===== *)
theory Type_Comparer
  imports Generics
begin

text \<open>
  Type identity, assignability and method lookup (\<open>dotnet-types/src/comparer.rs\<close>, with the parts of \<open>generics.rs\<close> and
  \<open>lib.rs\<close> it calls). The code is generic over a \<open>TypeResolver\<close>: the resolver and the decoded metadata are a record of
  functions, a parameter of every definition, with the resolver's own type of errors. A check may panic, so it returns a verdict. Loops whose length the
  metadata decides run on fuel, and \<^term>\<open>None\<close> is fuel that ran out. Arguments of a type are taken without the cache
  of lookups, which changes them in value kinds at most.
\<close>

section \<open>Metadata and the resolver\<close>

datatype param_type = PValue method_type | PRef method_type | PTypedReference

record managed_method =
  sig_instance :: bool
  sig_parameters :: "param_type list"
  sig_return :: "param_type option"

record method_def =
  m_name :: string
  m_public :: bool
  m_signature :: "managed_method option"

record property_def =
  prop_name :: string
  getter :: "method_def option"
  setter :: "method_def option"
  prop_other :: "method_def list"

record event_def =
  event_name :: string
  add_listener :: method_def
  remove_listener :: method_def
  raise_event :: "method_def option"
  event_other :: "method_def list"

datatype variance = Invariant | Covariant | Contravariant

record type_def =
  def_name :: string
  def_namespace :: "string option"
  nested_type_name :: string
  def_interface :: bool
  def_abstract :: bool
  extends :: "member_type type_source option"
  implements :: "member_type type_source list"
  generic_parameters :: "variance list"
  def_methods :: "method_def list"
  def_properties :: "property_def list"
  def_events :: "event_def list"

record type_desc =
  td_resolution :: nat
  td_index :: nat

record 'err type_world =
  locate_type :: "nat \<Rightarrow> user_type \<Rightarrow> 'err + type_desc"
  find_concrete_type :: "concrete_type \<Rightarrow> 'err + type_desc"
  canonical_type_name :: "string \<Rightarrow> string"
  user_type_name :: "nat \<Rightarrow> user_type \<Rightarrow> string"
  definitions :: "type_desc \<Rightarrow> type_def"
  arc_address :: "concrete_type \<Rightarrow> nat \<Rightarrow> nat"

type_synonym verdict = "(type_resolution_error, bool) outcome"

definition desc_is_null :: "type_desc \<Rightarrow> bool" where
  "desc_is_null td \<longleftrightarrow> td_resolution td = 0"

definition desc_definition :: "'err type_world \<Rightarrow> type_desc \<Rightarrow> (type_resolution_error, type_def) outcome" where
  "desc_definition w td = (if desc_is_null td then Panic else Ok (definitions w td))"

definition desc_type_name :: "'err type_world \<Rightarrow> type_desc \<Rightarrow> string" where
  "desc_type_name w td = (if desc_is_null td then ''UNRESOLVED_TYPE_DEF'' else nested_type_name (definitions w td))"

text \<open>A conjunction that stops at the first verdict that is not true.\<close>

fun all_hold :: "('e, bool) outcome list \<Rightarrow> ('e, bool) outcome" where
  "all_hold [] = Ok True"
| "all_hold (v # vs) = and_then v (\<lambda>b. if b then all_hold vs else Ok False)"

section \<open>Comparing types\<close>

datatype type_identity = CanonicalNameFallback | DefinitionNameFallback

datatype resolution_failure = ReturnFalse | PanicOnFailure | CompareResultsThenReturnFalse

record comparison_policy =
  policy_identity :: type_identity
  policy_failure :: resolution_failure

definition TYPES_EQUAL :: comparison_policy where
  "TYPES_EQUAL = \<lparr>policy_identity = CanonicalNameFallback, policy_failure = ReturnFalse\<rparr>"

definition CONCRETE_EQUALS_BASE_TYPE :: comparison_policy where
  "CONCRETE_EQUALS_BASE_TYPE = \<lparr>policy_identity = DefinitionNameFallback, policy_failure = PanicOnFailure\<rparr>"

definition CONCRETE_TYPES_EQUAL :: comparison_policy where
  "CONCRETE_TYPES_EQUAL = \<lparr>policy_identity = DefinitionNameFallback, policy_failure = CompareResultsThenReturnFalse\<rparr>"

definition resolve_generic_type :: "generic_lookup option \<Rightarrow> method_type \<Rightarrow> concrete_type option" where
  "resolve_generic_type generics ty =
     (case generics of None \<Rightarrow> None
      | Some gl \<Rightarrow> (case ty of
          TypeGeneric i \<Rightarrow> if i < length (type_generics gl) then Some (type_generics gl ! i) else None
        | MethodGeneric i \<Rightarrow> if i < length (method_generics gl) then Some (method_generics gl ! i) else None
        | _ \<Rightarrow> None))"

definition same_generic_placeholder :: "method_type \<Rightarrow> method_type \<Rightarrow> bool" where
  "same_generic_placeholder l r =
     (case l of
        TypeGeneric i \<Rightarrow> (case r of TypeGeneric j \<Rightarrow> i = j | _ \<Rightarrow> False)
      | MethodGeneric i \<Rightarrow> (case r of MethodGeneric j \<Rightarrow> i = j | _ \<Rightarrow> False)
      | _ \<Rightarrow> False)"

definition decompose_type_source :: "'a type_source \<Rightarrow> user_type \<times> 'a list" where
  "decompose_type_source s = (case s of UserSource u \<Rightarrow> (u, []) | GenericSource u ps \<Rightarrow> (u, ps))"

definition resolve_type_with_policy ::
    "'err type_world \<Rightarrow> nat \<Rightarrow> user_type \<Rightarrow> comparison_policy \<Rightarrow> (type_resolution_error, type_desc option) outcome" where
  "resolve_type_with_policy w res u p =
     (case locate_type w res u of
        Inr td \<Rightarrow> Ok (Some td)
      | Inl _ \<Rightarrow> (case policy_failure p of PanicOnFailure \<Rightarrow> Panic | _ \<Rightarrow> Ok None))"

definition resolved_types_equal :: "'err type_world \<Rightarrow> type_desc \<Rightarrow> type_desc \<Rightarrow> comparison_policy \<Rightarrow> verdict" where
  "resolved_types_equal w l r p =
     (if l = r then Ok True
      else case policy_identity p of
        CanonicalNameFallback \<Rightarrow>
          Ok (\<not> desc_is_null l \<and> \<not> desc_is_null r \<and>
              canonical_type_name w (desc_type_name w l) = canonical_type_name w (desc_type_name w r))
      | DefinitionNameFallback \<Rightarrow>
          and_then (desc_definition w l) (\<lambda>dl. and_then (desc_definition w r) (\<lambda>dr.
            Ok (def_name dl = def_name dr \<and> def_namespace dl = def_namespace dr))))"

definition same_user_type :: "'err type_world \<Rightarrow> nat \<Rightarrow> user_type \<Rightarrow> nat \<Rightarrow> user_type \<Rightarrow> comparison_policy \<Rightarrow> verdict" where
  "same_user_type w lres u1 rres u2 p =
     (case policy_failure p of
        CompareResultsThenReturnFalse \<Rightarrow>
          (let l = locate_type w lres u1; r = locate_type w rres u2 in
           if l = r then Ok True
           else case l of Inl _ \<Rightarrow> Ok False
             | Inr td1 \<Rightarrow> (case r of Inl _ \<Rightarrow> Ok False | Inr td2 \<Rightarrow> resolved_types_equal w td1 td2 p))
      | _ \<Rightarrow>
          and_then (resolve_type_with_policy w lres u1 p) (\<lambda>l.
          case l of None \<Rightarrow> Ok False
          | Some td1 \<Rightarrow> and_then (resolve_type_with_policy w rres u2 p) (\<lambda>r.
              case r of None \<Rightarrow> Ok False | Some td2 \<Rightarrow> resolved_types_equal w td1 td2 p)))"

text \<open>The comparison of the children comes with the left type, as in \<^const>\<open>base_type_eq_without_value_kind\<close>.\<close>

definition normalized_base_types_equal ::
    "'err type_world \<Rightarrow> nat \<Rightarrow> ('a \<Rightarrow> verdict) base_type \<Rightarrow> nat \<Rightarrow> 'a base_type \<Rightarrow> comparison_policy \<Rightarrow> verdict" where
  "normalized_base_types_equal w lres l rres r p =
     (case l of
        BType s1 _ \<Rightarrow> (case r of
          BType s2 _ \<Rightarrow>
            (let (u1, g1) = decompose_type_source s1; (u2, g2) = decompose_type_source s2 in
             and_then (same_user_type w lres u1 rres u2 p) (\<lambda>same.
               if \<not> same then Ok False
               else if length g1 \<noteq> length g2 then Ok False
               else all_hold (map2 (\<lambda>eq x. eq x) g1 g2)))
        | _ \<Rightarrow> Ok False)
      | BVector _ eq \<Rightarrow> (case r of BVector _ x \<Rightarrow> eq x | _ \<Rightarrow> Ok False)
      | BArray eq _ \<Rightarrow> (case r of BArray x _ \<Rightarrow> eq x | _ \<Rightarrow> Ok False)
      | BValuePointer _ eq \<Rightarrow> (case r of
          BValuePointer _ x \<Rightarrow>
            (case eq of None \<Rightarrow> Ok (x = None) | Some e \<Rightarrow> (case x of Some y \<Rightarrow> e y | None \<Rightarrow> Ok False))
        | _ \<Rightarrow> Ok False)
      | BFunctionPointer _ _ \<Rightarrow> Ok False
      | _ \<Rightarrow> Ok (base_tag l = base_tag r))"

primrec concrete_equals_concrete :: "'err type_world \<Rightarrow> comparison_policy \<Rightarrow> concrete_type \<Rightarrow> concrete_type \<Rightarrow> verdict" where
  "concrete_equals_concrete w p (ConcreteType res b) = (\<lambda>c.
     if concrete_eq (ConcreteType res b) c then Ok True
     else normalized_base_types_equal w res (map_base_type (concrete_equals_concrete w p) b) (c_source c) (c_base c) p)"

primrec normalized_concrete_equals_method_type ::
    "'err type_world \<Rightarrow> comparison_policy \<Rightarrow> nat \<Rightarrow> generic_lookup option \<Rightarrow> concrete_type \<Rightarrow> method_type \<Rightarrow> verdict" where
  "normalized_concrete_equals_method_type w p mres mg (ConcreteType res b) = (\<lambda>mt.
     case resolve_generic_type mg mt of
       Some other \<Rightarrow> Ok (concrete_eq (ConcreteType res b) other)
     | None \<Rightarrow> (case mt of
         MBase bt \<Rightarrow>
           normalized_base_types_equal w res (map_base_type (normalized_concrete_equals_method_type w p mres mg) b) mres bt p
       | _ \<Rightarrow> Ok False))"

definition generic_or_base_equal ::
    "'err type_world \<Rightarrow> comparison_policy \<Rightarrow> nat \<Rightarrow> generic_lookup option \<Rightarrow> nat \<Rightarrow> generic_lookup option \<Rightarrow>
     method_type \<Rightarrow> (method_type \<Rightarrow> verdict) base_type option \<Rightarrow> method_type \<Rightarrow> verdict" where
  "generic_or_base_equal w p lres lg rres rg left children right =
     (if same_generic_placeholder left right then Ok True
      else case resolve_generic_type lg left of
        Some c \<Rightarrow> normalized_concrete_equals_method_type w p rres rg c right
      | None \<Rightarrow> (case resolve_generic_type rg right of
          Some c \<Rightarrow> normalized_concrete_equals_method_type w p lres lg c left
        | None \<Rightarrow> (case children of
            None \<Rightarrow> Ok False
          | Some lb \<Rightarrow> (case right of MBase rb \<Rightarrow> normalized_base_types_equal w lres lb rres rb p | _ \<Rightarrow> Ok False))))"

primrec normalized_method_types_equal ::
    "'err type_world \<Rightarrow> comparison_policy \<Rightarrow> nat \<Rightarrow> generic_lookup option \<Rightarrow> nat \<Rightarrow> generic_lookup option \<Rightarrow>
     method_type \<Rightarrow> method_type \<Rightarrow> verdict" where
  "normalized_method_types_equal w p lres lg rres rg (MBase b) =
     generic_or_base_equal w p lres lg rres rg (MBase b) (Some (map_base_type (normalized_method_types_equal w p lres lg rres rg) b))"
| "normalized_method_types_equal w p lres lg rres rg (TypeGeneric i) =
     generic_or_base_equal w p lres lg rres rg (TypeGeneric i) None"
| "normalized_method_types_equal w p lres lg rres rg (MethodGeneric i) =
     generic_or_base_equal w p lres lg rres rg (MethodGeneric i) None"

definition types_equal ::
    "'err type_world \<Rightarrow> nat \<Rightarrow> method_type \<Rightarrow> generic_lookup option \<Rightarrow> nat \<Rightarrow> method_type \<Rightarrow> generic_lookup option \<Rightarrow> verdict" where
  "types_equal w res1 a g1 res2 b g2 = normalized_method_types_equal w TYPES_EQUAL res1 g1 res2 g2 a b"

definition type_slices_equal ::
    "'err type_world \<Rightarrow> nat \<Rightarrow> method_type list \<Rightarrow> generic_lookup option \<Rightarrow> nat \<Rightarrow> method_type list \<Rightarrow> generic_lookup option \<Rightarrow> verdict" where
  "type_slices_equal w res1 as g1 res2 bs g2 =
     (if length as \<noteq> length bs then Ok False
      else all_hold (map2 (\<lambda>a b. types_equal w res1 a g1 res2 b g2) as bs))"

definition concrete_types_equal :: "'err type_world \<Rightarrow> concrete_type \<Rightarrow> concrete_type \<Rightarrow> verdict" where
  "concrete_types_equal w = concrete_equals_concrete w CONCRETE_TYPES_EQUAL"

definition concrete_equals_method_type ::
    "'err type_world \<Rightarrow> concrete_type \<Rightarrow> nat \<Rightarrow> method_type \<Rightarrow> generic_lookup option \<Rightarrow> verdict" where
  "concrete_equals_method_type w c res2 b g2 = normalized_concrete_equals_method_type w CONCRETE_EQUALS_BASE_TYPE res2 g2 c b"

definition concrete_equals_base_type ::
    "'err type_world \<Rightarrow> concrete_type \<Rightarrow> nat \<Rightarrow> method_type base_type \<Rightarrow> generic_lookup option \<Rightarrow> verdict" where
  "concrete_equals_base_type w c res2 b g2 =
     normalized_base_types_equal w (c_source c)
       (map_base_type (\<lambda>l r. concrete_equals_method_type w l res2 r g2) (c_base c)) res2 b CONCRETE_EQUALS_BASE_TYPE"

section \<open>Walks up the hierarchy\<close>

definition run_bind :: "('e, 'a) outcome option \<Rightarrow> ('a \<Rightarrow> ('e, 'b) outcome option) \<Rightarrow> ('e, 'b) outcome option" where
  "run_bind m f = (case m of None \<Rightarrow> None | Some (Ok a) \<Rightarrow> f a | Some (Err e) \<Rightarrow> Some (Err e) | Some Panic \<Rightarrow> Some Panic)"

lemma run_bind_cong [fundef_cong]:
  assumes "m = m'" and "\<And>a. m' = Some (Ok a) \<Longrightarrow> f a = g a"
  shows "run_bind m f = run_bind m' g"
  using assms by (simp add: run_bind_def split: option.split outcome.split)

definition own_lookup :: "concrete_type \<Rightarrow> generic_lookup" where
  "own_lookup c = fst (make_lookup (\<lambda>_. 0) c [])"

definition super_type :: "type_desc \<Rightarrow> concrete_type \<Rightarrow> member_type type_source \<Rightarrow> (type_resolution_error, concrete_type) outcome" where
  "super_type td c src = make_concrete (own_lookup c) (td_resolution td) (member_to_method_type src)"

text \<open>
  The walk for value types remembers the addresses of the descriptors it visited; where the allocator puts the
  descriptor of step \<open>i\<close> is \<open>addr i\<close>.
\<close>

fun value_type_walk :: "'err type_world \<Rightarrow> (nat \<Rightarrow> nat) \<Rightarrow> nat \<Rightarrow> nat \<Rightarrow> nat list \<Rightarrow> concrete_type \<Rightarrow> verdict option" where
  "value_type_walk w addr 0 i seen cur = None"
| "value_type_walk w addr (Suc n) i seen cur =
     (if addr i \<in> set seen then Some (Ok False)
      else case find_concrete_type w cur of
        Inl _ \<Rightarrow> Some (Ok False)
      | Inr td \<Rightarrow> run_bind (Some (desc_definition w td)) (\<lambda>def.
          if def_name def = ''ValueType'' \<and> def_namespace def = Some ''System'' then Some (Ok True)
          else case extends def of
            None \<Rightarrow> Some (Ok False)
          | Some src \<Rightarrow> (case super_type td cur src of
              Ok base \<Rightarrow> value_type_walk w addr n (Suc i) (addr i # seen) base
            | _ \<Rightarrow> Some (Ok False))))"

definition is_value_type :: "'err type_world \<Rightarrow> nat \<Rightarrow> concrete_type \<Rightarrow> verdict option" where
  "is_value_type w n c =
     (case c_base c of
        BType _ (Some ValueKind) \<Rightarrow> Some (Ok True)
      | BType _ _ \<Rightarrow> value_type_walk w (arc_address w c) n 0 [] c
      | b \<Rightarrow> Some (Ok (1 \<le> base_tag b \<and> base_tag b \<le> 14)))"

definition is_class :: "'err type_world \<Rightarrow> nat \<Rightarrow> concrete_type \<Rightarrow> verdict option" where
  "is_class w n c = run_bind (is_value_type w n c) (\<lambda>v.
     Some (Ok (\<not> v \<and>
       (case c_base c of BType _ _ \<Rightarrow> True | BObject \<Rightarrow> True | BString \<Rightarrow> True | BVector _ _ \<Rightarrow> True | BArray _ _ \<Rightarrow> True | _ \<Rightarrow> False))))"

definition is_interface :: "'err type_world \<Rightarrow> concrete_type \<Rightarrow> verdict" where
  "is_interface w c =
     (case find_concrete_type w c of
        Inl _ \<Rightarrow> Ok False
      | Inr td \<Rightarrow> map_outcome def_interface (desc_definition w td))"

definition is_nullable :: "'err type_world \<Rightarrow> concrete_type \<Rightarrow> verdict" where
  "is_nullable w c =
     (case find_concrete_type w c of
        Inl _ \<Rightarrow> Ok False
      | Inr td \<Rightarrow> map_outcome (\<lambda>def. def_name def = ''Nullable`1'' \<and> def_namespace def = Some ''System'') (desc_definition w td))"

fun has_public_parameterless :: "method_def list \<Rightarrow> verdict" where
  "has_public_parameterless [] = Ok False"
| "has_public_parameterless (m # ms) =
     (if m_name m = ''.ctor'' \<and> m_public m
      then case m_signature m of
          None \<Rightarrow> Panic
        | Some sig \<Rightarrow> if sig_parameters sig = [] then Ok True else has_public_parameterless ms
      else has_public_parameterless ms)"

definition has_default_constructor :: "'err type_world \<Rightarrow> nat \<Rightarrow> concrete_type \<Rightarrow> verdict option" where
  "has_default_constructor w n c = run_bind (is_value_type w n c) (\<lambda>v.
     if v then Some (Ok True)
     else case find_concrete_type w c of
       Inl _ \<Rightarrow> Some (Ok False)
     | Inr td \<Rightarrow> run_bind (Some (desc_definition w td)) (\<lambda>def.
         if def_abstract def then Some (Ok False) else Some (has_public_parameterless (def_methods def))))"

fun subclass_walk :: "'err type_world \<Rightarrow> nat \<Rightarrow> concrete_type list \<Rightarrow> concrete_type \<Rightarrow> concrete_type \<Rightarrow> verdict option" where
  "subclass_walk w 0 seen cur target = None"
| "subclass_walk w (Suc n) seen cur target =
     (if list_ex (concrete_eq cur) seen then Some (Ok False)
      else case find_concrete_type w cur of
        Inl _ \<Rightarrow> Some (Ok False)
      | Inr td \<Rightarrow> run_bind (Some (desc_definition w td)) (\<lambda>def.
          case extends def of
            None \<Rightarrow> Some (Ok False)
          | Some src \<Rightarrow> (case super_type td cur src of
              Ok base \<Rightarrow> run_bind (Some (concrete_types_equal w base target)) (\<lambda>eq.
                if eq then Some (Ok True) else subclass_walk w n (cur # seen) base target)
            | _ \<Rightarrow> Some (Ok False))))"

definition is_subclass_of :: "'err type_world \<Rightarrow> nat \<Rightarrow> concrete_type \<Rightarrow> concrete_type \<Rightarrow> verdict option" where
  "is_subclass_of w n source target = subclass_walk w n [] source target"

definition has_canonical_metadata_name :: "'err type_world \<Rightarrow> concrete_type \<Rightarrow> string \<Rightarrow> bool" where
  "has_canonical_metadata_name w c name =
     (case c_base c of
        BType s _ \<Rightarrow> c_source c \<noteq> 0 \<and> canonical_type_name w (user_type_name w (c_source c) (fst (decompose_type_source s))) = name
      | _ \<Rightarrow> False)"

definition is_system_enum :: "'err type_world \<Rightarrow> concrete_type \<Rightarrow> bool" where
  "is_system_enum w c = has_canonical_metadata_name w c ''System.Enum''"

definition is_system_value_type :: "'err type_world \<Rightarrow> concrete_type \<Rightarrow> bool" where
  "is_system_value_type w c = has_canonical_metadata_name w c ''System.ValueType''"

section \<open>Assignability\<close>

text \<open>The comparer's two tables: the answers it remembers and the questions it is working on.\<close>

record assign_state =
  assignability_cache :: "((concrete_type \<times> concrete_type) \<times> bool) list"
  assignability_in_progress :: "(concrete_type \<times> concrete_type) list"

type_synonym 'a checker = "assign_state \<Rightarrow> ((type_resolution_error, 'a) outcome \<times> assign_state) option"

definition new_comparer :: assign_state where
  "new_comparer = \<lparr>assignability_cache = [], assignability_in_progress = []\<rparr>"

definition of_run :: "(type_resolution_error, 'a) outcome option \<Rightarrow> 'a checker" where
  "of_run m = (\<lambda>st. map_option (\<lambda>r. (r, st)) m)"

definition check_bind :: "'a checker \<Rightarrow> ('a \<Rightarrow> 'b checker) \<Rightarrow> 'b checker" where
  "check_bind m f = (\<lambda>st. case m st of
     None \<Rightarrow> None
   | Some (Ok a, st') \<Rightarrow> f a st'
   | Some (Err e, st') \<Rightarrow> Some (Err e, st')
   | Some (Panic, st') \<Rightarrow> Some (Panic, st'))"

abbreviation answer :: "'a \<Rightarrow> 'a checker" where
  "answer a \<equiv> of_run (Some (Ok a))"

abbreviation of_verdict :: "(type_resolution_error, 'a) outcome \<Rightarrow> 'a checker" where
  "of_verdict v \<equiv> of_run (Some v)"

definition key_eq :: "concrete_type \<times> concrete_type \<Rightarrow> concrete_type \<times> concrete_type \<Rightarrow> bool" where
  "key_eq k l \<longleftrightarrow> concrete_eq (fst k) (fst l) \<and> concrete_eq (snd k) (snd l)"

fun variance_args ::
    "'err type_world \<Rightarrow> (concrete_type \<Rightarrow> concrete_type \<Rightarrow> bool checker) \<Rightarrow> variance list \<Rightarrow> (concrete_type \<times> concrete_type) list \<Rightarrow> bool checker" where
  "variance_args w assign vs [] = answer True"
| "variance_args w assign [] (_ # _) = of_verdict Panic"
| "variance_args w assign (v # vs) ((g1, g2) # gs) =
     check_bind
       (case v of
          Invariant \<Rightarrow> of_verdict (concrete_types_equal w g1 g2)
        | Covariant \<Rightarrow> assign g1 g2
        | Contravariant \<Rightarrow> assign g2 g1)
       (\<lambda>ok. if ok then variance_args w assign vs gs else answer False)"

definition compatible_with_variance ::
    "'err type_world \<Rightarrow> (concrete_type \<Rightarrow> concrete_type \<Rightarrow> bool checker) \<Rightarrow> concrete_type \<Rightarrow> concrete_type \<Rightarrow> bool checker" where
  "compatible_with_variance w assign source target =
     check_bind (of_verdict (concrete_types_equal w source target)) (\<lambda>eq.
       if eq then answer True
       else case c_base source of
         BType s1 _ \<Rightarrow> (case c_base target of
           BType s2 _ \<Rightarrow>
             (let (u1, g1) = decompose_type_source s1; (u2, g2) = decompose_type_source s2 in
              case locate_type w (c_source source) u1 of
                Inl _ \<Rightarrow> answer False
              | Inr td1 \<Rightarrow> (case locate_type w (c_source target) u2 of
                  Inl _ \<Rightarrow> answer False
                | Inr td2 \<Rightarrow>
                    if td1 \<noteq> td2 then answer False
                    else if length g1 \<noteq> length g2 then answer False
                    else check_bind (of_verdict (desc_definition w td1)) (\<lambda>def.
                           variance_args w assign (generic_parameters def) (zip g1 g2))))
         | _ \<Rightarrow> answer False)
       | _ \<Rightarrow> answer False)"

text \<open>One type's interfaces: either one fits the target, or the new ones join the queue.\<close>

fun scan_interfaces ::
    "'err type_world \<Rightarrow> (concrete_type \<Rightarrow> concrete_type \<Rightarrow> bool checker) \<Rightarrow> concrete_type \<Rightarrow> type_desc \<Rightarrow> concrete_type \<Rightarrow>
     member_type type_source list \<Rightarrow> concrete_type list \<Rightarrow> concrete_type list \<Rightarrow> (concrete_type list \<times> concrete_type list) option checker" where
  "scan_interfaces w assign target td cur [] queue seen = answer (Some (queue, seen))"
| "scan_interfaces w assign target td cur (src # srcs) queue seen =
     (case super_type td cur src of
        Ok itf \<Rightarrow> check_bind (compatible_with_variance w assign itf target) (\<lambda>ok.
          if ok then answer None
          else if list_ex (concrete_eq itf) seen then scan_interfaces w assign target td cur srcs queue seen
          else scan_interfaces w assign target td cur srcs (queue @ [itf]) (itf # seen))
      | _ \<Rightarrow> scan_interfaces w assign target td cur srcs queue seen)"

definition enqueue_base :: "type_desc \<Rightarrow> concrete_type \<Rightarrow> member_type type_source option \<Rightarrow> concrete_type list \<times> concrete_type list \<Rightarrow>
    concrete_type list \<times> concrete_type list" where
  "enqueue_base td cur src = (\<lambda>(queue, seen).
     case src of None \<Rightarrow> (queue, seen)
     | Some s \<Rightarrow> (case super_type td cur s of
         Ok base \<Rightarrow> if list_ex (concrete_eq base) seen then (queue, seen) else (queue @ [base], base # seen)
       | _ \<Rightarrow> (queue, seen)))"

fun interface_walk ::
    "'err type_world \<Rightarrow> (concrete_type \<Rightarrow> concrete_type \<Rightarrow> bool checker) \<Rightarrow> concrete_type \<Rightarrow> nat \<Rightarrow>
     concrete_type list \<Rightarrow> concrete_type list \<Rightarrow> bool checker" where
  "interface_walk w assign target 0 queue seen = of_run None"
| "interface_walk w assign target (Suc n) [] seen = answer False"
| "interface_walk w assign target (Suc n) (cur # queue) seen =
     (case find_concrete_type w cur of
        Inl _ \<Rightarrow> interface_walk w assign target n queue seen
      | Inr td \<Rightarrow> check_bind (of_verdict (desc_definition w td)) (\<lambda>def.
          check_bind (scan_interfaces w assign target td cur (implements def) queue seen) (\<lambda>r.
            case r of
              None \<Rightarrow> answer True
            | Some qs \<Rightarrow> (let qs' = enqueue_base td cur (extends def) qs in
                interface_walk w assign target n (fst qs') (snd qs')))))"

definition implements_interface ::
    "'err type_world \<Rightarrow> (concrete_type \<Rightarrow> concrete_type \<Rightarrow> bool checker) \<Rightarrow> nat \<Rightarrow> concrete_type \<Rightarrow> concrete_type \<Rightarrow> bool checker" where
  "implements_interface w assign n source target = interface_walk w assign target n [source] [source]"

definition is_assignable_to_impl ::
    "'err type_world \<Rightarrow> (concrete_type \<Rightarrow> concrete_type \<Rightarrow> bool checker) \<Rightarrow> nat \<Rightarrow> concrete_type \<Rightarrow> concrete_type \<Rightarrow> bool checker" where
  "is_assignable_to_impl w assign n source target =
     check_bind (of_verdict (concrete_types_equal w source target)) (\<lambda>eq. if eq then answer True else
     check_bind (compatible_with_variance w assign source target) (\<lambda>ok. if ok then answer True else
     if c_base target = BObject then answer True
     else if is_system_enum w target then of_run (is_subclass_of w n source target)
     else if is_system_value_type w target then of_run (is_value_type w n source)
     else check_bind (of_verdict (is_interface w target)) (\<lambda>itf.
       if itf then implements_interface w assign n source target
       else check_bind (of_run (is_class w n target)) (\<lambda>cls.
         if cls then of_run (is_subclass_of w n source target) else answer False))))"

definition memo_assign ::
    "(concrete_type \<Rightarrow> concrete_type \<Rightarrow> bool checker) \<Rightarrow> concrete_type \<Rightarrow> concrete_type \<Rightarrow> bool checker" where
  "memo_assign impl source target = (\<lambda>st.
     let key = (source, target) in
     case find (\<lambda>e. key_eq key (fst e)) (assignability_cache st) of
       Some e \<Rightarrow> Some (Ok (snd e), st)
     | None \<Rightarrow>
         if list_ex (key_eq key) (assignability_in_progress st) then Some (Ok True, st)
         else case impl source target (st\<lparr>assignability_in_progress := key # assignability_in_progress st\<rparr>) of
           None \<Rightarrow> None
         | Some (r, st') \<Rightarrow> (case r of
             Ok b \<Rightarrow> Some (Ok b, st'\<lparr>
               assignability_in_progress := filter (\<lambda>k. \<not> key_eq key k) (assignability_in_progress st'),
               assignability_cache := (key, b) # filter (\<lambda>e. \<not> key_eq key (fst e)) (assignability_cache st')\<rparr>)
           | _ \<Rightarrow> Some (r, st')))"

primrec is_assignable_to :: "'err type_world \<Rightarrow> nat \<Rightarrow> concrete_type \<Rightarrow> concrete_type \<Rightarrow> bool checker" where
  "is_assignable_to w 0 = (\<lambda>source target. of_run None)"
| "is_assignable_to w (Suc n) = memo_assign (is_assignable_to_impl w (is_assignable_to w n) n)"

section \<open>Signatures\<close>

datatype signature_mode = InvariantMode | VariantMode

definition param_types_equal ::
    "'err type_world \<Rightarrow> nat \<Rightarrow> param_type \<Rightarrow> generic_lookup option \<Rightarrow> nat \<Rightarrow> param_type \<Rightarrow> generic_lookup option \<Rightarrow> verdict" where
  "param_types_equal w res1 a g1 res2 b g2 =
     (case a of
        PValue l \<Rightarrow> (case b of PValue r \<Rightarrow> types_equal w res1 l g1 res2 r g2 | _ \<Rightarrow> Ok False)
      | PRef l \<Rightarrow> (case b of PRef r \<Rightarrow> types_equal w res1 l g1 res2 r g2 | _ \<Rightarrow> Ok False)
      | PTypedReference \<Rightarrow> Ok (b = PTypedReference))"

definition params_equal ::
    "'err type_world \<Rightarrow> nat \<Rightarrow> param_type list \<Rightarrow> generic_lookup option \<Rightarrow> nat \<Rightarrow> param_type list \<Rightarrow> generic_lookup option \<Rightarrow> verdict" where
  "params_equal w res1 as g1 res2 bs g2 =
     (if length as \<noteq> length bs then Ok False
      else all_hold (map2 (\<lambda>a b. param_types_equal w res1 a g1 res2 b g2) as bs))"

definition variance_assignable_method_types ::
    "(concrete_type \<Rightarrow> concrete_type \<Rightarrow> bool checker) \<Rightarrow> nat \<Rightarrow> method_type \<Rightarrow> generic_lookup \<Rightarrow>
     nat \<Rightarrow> method_type \<Rightarrow> generic_lookup \<Rightarrow> bool checker" where
  "variance_assignable_method_types assign sres src sgl tres tgt tgl =
     (case make_concrete sgl sres src of
        Ok s \<Rightarrow> (case make_concrete tgl tres tgt of Ok t \<Rightarrow> assign s t | _ \<Rightarrow> answer False)
      | _ \<Rightarrow> answer False)"

definition unwrap_lookup :: "generic_lookup option \<Rightarrow> generic_lookup" where
  "unwrap_lookup g = (case g of Some gl \<Rightarrow> gl | None \<Rightarrow> from_arcs (\<lambda>_. 0) [] [])"

definition signature_return_types_match ::
    "'err type_world \<Rightarrow> (concrete_type \<Rightarrow> concrete_type \<Rightarrow> bool checker) \<Rightarrow> signature_mode \<Rightarrow> nat \<Rightarrow> param_type option \<Rightarrow>
     generic_lookup option \<Rightarrow> nat \<Rightarrow> param_type option \<Rightarrow> generic_lookup option \<Rightarrow> bool checker" where
  "signature_return_types_match w assign mode res1 left g1 res2 right g2 =
     (case left of
        None \<Rightarrow> answer (right = None)
      | Some l \<Rightarrow> (case right of
          None \<Rightarrow> answer False
        | Some r \<Rightarrow> (case mode of
            InvariantMode \<Rightarrow> of_verdict (param_types_equal w res1 l g1 res2 r g2)
          | VariantMode \<Rightarrow>
              (case l of
                 PTypedReference \<Rightarrow> answer False
               | PValue lt \<Rightarrow> (case r of
                   PTypedReference \<Rightarrow> answer False
                 | PValue rt \<Rightarrow> variance_assignable_method_types assign res2 rt (unwrap_lookup g2) res1 lt (unwrap_lookup g1)
                 | PRef rt \<Rightarrow> variance_assignable_method_types assign res2 rt (unwrap_lookup g2) res1 lt (unwrap_lookup g1))
               | PRef lt \<Rightarrow> (case r of
                   PTypedReference \<Rightarrow> answer False
                 | PValue rt \<Rightarrow> variance_assignable_method_types assign res2 rt (unwrap_lookup g2) res1 lt (unwrap_lookup g1)
                 | PRef rt \<Rightarrow> variance_assignable_method_types assign res2 rt (unwrap_lookup g2) res1 lt (unwrap_lookup g1))))))"

definition signature_parameter_types_match ::
    "'err type_world \<Rightarrow> (concrete_type \<Rightarrow> concrete_type \<Rightarrow> bool checker) \<Rightarrow> signature_mode \<Rightarrow> nat \<Rightarrow> param_type \<Rightarrow>
     generic_lookup option \<Rightarrow> nat \<Rightarrow> param_type \<Rightarrow> generic_lookup option \<Rightarrow> bool checker" where
  "signature_parameter_types_match w assign mode res1 left g1 res2 right g2 =
     (case mode of
        InvariantMode \<Rightarrow> of_verdict (param_types_equal w res1 left g1 res2 right g2)
      | VariantMode \<Rightarrow> (case (left, right) of
          (PValue l, PValue r) \<Rightarrow> variance_assignable_method_types assign res1 l (unwrap_lookup g1) res2 r (unwrap_lookup g2)
        | _ \<Rightarrow> of_verdict (param_types_equal w res1 left g1 res2 right g2)))"

fun all_checked :: "bool checker list \<Rightarrow> bool checker" where
  "all_checked [] = answer True"
| "all_checked (c # cs) = check_bind c (\<lambda>ok. if ok then all_checked cs else answer False)"

definition signatures_match ::
    "'err type_world \<Rightarrow> (concrete_type \<Rightarrow> concrete_type \<Rightarrow> bool checker) \<Rightarrow> signature_mode \<Rightarrow> nat \<Rightarrow> managed_method \<Rightarrow>
     generic_lookup option \<Rightarrow> nat \<Rightarrow> managed_method \<Rightarrow> generic_lookup option \<Rightarrow> bool checker" where
  "signatures_match w assign mode res1 a g1 res2 b g2 =
     (if sig_instance a \<noteq> sig_instance b then answer False
      else if length (sig_parameters a) \<noteq> length (sig_parameters b) then answer False
      else check_bind (signature_return_types_match w assign mode res1 (sig_return a) g1 res2 (sig_return b) g2) (\<lambda>ok.
        if \<not> ok then answer False
        else all_checked (map2 (\<lambda>l r. signature_parameter_types_match w assign mode res1 l g1 res2 r g2)
               (sig_parameters a) (sig_parameters b))))"

section \<open>Finding a method\<close>

datatype method_member_index =
    MethodIndex nat | PropertyGetter nat | PropertySetter nat | PropertyOther nat nat
  | EventAdd nat | EventRemove nat | EventRaise nat | EventOther nat nat

record method_description =
  md_parent :: type_desc
  md_parent_generics :: generic_lookup
  md_resolution :: nat
  md_index :: method_member_index

definition nth_option :: "'a list \<Rightarrow> nat \<Rightarrow> 'a option" where
  "nth_option xs i = (if i < length xs then Some (xs ! i) else None)"

definition member_method :: "type_def \<Rightarrow> method_member_index \<Rightarrow> method_def option" where
  "member_method def idx =
     (case idx of
        MethodIndex i \<Rightarrow> nth_option (def_methods def) i
      | PropertyGetter i \<Rightarrow> Option.bind (nth_option (def_properties def) i) getter
      | PropertySetter i \<Rightarrow> Option.bind (nth_option (def_properties def) i) setter
      | PropertyOther i j \<Rightarrow> Option.bind (nth_option (def_properties def) i) (\<lambda>p. nth_option (prop_other p) j)
      | EventAdd i \<Rightarrow> map_option add_listener (nth_option (def_events def) i)
      | EventRemove i \<Rightarrow> map_option remove_listener (nth_option (def_events def) i)
      | EventRaise i \<Rightarrow> Option.bind (nth_option (def_events def) i) raise_event
      | EventOther i j \<Rightarrow> Option.bind (nth_option (def_events def) i) (\<lambda>e. nth_option (event_other e) j))"

definition description_method :: "'err type_world \<Rightarrow> method_description \<Rightarrow> (type_resolution_error, method_def) outcome" where
  "description_method w d = and_then (desc_definition w (md_parent d)) (\<lambda>def.
     case member_method def (md_index d) of Some m \<Rightarrow> Ok m | None \<Rightarrow> Panic)"

definition strip_prefix :: "string \<Rightarrow> string \<Rightarrow> string option" where
  "strip_prefix pre s = (if take (length pre) s = pre then Some (drop (length pre) s) else None)"

definition optional :: "(method_def \<Rightarrow> method_member_index \<times> method_def) \<Rightarrow> method_def option \<Rightarrow> (method_member_index \<times> method_def) list" where
  "optional f m = (case m of None \<Rightarrow> [] | Some x \<Rightarrow> [f x])"

definition named_accessors :: "type_def \<Rightarrow> string \<Rightarrow> (method_member_index \<times> method_def) list" where
  "named_accessors def name =
     (case strip_prefix ''get_'' name of
        Some pn \<Rightarrow> concat (map (\<lambda>(i, p). if prop_name p = pn then optional (Pair (PropertyGetter i)) (getter p) else [])
                             (enumerate 0 (def_properties def)))
      | None \<Rightarrow> (case strip_prefix ''set_'' name of
          Some pn \<Rightarrow> concat (map (\<lambda>(i, p). if prop_name p = pn then optional (Pair (PropertySetter i)) (setter p) else [])
                               (enumerate 0 (def_properties def)))
        | None \<Rightarrow> []))"

definition named_listeners :: "type_def \<Rightarrow> string \<Rightarrow> (method_member_index \<times> method_def) list" where
  "named_listeners def name =
     (case strip_prefix ''add_'' name of
        Some en \<Rightarrow> concat (map (\<lambda>(i, e). if event_name e = en then [(EventAdd i, add_listener e)] else []) (enumerate 0 (def_events def)))
      | None \<Rightarrow> (case strip_prefix ''remove_'' name of
          Some en \<Rightarrow> concat (map (\<lambda>(i, e). if event_name e = en then [(EventRemove i, remove_listener e)] else []) (enumerate 0 (def_events def)))
        | None \<Rightarrow> (case strip_prefix ''raise_'' name of
            Some en \<Rightarrow> concat (map (\<lambda>(i, e). if event_name e = en then optional (Pair (EventRaise i)) (raise_event e) else [])
                                 (enumerate 0 (def_events def)))
          | None \<Rightarrow> [])))"

definition property_members :: "nat \<times> property_def \<Rightarrow> (method_member_index \<times> method_def) list" where
  "property_members = (\<lambda>(i, p).
     map (\<lambda>(j, m). (PropertyOther i j, m)) (enumerate 0 (prop_other p)) @
     optional (Pair (PropertyGetter i)) (getter p) @ optional (Pair (PropertySetter i)) (setter p))"

definition event_members :: "nat \<times> event_def \<Rightarrow> (method_member_index \<times> method_def) list" where
  "event_members = (\<lambda>(i, e).
     map (\<lambda>(j, m). (EventOther i j, m)) (enumerate 0 (event_other e)) @
     [(EventAdd i, add_listener e), (EventRemove i, remove_listener e)] @ optional (Pair (EventRaise i)) (raise_event e))"

text \<open>The members in the order in which they are tried; the methods come first, the last declared one in front.\<close>

definition method_candidates :: "type_def \<Rightarrow> string \<Rightarrow> (method_member_index \<times> method_def) list" where
  "method_candidates def name =
     map (\<lambda>(i, m). (MethodIndex i, m)) (rev (enumerate 0 (def_methods def))) @
     named_accessors def name @ named_listeners def name @
     concat (map property_members (enumerate 0 (def_properties def))) @
     concat (map event_members (enumerate 0 (def_events def)))"

definition check_candidate ::
    "'err type_world \<Rightarrow> (concrete_type \<Rightarrow> concrete_type \<Rightarrow> bool checker) \<Rightarrow> type_desc \<Rightarrow> string \<Rightarrow> managed_method \<Rightarrow> nat \<Rightarrow>
     generic_lookup option \<Rightarrow> generic_lookup option \<Rightarrow> bool \<Rightarrow> method_def \<Rightarrow> bool checker" where
  "check_candidate w assign desc name sig sig_res sig_generics generics allow_variance m =
     (if m_name m \<noteq> name then answer False
      else case m_signature m of
        None \<Rightarrow> of_verdict Panic
      | Some m_sig \<Rightarrow>
          if length (sig_parameters m_sig) \<noteq> length (sig_parameters sig) then answer False
          else signatures_match w assign (if allow_variance then VariantMode else InvariantMode)
                 sig_res sig sig_generics (td_resolution desc) m_sig generics)"

fun first_candidate :: "(method_def \<Rightarrow> bool checker) \<Rightarrow> (method_member_index \<times> method_def) list \<Rightarrow> method_member_index option checker" where
  "first_candidate check [] = answer None"
| "first_candidate check ((idx, m) # cs) = check_bind (check m) (\<lambda>ok. if ok then answer (Some idx) else first_candidate check cs)"

definition find_method_in_type_internal ::
    "'err type_world \<Rightarrow> (concrete_type \<Rightarrow> concrete_type \<Rightarrow> bool checker) \<Rightarrow> type_desc \<Rightarrow> string \<Rightarrow> managed_method \<Rightarrow> nat \<Rightarrow>
     generic_lookup option \<Rightarrow> generic_lookup option \<Rightarrow> bool \<Rightarrow> method_description option checker" where
  "find_method_in_type_internal w assign desc name sig sig_res sig_generics generics allow_variance =
     check_bind (of_verdict (desc_definition w desc)) (\<lambda>def.
     check_bind (first_candidate (check_candidate w assign desc name sig sig_res sig_generics generics allow_variance)
                  (method_candidates def name)) (\<lambda>found.
     answer (map_option (\<lambda>idx. \<lparr>md_parent = desc, md_parent_generics = unwrap_lookup generics,
       md_resolution = td_resolution desc, md_index = idx\<rparr>) found)))"

definition find_method_in_type_with_substitution where
  "find_method_in_type_with_substitution w assign desc name sig sig_res generics allow_variance =
     find_method_in_type_internal w assign desc name sig sig_res (Some generics) (Some generics) allow_variance"

definition find_method_in_type where
  "find_method_in_type w assign desc name sig sig_res =
     find_method_in_type_internal w assign desc name sig sig_res None None False"

end
