(* ===== verification/Assignability.thy ===== *)
theory Assignability
  imports Type_Comparer
begin

text \<open>
  What the comparisons of \<open>Type_Comparer\<close> decide: type identity is the kernel of a canonical form, the walks over base
  classes and interfaces search exactly the ancestors, and the memo of assignability is not independent of the order
  of the questions.
\<close>

section \<open>Type identity\<close>

datatype 'err canonical =
    CNamed "'err + string \<times> string option" "'err canonical list"
  | CPrimitive nat
  | CVector "'err canonical" | CArray "'err canonical" | CPointer "'err canonical option"
  | CFunction concrete_type

definition type_key :: "'err type_world \<Rightarrow> 'err + type_desc \<Rightarrow> 'err + string \<times> string option" where
  "type_key w = map_sum id (\<lambda>td. (def_name (definitions w td), def_namespace (definitions w td)))"

definition canon_base :: "'err type_world \<Rightarrow> nat \<Rightarrow> concrete_type \<Rightarrow> 'err canonical base_type \<Rightarrow> 'err canonical" where
  "canon_base w res whole b =
     (case b of
        BType s _ \<Rightarrow> CNamed (type_key w (locate_type w res (fst (decompose_type_source s)))) (snd (decompose_type_source s))
      | BVector _ c \<Rightarrow> CVector c | BArray c _ \<Rightarrow> CArray c | BValuePointer _ c \<Rightarrow> CPointer c
      | BFunctionPointer _ _ \<Rightarrow> CFunction whole
      | _ \<Rightarrow> CPrimitive (base_tag b))"

text \<open>
  The form types are compared by: the name of the located definition and the arguments, element types without
  modifiers and array shapes, function pointers by identity.
\<close>

primrec canon :: "'err type_world \<Rightarrow> concrete_type \<Rightarrow> 'err canonical" where
  "canon w (ConcreteType res b) = canon_base w res (erase (ConcreteType res b)) (map_base_type (canon w) b)"

text \<open>The resolver returns no null descriptor and does not distinguish equal types.\<close>

definition resolver_ok :: "'err type_world \<Rightarrow> bool" where
  "resolver_ok w \<longleftrightarrow>
     (\<forall>res u td. locate_type w res u = Inr td \<longrightarrow> \<not> desc_is_null td) \<and>
     (\<forall>c td. find_concrete_type w c = Inr td \<longrightarrow> \<not> desc_is_null td) \<and>
     (\<forall>a b. concrete_eq a b \<longrightarrow> find_concrete_type w a = find_concrete_type w b)"

lemma drop_kind_map: "drop_kind (map_base_type f (drop_kind b)) = drop_kind (map_base_type f b)"
  by (cases b) (simp_all add: drop_kind_def)

lemma erase_idem [simp]: "erase (erase c) = erase c"
  by (induction c) (simp add: drop_kind_map base_type.map_comp o_def cong: base_type.map_cong)

lemma canon_base_drop_kind: "canon_base w res whole (map_base_type f (drop_kind b)) = canon_base w res whole (map_base_type f b)"
  by (cases b) (simp_all add: canon_base_def drop_kind_def base_tag_def)

lemma canon_erase: "canon w (erase c) = canon w c"
proof (induction c)
  case (ConcreteType r b)
  have e: "erase (ConcreteType r (drop_kind (map_base_type erase b))) = erase (ConcreteType r b)"
    using erase_idem [of "ConcreteType r b"] by simp
  show ?case using ConcreteType e
    by (simp add: canon_base_drop_kind base_type.map_comp o_def del: erase.simps cong: base_type.map_cong)
       (simp add: canon_base_drop_kind base_type.map_comp o_def cong: base_type.map_cong)
qed

lemma canon_cong: "erase a = erase b \<Longrightarrow> canon w a = canon w b"
  by (metis canon_erase)

lemma all_hold_map2:
  "(\<And>x. x \<in> set xs \<Longrightarrow> \<forall>c. f x c = Ok (g x = h c)) \<Longrightarrow> length xs = length ys \<Longrightarrow>
   all_hold (map2 (\<lambda>eq x. eq x) (map f xs) ys) = Ok (map g xs = map h ys)"
proof (induction xs arbitrary: ys)
  case (Cons x xs)
  then show ?case by (cases ys) simp_all
qed simp

lemma same_user_type_key:
  assumes "resolver_ok w"
  shows "same_user_type w r1 u1 r2 u2 CONCRETE_TYPES_EQUAL =
    Ok (type_key w (locate_type w r1 u1) = type_key w (locate_type w r2 u2))"
proof (cases "locate_type w r1 u1"; cases "locate_type w r2 u2")
  fix td1 td2 assume t: "locate_type w r1 u1 = Inr td1" "locate_type w r2 u2 = Inr td2"
  then have "\<not> desc_is_null td1" "\<not> desc_is_null td2" using assms by (auto simp: resolver_ok_def)
  then show ?thesis using t
    by (auto simp: same_user_type_def CONCRETE_TYPES_EQUAL_def type_key_def resolved_types_equal_def desc_definition_def)
qed (auto simp: same_user_type_def CONCRETE_TYPES_EQUAL_def type_key_def)

lemma decompose_map:
  "decompose_type_source (map_type_source f s) = (fst (decompose_type_source s), map f (snd (decompose_type_source s)))"
  "x \<in> set (snd (decompose_type_source s)) \<Longrightarrow> x \<in> set_type_source s"
  by (cases s; simp add: decompose_type_source_def)+

lemma named_types_equal:
  assumes "resolver_ok w" and "\<And>x. x \<in> set_type_source s \<Longrightarrow> \<forall>c. f x c = Ok (g x = g c)"
  shows "normalized_base_types_equal w r1 (map_base_type f (BType s vk)) r2 (BType t vk') CONCRETE_TYPES_EQUAL =
    Ok (canon_base w r1 e1 (map_base_type g (BType s vk)) = canon_base w r2 e2 (map_base_type g (BType t vk')))"
proof -
  obtain u1 g1 where s: "decompose_type_source s = (u1, g1)" by (cases "decompose_type_source s")
  obtain u2 g2 where t: "decompose_type_source t = (u2, g2)" by (cases "decompose_type_source t")
  have "\<And>x. x \<in> set g1 \<Longrightarrow> \<forall>c. f x c = Ok (g x = g c)" using assms(2) decompose_map(2) [of _ s] s by auto
  note args = all_hold_map2 [of g1 f g g g2, OF this]
  show ?thesis
    using map_eq_imp_length_eq [of g g1 g g2] args
    by (auto simp: normalized_base_types_equal_def canon_base_def same_user_type_key [OF assms(1)] decompose_map s t)
qed

lemma base_types_equal_canon:
  assumes "resolver_ok w" and "\<And>x. x \<in> set_base_type b \<Longrightarrow> \<forall>c. f x c = Ok (g x = g c)"
    and "\<nexists>m xs m' ys. b = BFunctionPointer m xs \<and> b' = BFunctionPointer m' ys"
  shows "normalized_base_types_equal w r1 (map_base_type f b) r2 b' CONCRETE_TYPES_EQUAL =
    Ok (canon_base w r1 e1 (map_base_type g b) = canon_base w r2 e2 (map_base_type g b'))"
proof (cases "\<exists>s vk. b = BType s vk")
  case True
  then obtain s vk where b: "b = BType s vk" by blast
  show ?thesis
  proof (cases "\<exists>t vk'. b' = BType t vk'")
    case True
    then show ?thesis using named_types_equal [OF assms(1), of s f g r1 vk r2 _ _ e1 e2] assms(2) b by auto
  next
    case False
    then show ?thesis using b by (cases b') (simp_all add: normalized_base_types_equal_def canon_base_def)
  qed
next
  case False
  then show ?thesis using assms(2,3)
    by (cases b; cases b')
       (simp_all add: normalized_base_types_equal_def canon_base_def base_tag_def split: option.split)
qed

lemma function_pointer_canon:
  "canon w (ConcreteType r (BFunctionPointer m xs)) = canon w (ConcreteType r' (BFunctionPointer m' ys)) \<longleftrightarrow>
   concrete_eq (ConcreteType r (BFunctionPointer m xs)) (ConcreteType r' (BFunctionPointer m' ys))"
  by (simp add: concrete_eq_erase canon_base_def del: concrete_eq.simps)

lemma concrete_equals_canon:
  assumes "resolver_ok w"
  shows "concrete_types_equal w a b = Ok (canon w a = canon w b)"
  unfolding concrete_types_equal_def
proof (induction a arbitrary: b)
  case (ConcreteType r x)
  obtain r' y where b: "b = ConcreteType r' y" by (cases b)
  show ?case
  proof (cases "concrete_eq (ConcreteType r x) b")
    case True
    then have "canon w (ConcreteType r x) = canon w b" by (intro canon_cong) (simp only: concrete_eq_erase)
    then show ?thesis using True by (simp del: canon.simps concrete_eq.simps)
  next
    case neq: False
    show ?thesis
    proof (cases "\<exists>m xs m' ys. x = BFunctionPointer m xs \<and> y = BFunctionPointer m' ys")
      case True
      then obtain m xs m' ys where fp: "x = BFunctionPointer m xs" "y = BFunctionPointer m' ys" by blast
      have "canon w (ConcreteType r x) \<noteq> canon w b" using neq function_pointer_canon [of w r m xs r' m' ys] fp b by blast
      then show ?thesis using neq fp b by (simp add: normalized_base_types_equal_def del: canon.simps concrete_eq.simps)
    next
      case False
      have ih: "\<forall>d. concrete_equals_concrete w CONCRETE_TYPES_EQUAL c d = Ok (canon w c = canon w d)" if "c \<in> set_base_type x" for c
        using ConcreteType [OF that] by blast
      show ?thesis using base_types_equal_canon [OF assms ih False] neq b by (simp del: concrete_eq.simps)
    qed
  qed
qed

section \<open>Specialization does not see value kinds\<close>

definition erase_lookup :: "generic_lookup \<Rightarrow> generic_lookup" where
  "erase_lookup gl = \<lparr>type_generics = map erase (type_generics gl), method_generics = map erase (method_generics gl), lookup_hash = 0\<rparr>"

lemma first_in_map: "first_in (map f xs) is = map_option f (first_in xs is)"
  by (induction xs "is" rule: first_in.induct) auto

lemma slot_erase:
  "type_generic_slot (erase_lookup gl) i = map_outcome erase (type_generic_slot gl i)"
  "method_generic_slot (erase_lookup gl) i = map_outcome erase (method_generic_slot gl i)"
  by (auto simp: type_generic_slot_def method_generic_slot_def erase_lookup_def first_in_map Let_def
      lookup_method_generic_with_fallback_indices_def split: option.split)

lemma last_error_map: "last_error (map (map_outcome f) rs) = last_error rs"
  by (induction rs rule: rev_induct) (auto simp: last_error_def split: outcome.splits)

lemma map_outcome_simps: "map_outcome f r = (case r of Ok a \<Rightarrow> Ok (f a) | Err e \<Rightarrow> Err e | Panic \<Rightarrow> Panic)"
  by (cases r) simp_all

lemma make_concrete_erase:
  "map_outcome erase (make_concrete (erase_lookup gl) res t) = map_outcome erase (make_concrete gl res t)"
proof (induction t)
  case (MBase b)
  let ?m = "make_concrete gl res" and ?m' = "make_concrete (erase_lookup gl) res"
  let ?u = "\<lambda>r. case r of Ok c \<Rightarrow> c | _ \<Rightarrow> ConcreteType res BBoolean"
  have "map (map_outcome erase) (base_children (map_base_type ?m' b)) = map (map_outcome erase) (base_children (map_base_type ?m b))"
    using MBase by (simp add: base_children_map set_base_children)
  then have errs: "last_error (base_children (map_base_type ?m' b)) = last_error (base_children (map_base_type ?m b))"
    by (metis last_error_map)
  have "erase (?u (?m' x)) = erase (?u (?m x))" if "x \<in> set_base_type b" for x
    using MBase [OF that] by (cases "?m' x"; cases "?m x") simp_all
  then have "map_base_type (\<lambda>x. erase (?u (?m' x))) b = map_base_type (\<lambda>x. erase (?u (?m x))) b"
    by (intro base_type.map_cong) simp_all
  then show ?case using errs by (simp add: Let_def base_type.map_comp o_def split: option.split)
next
  case (TypeGeneric i)
  show ?case by (cases "type_generic_slot gl i") (simp_all add: slot_erase)
next
  case (MethodGeneric i)
  show ?case by (cases "method_generic_slot gl i") (simp_all add: slot_erase)
qed

lemma own_lookup_arguments [simp]: "type_generics (own_lookup c) = own_arguments c" "method_generics (own_lookup c) = []"
  by (auto simp: own_lookup_def make_lookup_def own_arguments_def from_arcs_def split: base_type.split type_source.split)

lemma super_type_erase:
  assumes "erase a = erase b"
  shows "map_outcome erase (super_type td a src) = map_outcome erase (super_type td b src)"
proof -
  have "erase_lookup (own_lookup a) = erase_lookup (own_lookup b)"
    using assms by (simp add: erase_lookup_def own_arguments_erase [symmetric])
  then show ?thesis unfolding super_type_def by (metis make_concrete_erase)
qed

section \<open>Base classes and interfaces\<close>

definition ok_option :: "('e, 'a) outcome \<Rightarrow> 'a option" where
  "ok_option r = (case r of Ok a \<Rightarrow> Some a | _ \<Rightarrow> None)"

definition base_of :: "'err type_world \<Rightarrow> concrete_type \<Rightarrow> concrete_type option" where
  "base_of w c =
     (case find_concrete_type w c of
        Inl _ \<Rightarrow> None
      | Inr td \<Rightarrow> Option.bind (extends (definitions w td)) (\<lambda>src. ok_option (super_type td c src)))"

definition interfaces_of :: "'err type_world \<Rightarrow> concrete_type \<Rightarrow> concrete_type list" where
  "interfaces_of w c =
     (case find_concrete_type w c of
        Inl _ \<Rightarrow> []
      | Inr td \<Rightarrow> List.map_filter (\<lambda>src. ok_option (super_type td c src)) (implements (definitions w td)))"

lemma ok_option_erase: "map_outcome erase r = map_outcome erase s \<Longrightarrow> map_option erase (ok_option r) = map_option erase (ok_option s)"
  by (cases r; cases s) (simp_all add: ok_option_def)

lemma find_erase: "resolver_ok w \<Longrightarrow> erase a = erase b \<Longrightarrow> find_concrete_type w a = find_concrete_type w b"
  unfolding resolver_ok_def concrete_eq_erase by blast

lemma base_of_erase:
  assumes "resolver_ok w" and "erase a = erase b"
  shows "map_option erase (base_of w a) = map_option erase (base_of w b)"
  using ok_option_erase [OF super_type_erase [OF assms(2)]]
  by (auto simp: base_of_def find_erase [OF assms] split: sum.split bind_split option.split)

lemma map_filter_map: "map f (List.map_filter g xs) = List.map_filter (\<lambda>x. map_option f (g x)) xs"
  by (induction xs) (auto simp: List.map_filter_simps split: option.split)

lemma interfaces_of_erase:
  assumes "resolver_ok w" and "erase a = erase b"
  shows "map erase (interfaces_of w a) = map erase (interfaces_of w b)"
  using ok_option_erase [OF super_type_erase [OF assms(2)]]
  by (auto simp: interfaces_of_def map_filter_map find_erase [OF assms] split: sum.split)

definition extends_rel :: "'err type_world \<Rightarrow> (concrete_type \<times> concrete_type) set" where
  "extends_rel w = {(a, b). base_of w a = Some b}"

lemma subclass_walk_step:
  assumes "resolver_ok w"
  shows "subclass_walk w (Suc n) seen cur target =
    (if erase cur \<in> erase ` set seen then Some (Ok False)
     else case base_of w cur of
       None \<Rightarrow> Some (Ok False)
     | Some base \<Rightarrow> if canon w base = canon w target then Some (Ok True) else subclass_walk w n (cur # seen) base target)"
proof (cases "find_concrete_type w cur")
  case (Inr td)
  then have "\<not> desc_is_null td" using assms by (auto simp: resolver_ok_def)
  then show ?thesis using Inr
    by (cases "extends (definitions w td)"; cases "super_type td cur (the (extends (definitions w td)))")
      (auto simp: base_of_def ok_option_def desc_definition_def run_bind_def concrete_equals_canon [OF assms]
        concrete_eq_erase list_ex_iff image_iff)
qed (auto simp: base_of_def concrete_eq_erase list_ex_iff image_iff)

text \<open>When the walk meets a type again, the types it has seen are closed under taking the base class.\<close>

lemma closed_ancestors:
  assumes ok: "resolver_ok w"
    and closed: "\<forall>x \<in> S. \<exists>y. base_of w x = Some y \<and> erase y \<in> erase ` S \<and> \<not> P (erase y)"
    and anc: "(a, d) \<in> (extends_rel w)\<^sup>+" and a: "erase a \<in> erase ` S"
  shows "erase d \<in> erase ` S \<and> \<not> P (erase d)"
proof -
  have closed_step: "erase e \<in> erase ` S \<and> \<not> P (erase e)" if "erase c \<in> erase ` S" "base_of w c = Some e" for c e
  proof -
    from that(1) obtain x where x: "x \<in> S" "erase c = erase x" by blast
    with closed obtain y where "base_of w x = Some y" "erase y \<in> erase ` S" "\<not> P (erase y)" by blast
    then show ?thesis using base_of_erase [OF ok x(2)] that(2) by simp
  qed
  from anc show ?thesis
  proof (induction rule: trancl_induct)
    case (base y) then show ?case using closed_step [OF a] by (simp add: extends_rel_def)
  next
    case (step y z) then show ?case using closed_step [of y z] by (simp add: extends_rel_def)
  qed
qed

lemma subclass_walk_exact:
  assumes ok: "resolver_ok w"
  shows "finite S \<Longrightarrow> card (S - erase ` set seen) < n \<Longrightarrow>
    erase ` ((extends_rel w)\<^sup>* `` {cur}) \<subseteq> S \<Longrightarrow>
    \<forall>x \<in> set seen. \<exists>y. base_of w x = Some y \<and> y \<in> insert cur (set seen) \<and> canon w (erase y) \<noteq> canon w target \<Longrightarrow>
    subclass_walk w n seen cur target = Some (Ok (\<exists>d. (cur, d) \<in> (extends_rel w)\<^sup>+ \<and> canon w d = canon w target))"
proof (induction n arbitrary: seen cur)
  case (Suc n)
  show ?case
  proof (cases "erase cur \<in> erase ` set seen")
    case True
    have "\<forall>x \<in> set seen. \<exists>y. base_of w x = Some y \<and> erase y \<in> erase ` set seen \<and> \<not> canon w (erase y) = canon w target"
      using Suc.prems(4) True by (metis imageI insert_iff)
    from closed_ancestors [OF ok this _ True] show ?thesis
      using True by (auto simp: subclass_walk_step [OF ok] canon_erase simp del: subclass_walk.simps)
  next
    case fresh: False
    show ?thesis
    proof (cases "base_of w cur")
      case None
      then have "(cur, d) \<notin> (extends_rel w)\<^sup>+" for d by (auto simp: extends_rel_def dest: tranclD)
      then show ?thesis using None fresh by (simp add: subclass_walk_step [OF ok] del: subclass_walk.simps)
    next
      case (Some base)
      then have edge: "(cur, base) \<in> extends_rel w" by (simp add: extends_rel_def)
      have cur_base: "(cur, d) \<in> (extends_rel w)\<^sup>+ \<longleftrightarrow> (base, d) \<in> (extends_rel w)\<^sup>*" for d
      proof
        assume "(cur, d) \<in> (extends_rel w)\<^sup>+"
        then obtain z where "(cur, z) \<in> extends_rel w" "(z, d) \<in> (extends_rel w)\<^sup>*" by (metis tranclD)
        then show "(base, d) \<in> (extends_rel w)\<^sup>*" using Some by (simp add: extends_rel_def)
      qed (rule rtrancl_into_trancl2 [OF edge])
      have up: "(\<exists>d. (cur, d) \<in> (extends_rel w)\<^sup>+ \<and> Q d) \<longleftrightarrow> Q base \<or> (\<exists>d. (base, d) \<in> (extends_rel w)\<^sup>+ \<and> Q d)" for Q
        unfolding cur_base rtrancl_eq_or_trancl by blast
      have "S - erase ` set (cur # seen) \<subset> S - erase ` set seen" using Suc.prems(3) fresh by auto
      then have "card (S - erase ` set (cur # seen)) < n"
        using Suc.prems(2) psubset_card_mono [OF finite_Diff [OF Suc.prems(1)]] by (meson less_trans_Suc less_le_trans less_Suc_eq_le)
      moreover have "erase ` ((extends_rel w)\<^sup>* `` {base}) \<subseteq> S"
        using Suc.prems(3) edge by (auto intro: converse_rtrancl_into_rtrancl)
      moreover have "\<forall>x \<in> set (cur # seen). \<exists>y. base_of w x = Some y \<and> y \<in> insert base (set (cur # seen)) \<and> canon w (erase y) \<noteq> canon w target"
        if "canon w base \<noteq> canon w target"
        using Suc.prems(4) Some that by (auto simp: canon_erase)
      ultimately have "subclass_walk w n (cur # seen) base target =
          Some (Ok (\<exists>d. (base, d) \<in> (extends_rel w)\<^sup>+ \<and> canon w d = canon w target))"
        if "canon w base \<noteq> canon w target"
        using Suc.IH [OF Suc.prems(1)] that by blast
      then show ?thesis using Some fresh
        by (simp add: subclass_walk_step [OF ok] up [of "\<lambda>d. canon w d = canon w target"] del: subclass_walk.simps)
    qed
  qed
qed simp

section \<open>The search for an interface\<close>

text \<open>A target whose generic parameters, if it has any, are all invariant.\<close>

definition invariant_target :: "'err type_world \<Rightarrow> concrete_type \<Rightarrow> bool" where
  "invariant_target w t =
     (case c_base t of
        BType s _ \<Rightarrow> (case locate_type w (c_source t) (fst (decompose_type_source s)) of
          Inl _ \<Rightarrow> True
        | Inr td \<Rightarrow> length (snd (decompose_type_source s)) \<le> length (generic_parameters (definitions w td)) \<and>
            list_all ((=) Invariant) (generic_parameters (definitions w td)))
      | _ \<Rightarrow> True)"

lemma check_bind_answer [simp]: "check_bind (of_run (Some (Ok a))) f = f a"
  by (simp add: check_bind_def of_run_def)

lemma variance_args_invariant:
  assumes "resolver_ok w"
  shows "list_all ((=) Invariant) vs \<Longrightarrow> length gs \<le> length vs \<Longrightarrow>
    variance_args w assign vs gs = answer (list_all (\<lambda>(a, b). canon w a = canon w b) gs)"
proof (induction gs arbitrary: vs)
  case (Cons g gs)
  then show ?case by (cases vs; cases g) (auto simp: concrete_equals_canon [OF assms])
qed simp

lemma canon_named:
  "c_base c = BType s vk \<Longrightarrow> canon w c =
   CNamed (type_key w (locate_type w (c_source c) (fst (decompose_type_source s)))) (map (canon w) (snd (decompose_type_source s)))"
  by (cases c) (simp add: canon_base_def decompose_map)

lemma compatible_invariant:
  assumes ok: "resolver_ok w" and inv: "invariant_target w t"
  shows "compatible_with_variance w assign s t = answer (canon w s = canon w t)"
proof (cases "canon w s = canon w t \<or> (\<nexists>s1 k1 s2 k2. c_base s = BType s1 k1 \<and> c_base t = BType s2 k2)")
  case True
  then show ?thesis
    by (auto simp: compatible_with_variance_def concrete_equals_canon [OF ok] split: base_type.split)
next
  case False
  then obtain s1 k1 s2 k2 where b: "c_base s = BType s1 k1" "c_base t = BType s2 k2" and neq: "canon w s \<noteq> canon w t" by blast
  obtain u1 g1 where s: "decompose_type_source s1 = (u1, g1)" by (cases "decompose_type_source s1")
  obtain u2 g2 where t: "decompose_type_source s2 = (u2, g2)" by (cases "decompose_type_source s2")
  have args: "list_all (\<lambda>(a, b). canon w a = canon w b) (zip g1 g2) \<longleftrightarrow> map (canon w) g1 = map (canon w) g2"
    if "length g1 = length g2"
    using that by (induction g1 g2 rule: list_induct2) auto
  show ?thesis
  proof (cases "locate_type w (c_source s) u1"; cases "locate_type w (c_source t) u2")
    fix td1 td2 assume l: "locate_type w (c_source s) u1 = Inr td1" "locate_type w (c_source t) u2 = Inr td2"
    have "\<not> desc_is_null td1" using l ok by (auto simp: resolver_ok_def)
    moreover have "\<not> list_all (\<lambda>(a, b). canon w a = canon w b) (zip g1 g2)" if "td1 = td2" "length g1 = length g2"
      using neq args that l by (auto simp: canon_named [OF b(1)] canon_named [OF b(2)] s t)
    ultimately show ?thesis using neq l inv b
      by (auto simp: compatible_with_variance_def concrete_equals_canon [OF ok] s t desc_definition_def invariant_target_def
          variance_args_invariant [OF ok])
  qed (use neq b in \<open>auto simp: compatible_with_variance_def concrete_equals_canon [OF ok] s t\<close>)
qed

definition enqueue :: "concrete_type \<Rightarrow> concrete_type list \<times> concrete_type list \<Rightarrow> concrete_type list \<times> concrete_type list" where
  "enqueue c = (\<lambda>(queue, seen). if erase c \<in> erase ` set seen then (queue, seen) else (queue @ [c], c # seen))"

definition supers :: "'err type_world \<Rightarrow> concrete_type \<Rightarrow> concrete_type list" where
  "supers w c = interfaces_of w c @ (case base_of w c of None \<Rightarrow> [] | Some b \<Rightarrow> [b])"

lemma scan_interfaces_fold:
  assumes "resolver_ok w" and "invariant_target w t"
  shows "scan_interfaces w assign t td cur srcs queue seen =
    (let itfs = List.map_filter (\<lambda>src. ok_option (super_type td cur src)) srcs in
     answer (if \<exists>i \<in> set itfs. canon w i = canon w t then None else Some (fold enqueue itfs (queue, seen))))"
proof (induction srcs arbitrary: queue seen)
  case (Cons src srcs)
  then show ?case
    by (cases "super_type td cur src")
      (auto simp: ok_option_def List.map_filter_simps compatible_invariant [OF assms] enqueue_def list_ex_iff
        concrete_eq_erase image_iff Let_def)
qed (simp add: List.map_filter_simps)

lemma enqueue_base_fold:
  "enqueue_base td cur src qs =
   fold enqueue (case Option.bind src (\<lambda>s. ok_option (super_type td cur s)) of None \<Rightarrow> [] | Some b \<Rightarrow> [b]) qs"
  by (cases src; cases qs; cases "super_type td cur (the src)")
    (auto simp: enqueue_base_def enqueue_def ok_option_def list_ex_iff concrete_eq_erase image_iff)

lemma interface_walk_step:
  assumes "resolver_ok w" and "invariant_target w t"
  shows "interface_walk w assign t (Suc n) (cur # queue) seen =
    (if \<exists>i \<in> set (interfaces_of w cur). canon w i = canon w t then answer True
     else let qs = fold enqueue (supers w cur) (queue, seen) in interface_walk w assign t n (fst qs) (snd qs))"
proof (cases "find_concrete_type w cur")
  case (Inr td)
  then have "\<not> desc_is_null td" using assms by (auto simp: resolver_ok_def)
  then show ?thesis using Inr
    by (simp add: desc_definition_def scan_interfaces_fold [OF assms] interfaces_of_def supers_def base_of_def enqueue_base_fold Let_def)
qed (simp add: interfaces_of_def supers_def base_of_def)

definition super_rel :: "'err type_world \<Rightarrow> (concrete_type \<times> concrete_type) set" where
  "super_rel w = {(a, b). b \<in> set (supers w a)}"

lemma supers_erase:
  assumes "resolver_ok w" and "erase a = erase b"
  shows "erase ` set (supers w a) = erase ` set (supers w b)" and "erase ` set (interfaces_of w a) = erase ` set (interfaces_of w b)"
proof -
  show i: "erase ` set (interfaces_of w a) = erase ` set (interfaces_of w b)"
    using arg_cong [OF interfaces_of_erase [OF assms], of set] by simp
  show "erase ` set (supers w a) = erase ` set (supers w b)"
    using i base_of_erase [OF assms] by (cases "base_of w a"; cases "base_of w b") (simp_all add: supers_def image_Un)
qed

text \<open>What queueing the supertypes of one type does to the two lists.\<close>

lemma fold_enqueue:
  "\<exists>new. fold enqueue ns (queue, seen) = (queue @ rev new, new @ seen) \<and> set new \<subseteq> set ns \<and>
     erase ` set (new @ seen) = erase ` (set ns \<union> set seen) \<and>
     (distinct (map erase seen) \<longrightarrow> distinct (map erase (new @ seen)))"
proof (induction ns arbitrary: queue seen)
  case (Cons c ns)
  show ?case
  proof (cases "erase c \<in> erase ` set seen")
    case True
    obtain new where "fold enqueue ns (queue, seen) = (queue @ rev new, new @ seen)" "set new \<subseteq> set ns"
      "erase ` set (new @ seen) = erase ` (set ns \<union> set seen)" "distinct (map erase seen) \<longrightarrow> distinct (map erase (new @ seen))"
      using Cons by blast
    moreover have "enqueue c (queue, seen) = (queue, seen)" using True by (simp add: enqueue_def)
    ultimately show ?thesis using True by (intro exI [of _ new]) auto
  next
    case False
    obtain new where "fold enqueue ns (queue @ [c], c # seen) = ((queue @ [c]) @ rev new, new @ c # seen)" "set new \<subseteq> set ns"
      "erase ` set (new @ c # seen) = erase ` (set ns \<union> set (c # seen))"
      "distinct (map erase (c # seen)) \<longrightarrow> distinct (map erase (new @ c # seen))"
      using Cons by blast
    moreover have "enqueue c (queue, seen) = (queue @ [c], c # seen)" using False by (simp add: enqueue_def)
    ultimately show ?thesis using False by (intro exI [of _ "new @ [c]"]) auto
  qed
qed (intro exI [of _ "[]"], simp)

definition search_inv :: "'err type_world \<Rightarrow> concrete_type \<Rightarrow> concrete_type \<Rightarrow> concrete_type list \<Rightarrow> concrete_type list \<Rightarrow> bool" where
  "search_inv w source t queue seen \<longleftrightarrow>
     source \<in> set seen \<and> set queue \<subseteq> set seen \<and> set seen \<subseteq> (super_rel w)\<^sup>* `` {source} \<and> distinct (map erase seen) \<and>
     (\<forall>x \<in> set seen - set queue. (\<forall>i \<in> set (interfaces_of w x). canon w i \<noteq> canon w t) \<and>
        erase ` set (supers w x) \<subseteq> erase ` set seen)"

lemma search_finished:
  assumes ok: "resolver_ok w" and inv: "search_inv w source t [] seen" and reach: "(source, c) \<in> (super_rel w)\<^sup>*"
  shows "erase c \<in> erase ` set seen \<and> (\<forall>i \<in> set (interfaces_of w c). canon w i \<noteq> canon w t)"
proof -
  have closed: "erase ` set (supers w c) \<subseteq> erase ` set seen \<and> (\<forall>i \<in> set (interfaces_of w c). canon w i \<noteq> canon w t)"
    if "erase c \<in> erase ` set seen" for c
  proof -
    from that obtain x where x: "x \<in> set seen" "erase c = erase x" by blast
    have "canon w i \<noteq> canon w t" if "i \<in> set (interfaces_of w c)" for i
    proof -
      from that obtain j where "j \<in> set (interfaces_of w x)" "erase i = erase j"
        using supers_erase(2) [OF ok x(2)] by (metis imageE imageI)
      then show ?thesis using inv x(1) canon_cong [of i j w] by (auto simp: search_inv_def)
    qed
    then show ?thesis using supers_erase(1) [OF ok x(2)] inv x(1) by (auto simp: search_inv_def)
  qed
  have "erase c \<in> erase ` set seen" using reach
  proof (induction rule: rtrancl_induct)
    case base then show ?case using inv by (simp add: search_inv_def)
  next
    case (step y z) then show ?case using closed [of y] by (auto simp: super_rel_def)
  qed
  then show ?thesis using closed by blast
qed

lemma search_inv_step:
  assumes "search_inv w source t (cur # queue) seen" and "\<forall>i \<in> set (interfaces_of w cur). canon w i \<noteq> canon w t"
    and "fold enqueue (supers w cur) (queue, seen) = (queue @ rev new, new @ seen)" and "set new \<subseteq> set (supers w cur)"
    and "erase ` set (new @ seen) = erase ` (set (supers w cur) \<union> set seen)" and "distinct (map erase (new @ seen))"
  shows "search_inv w source t (queue @ rev new) (new @ seen)"
proof -
  have cur: "(source, cur) \<in> (super_rel w)\<^sup>*" using assms(1) by (auto simp: search_inv_def)
  then have "set new \<subseteq> (super_rel w)\<^sup>* `` {source}"
    using assms(4) by (auto simp: super_rel_def intro: rtrancl_into_rtrancl)
  moreover have "(\<forall>i \<in> set (interfaces_of w x). canon w i \<noteq> canon w t) \<and> erase ` set (supers w x) \<subseteq> erase ` set (new @ seen)"
    if "x \<in> set (new @ seen) - set (queue @ rev new)" for x
  proof (cases "x = cur")
    case True
    then show ?thesis using assms(2) unfolding assms(5) by blast
  next
    case False
    then have "x \<in> set seen - set (cur # queue)" using that by auto
    then show ?thesis using assms(1) unfolding assms(5) search_inv_def by blast
  qed
  moreover have "source \<in> set (new @ seen)" "set (queue @ rev new) \<subseteq> set (new @ seen)" "set seen \<subseteq> (super_rel w)\<^sup>* `` {source}"
    using assms(1) by (auto simp: search_inv_def)
  moreover have "set (new @ seen) \<subseteq> (super_rel w)\<^sup>* `` {source}" using calculation by simp
  ultimately show ?thesis using assms(6) unfolding search_inv_def by blast
qed

lemma interface_walk_exact:
  assumes ok: "resolver_ok w" and tgt: "invariant_target w t" and fin: "finite (erase ` ((super_rel w)\<^sup>* `` {source}))"
  shows "search_inv w source t queue seen \<Longrightarrow>
    length queue + card (erase ` ((super_rel w)\<^sup>* `` {source}) - erase ` set seen) < n \<Longrightarrow>
    interface_walk w assign t n queue seen =
      answer (\<exists>c i. (source, c) \<in> (super_rel w)\<^sup>* \<and> i \<in> set (interfaces_of w c) \<and> canon w i = canon w t)"
proof (induction n arbitrary: queue seen)
  case (Suc n)
  let ?R = "erase ` ((super_rel w)\<^sup>* `` {source})"
  show ?case
  proof (cases queue)
    case Nil
    then have "\<not> (\<exists>c i. (source, c) \<in> (super_rel w)\<^sup>* \<and> i \<in> set (interfaces_of w c) \<and> canon w i = canon w t)"
      using search_finished [OF ok, of source t seen] Suc.prems(1) by blast
    then show ?thesis by (simp only: Nil interface_walk.simps)
  next
    case (Cons cur rest)
    have cur: "(source, cur) \<in> (super_rel w)\<^sup>*" using Suc.prems(1) Cons by (auto simp: search_inv_def)
    show ?thesis
    proof (cases "\<exists>i \<in> set (interfaces_of w cur). canon w i = canon w t")
      case True
      then have "\<exists>c i. (source, c) \<in> (super_rel w)\<^sup>* \<and> i \<in> set (interfaces_of w c) \<and> canon w i = canon w t" using cur by blast
      then show ?thesis using True by (simp only: Cons interface_walk_step [OF ok tgt] if_True)
    next
      case False
      obtain new where new: "fold enqueue (supers w cur) (rest, seen) = (rest @ rev new, new @ seen)" "set new \<subseteq> set (supers w cur)"
        "erase ` set (new @ seen) = erase ` (set (supers w cur) \<union> set seen)" "distinct (map erase (new @ seen))"
        using fold_enqueue [of "supers w cur" rest seen] Suc.prems(1) by (auto simp: search_inv_def)
      have inv: "search_inv w source t (rest @ rev new) (new @ seen)"
        using search_inv_step [OF Suc.prems(1) [unfolded Cons] _ new] False by blast
      have "erase ` set new \<subseteq> ?R - erase ` set seen" "card (erase ` set new) = length new"
        using inv new(4) by (auto simp: search_inv_def distinct_card [of "map erase new", simplified])
      then have "length new + card (?R - erase ` set (new @ seen)) = card (?R - erase ` set seen)"
        using fin card_Diff_subset [of "erase ` set new" "?R - erase ` set seen"] card_mono [of "?R - erase ` set seen" "erase ` set new"]
        by (simp add: image_Un Diff_eq Int_assoc Int_commute [of "- erase ` set new"])
      then show ?thesis using Suc.IH [OF inv] Suc.prems(2) Cons new(1) False
        by (simp add: interface_walk_step [OF ok tgt] del: interface_walk.simps)
    qed
  qed
qed simp

lemma implements_interface_exact:
  assumes "resolver_ok w" "invariant_target w t" and fin: "finite (erase ` ((super_rel w)\<^sup>* `` {source}))"
    and n: "card (erase ` ((super_rel w)\<^sup>* `` {source})) < n"
  shows "implements_interface w assign n source t =
    answer (\<exists>c i. (source, c) \<in> (super_rel w)\<^sup>* \<and> i \<in> set (interfaces_of w c) \<and> canon w i = canon w t)"
proof -
  have "search_inv w source t [source] [source]" by (simp add: search_inv_def)
  moreover have "Suc (card (erase ` ((super_rel w)\<^sup>* `` {source}) - {erase source})) = card (erase ` ((super_rel w)\<^sup>* `` {source}))"
    using card_Suc_Diff1 [OF fin] by blast
  ultimately show ?thesis using interface_walk_exact [OF assms(1,2) fin, of "[source]" "[source]" n] n
    by (simp add: implements_interface_def)
qed

lemma is_subclass_of_exact:
  assumes ok: "resolver_ok w" and fin: "finite (erase ` ((super_rel w)\<^sup>* `` {source}))"
    and n: "card (erase ` ((super_rel w)\<^sup>* `` {source})) < n"
  shows "is_subclass_of w n source t = Some (Ok (\<exists>d. (source, d) \<in> (extends_rel w)\<^sup>+ \<and> canon w d = canon w t))"
proof -
  have "extends_rel w \<subseteq> super_rel w" by (auto simp: extends_rel_def super_rel_def supers_def)
  then have "erase ` ((extends_rel w)\<^sup>* `` {source}) \<subseteq> erase ` ((super_rel w)\<^sup>* `` {source})"
    using rtrancl_mono by blast
  then show ?thesis using subclass_walk_exact [OF ok fin, of "[]" n source t] n by (simp add: is_subclass_of_def)
qed

text \<open>
  What a fresh comparer answers for a target without variance: the types are the same, the target is the root of all
  types, or the target is found among the interfaces or the base classes of the source.
\<close>

definition assignable_spec :: "'err type_world \<Rightarrow> bool \<Rightarrow> bool \<Rightarrow> concrete_type \<Rightarrow> concrete_type \<Rightarrow> bool" where
  "assignable_spec w itf cls source t \<longleftrightarrow>
     canon w source = canon w t \<or> c_base t = BObject \<or>
     (if itf then \<exists>c i. (source, c) \<in> (super_rel w)\<^sup>* \<and> i \<in> set (interfaces_of w c) \<and> canon w i = canon w t
      else cls \<and> (\<exists>d. (source, d) \<in> (extends_rel w)\<^sup>+ \<and> canon w d = canon w t))"

end
