(* ===== verification/Assign_Props.thy ===== *)
theory Assign_Props
  imports Assignability
begin

text \<open>
  The properties of type identity and assignability, with a small world of types they are applied to: a class
  \<open>Derived : Base, IPlain\<close> and the mutually recursive pair \<open>C : IPair<ISink<C>, int>\<close> and \<open>E : ISink<IPair<E, bool>>\<close>,
  where the first parameter of \<open>IPair\<close> and that of \<open>ISink\<close> are contravariant.
\<close>

section \<open>A world of types\<close>

definition blank_def :: type_def where
  "blank_def = \<lparr>def_name = [], def_namespace = None, nested_type_name = [], def_interface = False, def_abstract = False,
     extends = None, implements = [], generic_parameters = [], def_methods = [], def_properties = [], def_events = []\<rparr>"

abbreviation named :: "nat \<Rightarrow> 'a type_source" where
  "named i \<equiv> UserSource (Definition i)"

definition member_named :: "nat \<Rightarrow> member_type list \<Rightarrow> member_type" where
  "member_named i args = MemberBase (BType (if args = [] then named i else GenericSource (Definition i) args) None)"

definition ty :: "nat \<Rightarrow> concrete_type list \<Rightarrow> concrete_type" where
  "ty i args = ConcreteType 1 (BType (if args = [] then named i else GenericSource (Definition i) args) None)"

definition sample_def :: "nat \<Rightarrow> type_def" where
  "sample_def i = blank_def\<lparr>def_name := replicate (Suc i) CHR ''T''\<rparr>"

definition sample_types :: "type_def list" where
  "sample_types =
    [(sample_def 0)\<lparr>extends := None\<rparr>,
     (sample_def 1)\<lparr>extends := Some (named 0), implements := [named 2]\<rparr>,
     (sample_def 2)\<lparr>def_interface := True\<rparr>,
     (sample_def 3)\<lparr>def_interface := True, generic_parameters := [Contravariant]\<rparr>,
     (sample_def 4)\<lparr>def_interface := True, generic_parameters := [Contravariant, Invariant]\<rparr>,
     (sample_def 5)\<lparr>implements := [GenericSource (Definition 4) [member_named 3 [member_named 5 []], MemberBase BInt32]]\<rparr>,
     (sample_def 6)\<lparr>implements := [GenericSource (Definition 3) [member_named 4 [member_named 6 [], MemberBase BBoolean]]]\<rparr>]"

definition sample_locate :: "nat \<Rightarrow> user_type \<Rightarrow> nat + type_desc" where
  "sample_locate res u = (case u of
     Definition i \<Rightarrow> if i < length sample_types then Inr \<lparr>td_resolution = 1, td_index = i\<rparr> else Inl i
   | Reference i \<Rightarrow> Inl i)"

definition sample_world :: "nat type_world" where
  "sample_world = \<lparr>
     locate_type = sample_locate,
     find_concrete_type = (\<lambda>c. case c_base c of BType s _ \<Rightarrow> sample_locate (c_source c) (fst (decompose_type_source s)) | _ \<Rightarrow> Inl 0),
     canonical_type_name = (\<lambda>s. s), user_type_name = (\<lambda>_ _. []),
     definitions = (\<lambda>td. sample_types ! td_index td),
     arc_address = (\<lambda>_ i. i)\<rparr>"

lemma sample_find_erase: "find_concrete_type sample_world (erase c) = find_concrete_type sample_world c"
proof (cases c)
  case (ConcreteType r b)
  then show ?thesis by (cases b) (simp_all add: sample_world_def drop_kind_def decompose_map)
qed

lemma sample_resolver: "resolver_ok sample_world"
  unfolding resolver_ok_def concrete_eq_erase
proof (intro conjI allI impI)
  show "find_concrete_type sample_world a = find_concrete_type sample_world b" if "erase a = erase b" for a b
    using that by (metis sample_find_erase)
qed (auto simp: sample_world_def sample_locate_def desc_is_null_def split: user_type.splits if_splits base_type.splits)

lemma reach_subset:
  assumes "source \<in> A" and "\<forall>a \<in> A. set (supers w a) \<subseteq> A"
  shows "(super_rel w)\<^sup>* `` {source} \<subseteq> A"
proof
  fix c assume "c \<in> (super_rel w)\<^sup>* `` {source}"
  then have "(source, c) \<in> (super_rel w)\<^sup>*" by simp
  then show "c \<in> A" by (induction rule: rtrancl_induct) (use assms in \<open>auto simp: super_rel_def\<close>)
qed

lemma sample_reach:
  "finite (erase ` ((super_rel sample_world)\<^sup>* `` {ty 1 []}))" "card (erase ` ((super_rel sample_world)\<^sup>* `` {ty 1 []})) < 4"
proof -
  have s: "supers sample_world (ty 0 []) = []" "supers sample_world (ty 1 []) = [ty 2 [], ty 0 []]" "supers sample_world (ty 2 []) = []"
    by code_simp+
  have sub: "(super_rel sample_world)\<^sup>* `` {ty 1 []} \<subseteq> set [ty 0 [], ty 1 [], ty 2 []]"
    by (rule reach_subset) (auto simp: s simp del: One_nat_def)
  then show "finite (erase ` ((super_rel sample_world)\<^sup>* `` {ty 1 []}))" by (meson finite_imageI finite_set finite_subset)
  have "card (erase ` ((super_rel sample_world)\<^sup>* `` {ty 1 []})) \<le> card (erase ` set [ty 0 [], ty 1 [], ty 2 []])"
    using sub by (intro card_mono image_mono) auto
  also have "\<dots> \<le> card (set [ty 0 [], ty 1 [], ty 2 []])" by (rule card_image_le) simp
  also have "\<dots> \<le> 3" by (rule order_trans [OF card_length]) simp
  finally show "card (erase ` ((super_rel sample_world)\<^sup>* `` {ty 1 []})) < 4" by simp
qed

section \<open>Type identity\<close>

text \<open>
  C37: For a resolver that returns no null descriptor and treats equal types alike, comparing two concrete types never
  panics and answers whether they have the same canonical form, so type identity is an equivalence relation that
  contains the equality of descriptors; modifiers and the shapes of arrays do not take part, so that two array
  types of different rank are the same type.
\<close>

theorem concrete_types_equal_canon:
  assumes "resolver_ok w"
  shows "concrete_types_equal w a b = Ok (canon w a = canon w b) \<and> (concrete_eq a b \<longrightarrow> canon w a = canon w b) \<and>
    concrete_types_equal w (ConcreteType r (BArray e sh)) (ConcreteType r' (BArray e sh')) = Ok True"
  using concrete_equals_canon [OF assms] canon_cong [of a b w] by (simp add: concrete_eq_erase canon_base_def del: concrete_eq.simps)

theorem concrete_types_equal_canon_witness:
  "resolver_ok sample_world \<and>
   concrete_types_equal sample_world (ty 3 [ty 5 []]) (ConcreteType 2 (BType (GenericSource (Definition 3) [ty 5 []]) (Some ClassKind))) = Ok True \<and>
   concrete_types_equal sample_world (ConcreteType 1 (BArray (ty 5 []) [2])) (ConcreteType 1 (BArray (ty 5 []) [3])) = Ok True"
  using sample_resolver concrete_types_equal_canon [OF sample_resolver, of "ty 3 [ty 5 []]" "ConcreteType 2 (BType (GenericSource (Definition 3) [ty 5 []]) (Some ClassKind))" 1 "ty 5 []" "[2]" 1 "[3]"]
  by (simp add: ty_def canon_base_def decompose_type_source_def sample_world_def sample_locate_def)

section \<open>Assignability\<close>

text \<open>
  C14: For a resolver that returns no null descriptor and treats equal types alike, a target whose generic parameters
  are invariant and that is neither \<open>System.Enum\<close> nor \<open>System.ValueType\<close>, and a source with finitely many supertypes,
  the assignability check returns, with fuel for as many steps as there are supertypes, and a fresh comparer answers
  exactly the subtype relation: the same type, \<open>object\<close>, an interface that a supertype declares, or a strict base class,
  each up to type identity. It remembers that answer and leaves no question in progress.
\<close>

theorem is_assignable_exact:
  assumes "resolver_ok w" and "invariant_target w t" and "\<not> is_system_enum w t" and "\<not> is_system_value_type w t"
    and "is_interface w t = Ok itf" and "is_class w n t = Some (Ok cls)"
    and "finite (erase ` ((super_rel w)\<^sup>* `` {source}))" and "card (erase ` ((super_rel w)\<^sup>* `` {source})) < n"
  shows "is_assignable_to w (Suc n) source t new_comparer =
    Some (Ok (assignable_spec w itf cls source t),
      \<lparr>assignability_cache = [((source, t), assignable_spec w itf cls source t)], assignability_in_progress = []\<rparr>)"
proof -
  have "is_assignable_to_impl w (is_assignable_to w n) n source t = answer (assignable_spec w itf cls source t)"
    using assms
    by (simp add: is_assignable_to_impl_def assignable_spec_def concrete_equals_canon compatible_invariant
        implements_interface_exact is_subclass_of_exact)
  then show ?thesis by (simp add: memo_assign_def new_comparer_def of_run_def key_eq_def concrete_eq_erase)
qed

theorem is_assignable_exact_witness:
  "is_assignable_to sample_world 5 (ty 1 []) (ty 2 []) new_comparer =
     Some (Ok (assignable_spec sample_world True True (ty 1 []) (ty 2 [])),
       \<lparr>assignability_cache = [((ty 1 [], ty 2 []), assignable_spec sample_world True True (ty 1 []) (ty 2 []))],
        assignability_in_progress = []\<rparr>)"
proof -
  have "invariant_target sample_world (ty 2 [])" "\<not> is_system_enum sample_world (ty 2 [])" "\<not> is_system_value_type sample_world (ty 2 [])"
    "is_interface sample_world (ty 2 []) = Ok True" "is_class sample_world 4 (ty 2 []) = Some (Ok True)"
    by code_simp+
  from is_assignable_exact [OF sample_resolver this sample_reach] show ?thesis by (simp add: numeral_eq_Suc)
qed


section \<open>Finding a method\<close>

lemma enumerate_nth: "(i, x) \<in> set (enumerate 0 xs) \<longleftrightarrow> nth_option xs i = Some x"
  by (auto simp: in_set_enumerate_eq nth_option_def)

lemma set_optional: "set (optional f m) = f ` set_option m"
  by (cases m) (simp_all add: optional_def)

lemma named_members:
  "(idx, m) \<in> set (named_accessors def name) \<Longrightarrow> member_method def idx = Some m"
  "(idx, m) \<in> set (named_listeners def name) \<Longrightarrow> member_method def idx = Some m"
  by (auto simp: named_accessors_def named_listeners_def member_method_def enumerate_nth set_optional split: option.splits if_splits)

lemma property_event_members:
  "nth_option (def_properties def) i = Some p \<Longrightarrow> (idx, m) \<in> set (property_members (i, p)) \<Longrightarrow> member_method def idx = Some m"
  "nth_option (def_events def) i = Some e \<Longrightarrow> (idx, m) \<in> set (event_members (i, e)) \<Longrightarrow> member_method def idx = Some m"
  by (auto simp: property_members_def event_members_def member_method_def enumerate_nth set_optional)

lemma candidates_members:
  assumes "(idx, m) \<in> set (method_candidates def name)"
  shows "member_method def idx = Some m"
proof -
  consider (declared) i where "idx = MethodIndex i" "nth_option (def_methods def) i = Some m"
    | (accessor) "(idx, m) \<in> set (named_accessors def name)" | (listener) "(idx, m) \<in> set (named_listeners def name)"
    | (property) i p where "nth_option (def_properties def) i = Some p" "(idx, m) \<in> set (property_members (i, p))"
    | (event) i e where "nth_option (def_events def) i = Some e" "(idx, m) \<in> set (event_members (i, e))"
    using assms by (auto simp: method_candidates_def enumerate_nth)
  then show ?thesis
  proof cases
    case declared
    then show ?thesis by (simp add: member_method_def)
  qed (fact named_members property_event_members)+
qed

lemma first_candidate_member:
  "first_candidate check cs st = Some (Ok (Some idx), st') \<Longrightarrow>
   \<exists>m st1 st2. (idx, m) \<in> set cs \<and> check m st1 = Some (Ok True, st2)"
proof (induction cs arbitrary: st)
  case (Cons c cs)
  obtain i m where c: "c = (i, m)" by (cases c)
  obtain r st1 where r: "check m st = Some (r, st1)" using Cons.prems by (cases "check m st") (auto simp: c check_bind_def)
  show ?case
  proof (cases "r = Ok True")
    case True
    then show ?thesis using Cons.prems r by (auto simp: c check_bind_def of_run_def)
  next
    case False
    then have "first_candidate check cs st1 = Some (Ok (Some idx), st')"
      using Cons.prems r by (auto simp: c check_bind_def split: outcome.splits if_splits)
    from Cons.IH [OF this] show ?thesis by auto
  qed
qed (simp add: of_run_def)

lemma check_candidate_holds:
  assumes "check_candidate w assign desc name sig res sg g v m st = Some (Ok True, st')"
  shows "m_name m = name \<and> (\<exists>s. m_signature m = Some s \<and> sig_instance s = sig_instance sig \<and>
    length (sig_parameters s) = length (sig_parameters sig))"
  using assms by (auto simp: check_candidate_def signatures_match_def of_run_def split: option.splits if_splits)

text \<open>
  A method found by name and signature is a member of the type searched: the index of the description leads back
  to a method with that name, with the same kind of receiver and the same number of parameters, whatever the mode of
  comparison and whatever assignability answers.
\<close>

theorem find_method_sound:
  assumes "find_method_in_type_internal w assign desc name sig res sg g v st = Some (Ok (Some d), st')"
  shows "md_parent d = desc \<and> md_resolution d = td_resolution desc \<and> md_parent_generics d = unwrap_lookup g \<and>
    (\<exists>m s. description_method w d = Ok m \<and> m_name m = name \<and> m_signature m = Some s \<and>
       sig_instance s = sig_instance sig \<and> length (sig_parameters s) = length (sig_parameters sig))"
proof -
  obtain def idx st1 where def: "desc_definition w desc = Ok def"
    and first: "first_candidate (check_candidate w assign desc name sig res sg g v) (method_candidates def name) st = Some (Ok (Some idx), st1)"
    and d: "d = \<lparr>md_parent = desc, md_parent_generics = unwrap_lookup g, md_resolution = td_resolution desc, md_index = idx\<rparr>"
    using assms by (auto simp: find_method_in_type_internal_def check_bind_def of_run_def split: outcome.splits option.splits prod.splits)
  from first_candidate_member [OF first] candidates_members check_candidate_holds
  show ?thesis unfolding d description_method_def using def by fastforce
qed

definition sample_method_def :: method_def where
  "sample_method_def = \<lparr>m_name = ''get_X'', m_public = True,
     m_signature = Some \<lparr>sig_instance = True, sig_parameters = [], sig_return = Some (PValue (MBase BInt32))\<rparr>\<rparr>"

definition accessor_world :: "nat type_world" where
  "accessor_world = sample_world\<lparr>definitions := (\<lambda>_. blank_def\<lparr>def_properties :=
     [\<lparr>prop_name = ''X'', getter = Some sample_method_def, setter = None, prop_other = []\<rparr>]\<rparr>)\<rparr>"

theorem find_method_sound_witness:
  "\<exists>d m. find_method_in_type_internal accessor_world (\<lambda>_ _. answer False) \<lparr>td_resolution = 1, td_index = 0\<rparr> ''get_X''
        \<lparr>sig_instance = True, sig_parameters = [], sig_return = Some (PValue (MBase BInt32))\<rparr> 1 None None False new_comparer =
      Some (Ok (Some d), new_comparer) \<and> description_method accessor_world d = Ok m \<and> m_name m = ''get_X''"
proof -
  let ?d = "\<lparr>md_parent = \<lparr>td_resolution = 1, td_index = 0\<rparr>, md_parent_generics = unwrap_lookup None, md_resolution = 1,
    md_index = PropertyGetter 0\<rparr>"
  have found: "find_method_in_type_internal accessor_world (\<lambda>_ _. answer False) \<lparr>td_resolution = 1, td_index = 0\<rparr> ''get_X''
      \<lparr>sig_instance = True, sig_parameters = [], sig_return = Some (PValue (MBase BInt32))\<rparr> 1 None None False new_comparer =
    Some (Ok (Some ?d), new_comparer)"
    by code_simp
  from found find_method_sound [OF found] show ?thesis by blast
qed

end
