(* ===== verification/Gc_Pressure.thy ===== *)
theory Gc_Pressure
  imports Prelude
begin

text \<open>
  Allocation pressure: the counters and flags of an \<open>ArenaHandle\<close> (\<open>dotnet-utils/src/gc/arena.rs\<close>) and the flag of
  \<open>GCCoordinator\<close> (\<open>dotnet-vm/src/gc/coordinator.rs\<close>) that says whether any arena asks for a collection. A handle is known by
  its thread. The threshold comes from the environment and does not change.
\<close>

record pressure =
  allocation_threshold :: nat
  allocation_counter :: "nat \<Rightarrow> nat"
  peak_allocation_counter :: "nat \<Rightarrow> nat"
  collection_trigger_count :: "nat \<Rightarrow> u64"
  needs_collection :: "nat \<Rightarrow> bool"
  flag_bound :: "nat \<Rightarrow> bool"
  needs_any_collection :: bool

definition no_pressure :: "nat \<Rightarrow> pressure" where
  "no_pressure threshold = \<lparr>allocation_threshold = threshold, allocation_counter = (\<lambda>_. 0), peak_allocation_counter = (\<lambda>_. 0),
     collection_trigger_count = (\<lambda>_. 0), needs_collection = (\<lambda>_. False), flag_bound = (\<lambda>_. False),
     needs_any_collection = False\<rparr>"

definition update_atomic_max :: "nat \<Rightarrow> nat \<Rightarrow> nat" where
  "update_atomic_max current candidate = (if current < candidate then candidate else current)"

definition record_allocation :: "nat \<Rightarrow> nat \<Rightarrow> pressure \<Rightarrow> ('e, bool \<times> pressure) outcome" where
  "record_allocation h bytes p =
     and_then (uadd (allocation_counter p h) bytes) (\<lambda>allocation_after.
       let q = p\<lparr>allocation_counter := (allocation_counter p)(h := allocation_after),
                 peak_allocation_counter := (peak_allocation_counter p)
                   (h := update_atomic_max (peak_allocation_counter p h) allocation_after)\<rparr> in
       if allocation_threshold p < allocation_after \<and> \<not> needs_collection p h
       then Ok (True, q\<lparr>needs_collection := (needs_collection p)(h := True),
                        collection_trigger_count := (collection_trigger_count p)(h := collection_trigger_count p h + 1),
                        needs_any_collection := needs_any_collection p \<or> flag_bound p h\<rparr>)
       else Ok (False, q))"

definition bind_collection_pressure_flag :: "nat \<Rightarrow> pressure \<Rightarrow> pressure" where
  "bind_collection_pressure_flag h p =
     p\<lparr>flag_bound := (flag_bound p)(h := True), needs_any_collection := needs_any_collection p \<or> needs_collection p h\<rparr>"

definition clear_if_last :: "nat set \<Rightarrow> pressure \<Rightarrow> pressure" where
  "clear_if_last hs p = (if hs = {} then p\<lparr>needs_any_collection := False\<rparr> else p)"

definition reset_pressure :: "nat set \<Rightarrow> pressure \<Rightarrow> pressure" where
  "reset_pressure hs p =
     p\<lparr>needs_collection := (\<lambda>h. h \<notin> hs \<and> needs_collection p h),
       allocation_counter := (\<lambda>h. if h \<in> hs then 0 else allocation_counter p h), needs_any_collection := False\<rparr>"

definition should_collect :: "nat set \<Rightarrow> pressure \<Rightarrow> bool" where
  "should_collect hs p \<longleftrightarrow> needs_any_collection p \<and> (\<exists>h \<in> hs. needs_collection p h)"

text \<open>
  A handle asks for a collection exactly when it has allocated more than the threshold since the last one; every
  registered handle is bound to the flag of the coordinator, and the flag is set while one of them asks.
\<close>

definition pressure_inv :: "nat set \<Rightarrow> pressure \<Rightarrow> bool" where
  "pressure_inv hs p \<longleftrightarrow> (\<forall>h. needs_collection p h \<longleftrightarrow> allocation_threshold p < allocation_counter p h) \<and>
     (\<forall>h \<in> hs. flag_bound p h \<and> (needs_collection p h \<longrightarrow> needs_any_collection p))"

lemma record_allocation_Ok:
  "record_allocation h bytes p = Ok (b, q) \<Longrightarrow>
     allocation_counter q = (allocation_counter p)(h := allocation_counter p h + bytes) \<and>
     allocation_threshold q = allocation_threshold p \<and> flag_bound q = flag_bound p \<and>
     b = (\<not> needs_collection p h \<and> allocation_threshold p < allocation_counter p h + bytes) \<and>
     needs_collection q = (needs_collection p)(h := needs_collection p h \<or> b) \<and>
     needs_any_collection q = (needs_any_collection p \<or> b \<and> flag_bound p h)"
  by (auto simp: record_allocation_def uadd_def outcome_simps Let_def fun_eq_iff split: if_splits)

lemma pressure_inv_no_pressure: "pressure_inv {} (no_pressure threshold)"
  by (simp add: pressure_inv_def no_pressure_def)

lemma pressure_inv_record:
  assumes "pressure_inv hs p" "record_allocation h bytes p = Ok (b, q)"
  shows "pressure_inv hs q"
  using assms(1) record_allocation_Ok [OF assms(2)] by (auto simp: pressure_inv_def)

lemma pressure_inv_bind: "pressure_inv hs p \<Longrightarrow> pressure_inv (insert h hs) (bind_collection_pressure_flag h p)"
  by (auto simp: pressure_inv_def bind_collection_pressure_flag_def)

lemma pressure_inv_clear: "pressure_inv hs p \<Longrightarrow> pressure_inv (hs - {h}) (clear_if_last (hs - {h}) p)"
  by (auto simp: pressure_inv_def clear_if_last_def)

lemma pressure_inv_reset: "pressure_inv hs p \<Longrightarrow> pressure_inv hs (reset_pressure hs p)"
  by (auto simp: pressure_inv_def reset_pressure_def)

lemma should_collect_pressure:
  "pressure_inv hs p \<Longrightarrow> should_collect hs p \<longleftrightarrow> (\<exists>h \<in> hs. allocation_threshold p < allocation_counter p h)"
  by (auto simp: pressure_inv_def should_collect_def)

end
