(* ===== verification/Gc_Handshake.thy ===== *)
theory Gc_Handshake
  imports Gc_Pressure
begin

text \<open>
  How threads stop for a collection and take its commands: \<open>ThreadManager\<close> (\<open>dotnet-vm/src/threading/basic.rs\<close>) and the
  command slots of \<open>GCCoordinator\<close> (\<open>dotnet-vm/src/gc/coordinator.rs\<close>). Every atomic access and every critical section
  is one operation on the shared state, the threads interleave them freely. A thread's phase is the point of the code
  it is at. A slot's mutex is held across two operations only where the code also reads the stop flag, between the
  check and the wait of \<open>wait_for_command_or_resume\<close>. What a command does to the thread's own arena is not part of
  this state, so commands are an arbitrary type; an assertion that fails is a panic. The updates of the allocation
  counters and flags by one allocation, and their reset at the end of a collection, are one operation each. A thread that
  collects or holds a write guard returns from a safe point at once and has no step there.
\<close>

section \<open>State\<close>

datatype caller = FromCode | FromRequest

datatype 'c gc_phase =
    Absent | Exited | Mutating
  | Stopping caller | Polling caller | Committed caller | Sleeping caller | Executing caller 'c | Leaving caller
  | InSession | Requesting | AwaitingStop
  | Collecting | Dispatching "(nat \<times> 'c) list" | Checking "nat list" | Blocked nat "nat list"
  | Finished | Releasing

record 'c gc_state =
  gc_stop_requested :: bool
  threads_at_safepoint :: nat
  threads :: "nat set"
  arenas :: "nat set"
  current_command :: "nat \<Rightarrow> 'c option"
  phase :: "nat \<Rightarrow> 'c gc_phase"
  collection_lock :: "nat option"
  gc_coordination :: "nat option"
  stw_in_progress :: bool
  pressure :: pressure

definition gc_initial :: "nat \<Rightarrow> 'c gc_state" where
  "gc_initial threshold = \<lparr>gc_stop_requested = False, threads_at_safepoint = 0, threads = {}, arenas = {},
     current_command = (\<lambda>_. None), phase = (\<lambda>_. Absent), collection_lock = None, gc_coordination = None,
     stw_in_progress = False, pressure = no_pressure threshold\<rparr>"

abbreviation goto :: "nat \<Rightarrow> 'c gc_phase \<Rightarrow> 'c gc_state \<Rightarrow> 'c gc_state" where
  "goto t p s \<equiv> s\<lparr>phase := (phase s)(t := p)\<rparr>"

text \<open>Signals: waiting threads go back to where they check again.\<close>

definition notify_finish :: "nat \<Rightarrow> (nat \<Rightarrow> 'c gc_phase) \<Rightarrow> nat \<Rightarrow> 'c gc_phase" where
  "notify_finish h ph = (\<lambda>t. case ph t of Blocked h' hs \<Rightarrow> if h' = h then Checking (h # hs) else Blocked h' hs | p \<Rightarrow> p)"

definition notify_command :: "nat set \<Rightarrow> (nat \<Rightarrow> 'c gc_phase) \<Rightarrow> nat \<Rightarrow> 'c gc_phase" where
  "notify_command hs ph = (\<lambda>t. case ph t of Sleeping r \<Rightarrow> if t \<in> hs then Polling r else Sleeping r | p \<Rightarrow> p)"

section \<open>Threads and arenas\<close>

definition register_thread :: "nat \<Rightarrow> 'c gc_state \<Rightarrow> 'c gc_state" where
  "register_thread t s = goto t Mutating (s\<lparr>threads := insert t (threads s)\<rparr>)"

definition unregister_thread :: "nat \<Rightarrow> 'c gc_state \<Rightarrow> 'c gc_state" where
  "unregister_thread t s = goto t Exited (s\<lparr>threads := threads s - {t}\<rparr>)"

definition register_arena :: "nat \<Rightarrow> 'c gc_state \<Rightarrow> 'c gc_state" where
  "register_arena t s = s\<lparr>arenas := insert t (arenas s), pressure := bind_collection_pressure_flag t (pressure s)\<rparr>"

definition unregister_arena :: "nat \<Rightarrow> 'c gc_state \<Rightarrow> 'c gc_state" where
  "unregister_arena t s =
     (let p = clear_if_last (arenas s - {t}) (pressure s) in
      if t \<in> arenas s
      then s\<lparr>arenas := arenas s - {t}, current_command := (current_command s)(t := None), phase := notify_finish t (phase s),
             pressure := p\<rparr>
      else s\<lparr>pressure := p\<rparr>)"

definition allocate :: "nat \<Rightarrow> nat \<Rightarrow> 'c gc_state \<Rightarrow> (unit, 'c gc_state) outcome" where
  "allocate t bytes s = map_outcome (\<lambda>(_, p). s\<lparr>pressure := p\<rparr>) (record_allocation t bytes (pressure s))"

section \<open>Stopping at a safe point\<close>

definition safe_point :: "caller \<Rightarrow> nat \<Rightarrow> 'c gc_state \<Rightarrow> 'c gc_state" where
  "safe_point r t s = (if gc_stop_requested s then goto t (Stopping r) s else s)"

definition safe_point_arrive :: "caller \<Rightarrow> nat \<Rightarrow> 'c gc_state \<Rightarrow> 'c gc_state" where
  "safe_point_arrive r t s = goto t (Polling r) (s\<lparr>threads_at_safepoint := threads_at_safepoint s + 1\<rparr>)"

definition wait_for_command_or_resume :: "caller \<Rightarrow> nat \<Rightarrow> 'c gc_state \<Rightarrow> 'c gc_state" where
  "wait_for_command_or_resume r t s =
     (if t \<notin> arenas s \<or> \<not> gc_stop_requested s then goto t (Leaving r) s
      else case current_command s t of
        Some c \<Rightarrow> goto t (Executing r c) s
      | None \<Rightarrow> goto t (Committed r) s)"

definition wait_command_signal :: "caller \<Rightarrow> nat \<Rightarrow> 'c gc_state \<Rightarrow> 'c gc_state" where
  "wait_command_signal r t s = goto t (Sleeping r) s"

definition command_finished :: "caller \<Rightarrow> nat \<Rightarrow> 'c gc_state \<Rightarrow> (unit, 'c gc_state) outcome" where
  "command_finished r t s =
     (if t \<notin> arenas s then Ok (goto t (Polling r) s)
      else if current_command s t = None then Panic
      else Ok (goto t (Polling r) (s\<lparr>current_command := (current_command s)(t := None), phase := notify_finish t (phase s)\<rparr>)))"

definition safe_point_leave :: "caller \<Rightarrow> nat \<Rightarrow> 'c gc_state \<Rightarrow> 'c gc_state" where
  "safe_point_leave r t s =
     goto t (case r of FromCode \<Rightarrow> Mutating | FromRequest \<Rightarrow> Requesting) (s\<lparr>threads_at_safepoint := threads_at_safepoint s - 1\<rparr>)"

section \<open>Running a collection\<close>

definition no_pending_commands :: "'c gc_state \<Rightarrow> bool" where
  "no_pending_commands s \<longleftrightarrow> (\<forall>h \<in> arenas s. current_command s h = None)"

definition begin_collection :: "nat \<Rightarrow> 'c gc_state \<Rightarrow> (unit, 'c gc_state) outcome" where
  "begin_collection t s =
     (if collection_lock s \<noteq> None then Ok s
      else if stw_in_progress s \<or> \<not> no_pending_commands s then Panic
      else Ok (goto t InSession (s\<lparr>stw_in_progress := True, collection_lock := Some t\<rparr>)))"

definition request_stop_the_world :: "nat \<Rightarrow> 'c gc_state \<Rightarrow> 'c gc_state" where
  "request_stop_the_world t s = goto t Requesting (s\<lparr>gc_stop_requested := True\<rparr>)"

definition acquire_coordination :: "nat \<Rightarrow> 'c gc_state \<Rightarrow> 'c gc_state" where
  "acquire_coordination t s =
     (case gc_coordination s of
        None \<Rightarrow> goto t AwaitingStop (s\<lparr>gc_coordination := Some t\<rparr>)
      | Some _ \<Rightarrow> safe_point FromRequest t s)"

definition target_stopped :: "nat \<Rightarrow> 'c gc_state \<Rightarrow> nat" where
  "target_stopped t s = (if t \<in> threads s then card (threads s) - 1 else card (threads s))"

definition await_stopped :: "nat \<Rightarrow> 'c gc_state \<Rightarrow> 'c gc_state" where
  "await_stopped t s = (if target_stopped t s \<le> threads_at_safepoint s then goto t Collecting s else s)"

definition enqueue_command_for_arena :: "nat \<Rightarrow> 'c \<Rightarrow> 'c gc_state \<Rightarrow> (unit, 'c gc_state) outcome" where
  "enqueue_command_for_arena h c s =
     (if current_command s h \<noteq> None then Panic
      else Ok (s\<lparr>current_command := (current_command s)(h := Some c), phase := notify_command {h} (phase s)\<rparr>))"

text \<open>A handle whose arena was unregistered after the snapshot is not waited for and not looked at again.\<close>

definition dispatch_next :: "nat \<Rightarrow> nat \<times> 'c \<Rightarrow> (nat \<times> 'c) list \<Rightarrow> 'c gc_state \<Rightarrow> (unit, 'c gc_state) outcome" where
  "dispatch_next t hc rest s =
     (if fst hc \<in> arenas s
      then map_outcome (goto t (Dispatching rest)) (enqueue_command_for_arena (fst hc) (snd hc) s)
      else Ok (goto t (Dispatching rest) s))"

definition wait_on_arena :: "nat \<Rightarrow> nat \<Rightarrow> nat list \<Rightarrow> 'c gc_state \<Rightarrow> 'c gc_state" where
  "wait_on_arena t h hs s =
     (if current_command s h = None then goto t (Checking hs) s else goto t (Blocked h hs) s)"

definition finish_collection_inner :: "nat \<Rightarrow> 'c gc_state \<Rightarrow> (unit, 'c gc_state) outcome" where
  "finish_collection_inner t s =
     (if \<not> stw_in_progress s \<or> \<not> no_pending_commands s then Panic
      else Ok (goto t Finished (s\<lparr>stw_in_progress := False, collection_lock := None, pressure := reset_pressure (arenas s) (pressure s)\<rparr>)))"

definition resume_threads :: "nat \<Rightarrow> 'c gc_state \<Rightarrow> 'c gc_state" where
  "resume_threads t s = goto t Releasing (s\<lparr>gc_stop_requested := False\<rparr>)"

definition notify_resume :: "nat \<Rightarrow> 'c gc_state \<Rightarrow> 'c gc_state" where
  "notify_resume t s = goto t Mutating (s\<lparr>phase := notify_command (arenas s) (phase s), gc_coordination := None\<rparr>)"

section \<open>The interleavings\<close>

text \<open>A thread that has checked its slot and not yet gone to sleep holds the mutex of the slot.\<close>

definition slot_free :: "'c gc_state \<Rightarrow> nat \<Rightarrow> bool" where
  "slot_free s h = (case phase s h of Committed _ \<Rightarrow> False | _ \<Rightarrow> True)"

text \<open>Which operation a thread at a given point performs; a new thread has an identity never used before.\<close>

inductive gc_step :: "nat \<Rightarrow> 'c gc_state \<Rightarrow> 'c gc_state \<Rightarrow> bool" for t :: nat where
  start: "phase s t = Absent \<Longrightarrow> gc_step t s (register_thread t s)"
| attach: "phase s t = Mutating \<Longrightarrow> gc_step t s (register_arena t s)"
| detach: "phase s t = Mutating \<Longrightarrow> gc_step t s (unregister_arena t s)"
| allocates: "phase s t = Mutating \<Longrightarrow> allocate t bytes s = Ok s' \<Longrightarrow> gc_step t s s'"
| leave_vm: "phase s t = Mutating \<Longrightarrow> t \<notin> arenas s \<Longrightarrow> gc_step t s (unregister_thread t s)"
| reach: "phase s t = Mutating \<Longrightarrow> gc_step t s (safe_point FromCode t s)"
| arrive: "phase s t = Stopping r \<Longrightarrow> gc_step t s (safe_point_arrive r t s)"
| poll: "phase s t = Polling r \<Longrightarrow> gc_step t s (wait_for_command_or_resume r t s)"
| sleep: "phase s t = Committed r \<Longrightarrow> gc_step t s (wait_command_signal r t s)"
| execute: "phase s t = Executing r c \<Longrightarrow> command_finished r t s = Ok s' \<Longrightarrow> gc_step t s s'"
| leave: "phase s t = Leaving r \<Longrightarrow> gc_step t s (safe_point_leave r t s)"
| begins: "phase s t = Mutating \<Longrightarrow> t \<in> arenas s \<Longrightarrow> \<forall>h \<in> arenas s. slot_free s h \<Longrightarrow> begin_collection t s = Ok s' \<Longrightarrow> gc_step t s s'"
| request: "phase s t = InSession \<Longrightarrow> gc_step t s (request_stop_the_world t s)"
| coordinate: "phase s t = Requesting \<Longrightarrow> gc_step t s (acquire_coordination t s)"
| stopped: "phase s t = AwaitingStop \<Longrightarrow> gc_step t s (await_stopped t s)"
| round: "phase s t = Collecting \<Longrightarrow> distinct (map fst hcs) \<Longrightarrow> t \<notin> set (map fst hcs) \<Longrightarrow>
    gc_step t s (goto t (Dispatching hcs) s)"
| dispatch: "phase s t = Dispatching (hc # rest) \<Longrightarrow> slot_free s (fst hc) \<Longrightarrow>
    dispatch_next t hc rest s = Ok s' \<Longrightarrow> gc_step t s s'"
| snapshot: "phase s t = Dispatching [] \<Longrightarrow> set hs = arenas s - {t} \<Longrightarrow> gc_step t s (goto t (Checking hs) s)"
| check: "phase s t = Checking (h # hs) \<Longrightarrow> slot_free s h \<Longrightarrow> gc_step t s (wait_on_arena t h hs s)"
| checked: "phase s t = Checking [] \<Longrightarrow> gc_step t s (goto t Collecting s)"
| finish: "phase s t = Collecting \<Longrightarrow> \<forall>h \<in> arenas s. slot_free s h \<Longrightarrow> finish_collection_inner t s = Ok s' \<Longrightarrow> gc_step t s s'"
| resume: "phase s t = Finished \<Longrightarrow> gc_step t s (resume_threads t s)"
| notify: "phase s t = Releasing \<Longrightarrow> gc_step t s (notify_resume t s)"

inductive gc_reachable :: "'c gc_state \<Rightarrow> bool" where
  initially: "gc_reachable (gc_initial threshold)"
| later: "gc_reachable s \<Longrightarrow> gc_step t s s' \<Longrightarrow> gc_reachable s'"

section \<open>Invariants\<close>

definition counted :: "'c gc_phase \<Rightarrow> bool" where
  "counted p = (case p of Polling _ \<Rightarrow> True | Committed _ \<Rightarrow> True | Sleeping _ \<Rightarrow> True | Executing _ _ \<Rightarrow> True | Leaving _ \<Rightarrow> True | _ \<Rightarrow> False)"

definition in_session :: "'c gc_phase \<Rightarrow> bool" where
  "in_session p = (case p of
     InSession \<Rightarrow> True | Requesting \<Rightarrow> True | AwaitingStop \<Rightarrow> True | Collecting \<Rightarrow> True | Dispatching _ \<Rightarrow> True
   | Checking _ \<Rightarrow> True | Blocked _ _ \<Rightarrow> True
   | Stopping r \<Rightarrow> r = FromRequest | Polling r \<Rightarrow> r = FromRequest | Committed r \<Rightarrow> r = FromRequest
   | Sleeping r \<Rightarrow> r = FromRequest | Executing r _ \<Rightarrow> r = FromRequest | Leaving r \<Rightarrow> r = FromRequest | _ \<Rightarrow> False)"

definition coordinating :: "'c gc_phase \<Rightarrow> bool" where
  "coordinating p = (case p of
     AwaitingStop \<Rightarrow> True | Collecting \<Rightarrow> True | Dispatching _ \<Rightarrow> True | Checking _ \<Rightarrow> True | Blocked _ _ \<Rightarrow> True
   | Finished \<Rightarrow> True | Releasing \<Rightarrow> True | _ \<Rightarrow> False)"

definition alive :: "'c gc_phase \<Rightarrow> bool" where
  "alive p \<longleftrightarrow> p \<noteq> Absent \<and> p \<noteq> Exited"

text \<open>The arenas whose command a collecting thread will still wait for.\<close>

definition awaits :: "nat \<Rightarrow> 'c gc_phase \<Rightarrow> nat \<Rightarrow> bool" where
  "awaits t p h = (case p of
     Dispatching hcs \<Rightarrow> h \<notin> fst ` set hcs \<and> h \<noteq> t | Checking hs \<Rightarrow> h \<in> set hs | Blocked g hs \<Rightarrow> h \<in> set (g # hs) | _ \<Rightarrow> False)"

lemmas phase_defs = counted_def in_session_def coordinating_def alive_def awaits_def

lemma phase_simps [simp]:
  "counted Absent = False" "counted Exited = False" "counted Mutating = False" "counted (Stopping r) = False"
  "counted (Polling r) = True" "counted (Committed r) = True" "counted (Sleeping r) = True" "counted (Leaving r) = True"
  "counted (Executing r c) = True" "counted InSession = False" "counted Requesting = False" "counted AwaitingStop = False"
  "counted Collecting = False" "counted (Dispatching hcs) = False" "counted (Checking hs) = False"
  "counted (Blocked g hs) = False" "counted Finished = False" "counted Releasing = False" "coordinating Absent = False"
  "coordinating Exited = False" "coordinating Mutating = False" "coordinating (Stopping r) = False"
  "coordinating (Polling r) = False" "coordinating (Committed r) = False" "coordinating (Sleeping r) = False"
  "coordinating (Leaving r) = False" "coordinating (Executing r c) = False" "coordinating InSession = False"
  "coordinating Requesting = False" "coordinating AwaitingStop = True" "coordinating Collecting = True"
  "coordinating (Dispatching hcs) = True" "coordinating (Checking hs) = True" "coordinating (Blocked g hs) = True"
  "coordinating Finished = True" "coordinating Releasing = True" "in_session Absent = False" "in_session Exited = False"
  "in_session Mutating = False" "in_session (Stopping r) = (r = FromRequest)" "in_session (Polling r) = (r = FromRequest)"
  "in_session (Committed r) = (r = FromRequest)" "in_session (Sleeping r) = (r = FromRequest)"
  "in_session (Leaving r) = (r = FromRequest)" "in_session (Executing r c) = (r = FromRequest)" "in_session InSession = True"
  "in_session Requesting = True" "in_session AwaitingStop = True" "in_session Collecting = True"
  "in_session (Dispatching hcs) = True" "in_session (Checking hs) = True" "in_session (Blocked g hs) = True"
  "in_session Finished = False" "in_session Releasing = False" "alive Absent = False" "alive Exited = False"
  "alive Mutating = True" "alive (Stopping r) = True" "alive (Polling r) = True" "alive (Committed r) = True"
  "alive (Sleeping r) = True" "alive (Leaving r) = True" "alive (Executing r c) = True" "alive InSession = True"
  "alive Requesting = True" "alive AwaitingStop = True" "alive Collecting = True" "alive (Dispatching hcs) = True"
  "alive (Checking hs) = True" "alive (Blocked g hs) = True" "alive Finished = True" "alive Releasing = True"
  "awaits u Absent h = False" "awaits u Exited h = False" "awaits u Mutating h = False" "awaits u (Stopping r) h = False"
  "awaits u (Polling r) h = False" "awaits u (Committed r) h = False" "awaits u (Sleeping r) h = False"
  "awaits u (Leaving r) h = False" "awaits u (Executing r c) h = False" "awaits u InSession h = False"
  "awaits u Requesting h = False" "awaits u AwaitingStop h = False" "awaits u Collecting h = False"
  "awaits u (Dispatching hcs) h = (h \<notin> fst ` set hcs \<and> h \<noteq> u)"
  "awaits u (Checking hs) h = (h \<in> set hs)" "awaits u (Blocked g hs) h = (h \<in> set (g # hs))"
  "awaits u Finished h = False" "awaits u Releasing h = False"
  by (simp_all add: phase_defs)

lemma notify_finish_same [simp]:
  "counted (notify_finish h ph t) = counted (ph t)" "in_session (notify_finish h ph t) = in_session (ph t)"
  "coordinating (notify_finish h ph t) = coordinating (ph t)" "alive (notify_finish h ph t) = alive (ph t)"
  "awaits u (notify_finish h ph t) g = awaits u (ph t) g"
  by (auto simp: notify_finish_def phase_defs split: gc_phase.split)

lemma notify_command_same [simp]:
  "counted (notify_command hs ph t) = counted (ph t)" "in_session (notify_command hs ph t) = in_session (ph t)"
  "coordinating (notify_command hs ph t) = coordinating (ph t)" "alive (notify_command hs ph t) = alive (ph t)"
  "awaits u (notify_command hs ph t) g = awaits u (ph t) g"
  by (auto simp: notify_command_def phase_defs split: gc_phase.split)

lemma notify_finish_eq:
  "notify_finish h ph t = Committed r \<longleftrightarrow> ph t = Committed r" "notify_finish h ph t = Sleeping r \<longleftrightarrow> ph t = Sleeping r"
  "notify_finish h ph t = Executing r c \<longleftrightarrow> ph t = Executing r c" "notify_finish h ph t = Dispatching hcs \<longleftrightarrow> ph t = Dispatching hcs"
  "notify_finish h ph t = Blocked g gs \<longleftrightarrow> ph t = Blocked g gs \<and> g \<noteq> h"
  by (auto simp: notify_finish_def split: gc_phase.split)

lemma notify_command_eq:
  "notify_command hs ph t = Committed r \<longleftrightarrow> ph t = Committed r" "notify_command hs ph t = Sleeping r \<longleftrightarrow> ph t = Sleeping r \<and> t \<notin> hs"
  "notify_command hs ph t = Executing r c \<longleftrightarrow> ph t = Executing r c" "notify_command hs ph t = Dispatching hcs \<longleftrightarrow> ph t = Dispatching hcs"
  "notify_command hs ph t = Blocked g gs \<longleftrightarrow> ph t = Blocked g gs"
  by (auto simp: notify_command_def split: gc_phase.split)

lemmas notify_simps = notify_finish_eq notify_command_eq

definition thread_inv :: "'c gc_state \<Rightarrow> bool" where
  "thread_inv s \<longleftrightarrow> finite (threads s) \<and> (\<forall>t. alive (phase s t) \<longleftrightarrow> t \<in> threads s) \<and>
     threads_at_safepoint s = card {t. counted (phase s t)} \<and> arenas s \<subseteq> threads s"

definition lock_inv :: "'c gc_state \<Rightarrow> bool" where
  "lock_inv s \<longleftrightarrow> (\<forall>t. in_session (phase s t) \<longleftrightarrow> collection_lock s = Some t) \<and>
     (\<forall>t. coordinating (phase s t) \<longleftrightarrow> gc_coordination s = Some t) \<and> (stw_in_progress s \<longleftrightarrow> collection_lock s \<noteq> None)"

text \<open>What the phase of a thread says about the command slots.\<close>

definition slot_ok :: "(nat \<Rightarrow> 'c option) \<Rightarrow> nat \<Rightarrow> 'c gc_phase \<Rightarrow> bool" where
  "slot_ok cmd t p = (case p of
     Dispatching hcs \<Rightarrow> distinct (map fst hcs) \<and> t \<notin> fst ` set hcs
   | Committed _ \<Rightarrow> cmd t = None | Sleeping _ \<Rightarrow> cmd t = None
   | Executing _ c \<Rightarrow> cmd t = Some c | Checking hs \<Rightarrow> t \<notin> set hs | Blocked h hs \<Rightarrow> cmd h \<noteq> None \<and> t \<notin> set (h # hs) | _ \<Rightarrow> True)"

definition command_inv :: "'c gc_state \<Rightarrow> bool" where
  "command_inv s \<longleftrightarrow>
     (\<forall>h. current_command s h \<noteq> None \<longrightarrow> h \<in> arenas s \<and> (\<exists>t. awaits t (phase s t) h)) \<and>
     (\<forall>t. slot_ok (current_command s) t (phase s t))"

lemma counted_alive: "counted p \<Longrightarrow> alive p"
  by (auto simp: phase_defs split: gc_phase.splits)

lemma thread_inv_move:
  assumes "thread_inv s" and "alive (phase s t)" and "alive p"
    and "phase s' = ph(t := p)" and "\<forall>u. counted (ph u) = counted (phase s u) \<and> alive (ph u) = alive (phase s u)"
    and "threads s' = threads s" and "arenas s' \<subseteq> threads s"
    and "threads_at_safepoint s' =
      (if counted p then (if counted (phase s t) then threads_at_safepoint s else threads_at_safepoint s + 1)
       else if counted (phase s t) then threads_at_safepoint s - 1 else threads_at_safepoint s)"
  shows "thread_inv s'"
proof -
  have fin: "finite {u. counted (phase s u)}"
    using assms(1) counted_alive by (auto simp: thread_inv_def intro: finite_subset [of _ "threads s"])
  have "{u. counted (phase s' u)} = (if counted p then insert t {u. counted (phase s u)} else {u. counted (phase s u)} - {t})"
    using assms(4,5) by auto
  then have "card {u. counted (phase s' u)} = threads_at_safepoint s'"
    using assms(1,8) fin by (simp add: thread_inv_def card_insert_if card_Diff_singleton_if insert_absorb)
  then show ?thesis using assms by (auto simp: thread_inv_def)
qed

lemmas handshake_ops = register_thread_def unregister_thread_def register_arena_def unregister_arena_def safe_point_def
  safe_point_arrive_def wait_for_command_or_resume_def wait_command_signal_def safe_point_leave_def
  request_stop_the_world_def acquire_coordination_def await_stopped_def wait_on_arena_def resume_threads_def notify_resume_def

lemma assert_ops_Ok:
  "command_finished r t s = Ok s' \<longleftrightarrow>
     t \<notin> arenas s \<and> s' = goto t (Polling r) s \<or> t \<in> arenas s \<and> current_command s t \<noteq> None \<and>
     s' = goto t (Polling r) (s\<lparr>current_command := (current_command s)(t := None), phase := notify_finish t (phase s)\<rparr>)"
  "begin_collection t s = Ok s' \<longleftrightarrow>
     collection_lock s \<noteq> None \<and> s' = s \<or> collection_lock s = None \<and> \<not> stw_in_progress s \<and> no_pending_commands s \<and>
     s' = goto t InSession (s\<lparr>stw_in_progress := True, collection_lock := Some t\<rparr>)"
  "dispatch_next t hc rest s = Ok s' \<longleftrightarrow>
     fst hc \<notin> arenas s \<and> s' = goto t (Dispatching rest) s \<or> fst hc \<in> arenas s \<and> current_command s (fst hc) = None \<and>
     s' = goto t (Dispatching rest) (s\<lparr>current_command := (current_command s)(fst hc := Some (snd hc)), phase := notify_command {fst hc} (phase s)\<rparr>)"
  "finish_collection_inner t s = Ok s' \<longleftrightarrow> stw_in_progress s \<and> no_pending_commands s \<and>
     s' = goto t Finished (s\<lparr>stw_in_progress := False, collection_lock := None, pressure := reset_pressure (arenas s) (pressure s)\<rparr>)"
  "allocate t bytes s = Ok s' \<longleftrightarrow> (\<exists>b p. record_allocation t bytes (pressure s) = (Ok (b, p) :: (unit, bool \<times> pressure) outcome) \<and> s' = s\<lparr>pressure := p\<rparr>)"
  by (auto simp: allocate_def outcome_simps command_finished_def begin_collection_def dispatch_next_def enqueue_command_for_arena_def finish_collection_inner_def)

lemma thread_inv_goto:
  assumes "thread_inv s" and "alive (phase s t)" and "alive p" and "counted p = counted (phase s t)"
    and "phase s' = (phase s)(t := p)" and "threads s' = threads s" and "arenas s' = arenas s"
    and "threads_at_safepoint s' = threads_at_safepoint s"
  shows "thread_inv s'"
  using thread_inv_move [OF assms(1,2,3,5) _ assms(6)] assms by (auto simp: thread_inv_def)

lemma thread_inv_alive: "thread_inv s \<Longrightarrow> t \<in> threads s \<longleftrightarrow> alive (phase s t)"
  by (simp add: thread_inv_def)

lemma thread_inv_step:
  assumes "gc_step t s s'" and inv: "thread_inv s"
  shows "thread_inv s'"
  using assms(1)
proof cases
  case start
  then have "t \<notin> threads s" using thread_inv_alive [OF inv, of t] by simp
  moreover have "{u. counted (((phase s)(t := Mutating)) u)} = {u. counted (phase s u)}"
    using start by auto
  ultimately show ?thesis using inv start by (auto simp: thread_inv_def register_thread_def)
next
  case leave_vm
  have "{u. counted (((phase s)(t := Exited)) u)} = {u. counted (phase s u)}"
    using leave_vm by auto
  then show ?thesis using inv leave_vm by (auto simp: thread_inv_def unregister_thread_def)
next
  case attach
  then show ?thesis using inv by (auto simp: thread_inv_def register_arena_def)
next
  case detach
  then show ?thesis using inv by (auto simp: thread_inv_def unregister_arena_def Let_def)
next
  case (allocates bytes)
  then show ?thesis using inv by (auto simp: thread_inv_def assert_ops_Ok)
next
  case reach
  then show ?thesis using inv thread_inv_goto [OF inv, of t "Stopping FromCode" s'] by (auto simp: safe_point_def)
next
  case (arrive r)
  then show ?thesis using inv
    by (intro thread_inv_move [OF inv, of t "Polling r" s' "phase s"]) (auto simp: safe_point_arrive_def thread_inv_def)
next
  case (poll r)
  then show ?thesis
    by (intro thread_inv_goto [OF inv, of t "phase s' t" s'])
      (auto simp: wait_for_command_or_resume_def split: option.split)
next
  case (sleep r)
  then show ?thesis by (intro thread_inv_goto [OF inv, of t "Sleeping r" s']) (auto simp: wait_command_signal_def)
next
  case (execute r c)
  from execute(2) show ?thesis
    by (intro thread_inv_move [OF inv, of t "Polling r" s' "if t \<in> arenas s then notify_finish t (phase s) else phase s"])
      (use execute(1) inv in \<open>auto simp: assert_ops_Ok thread_inv_def\<close>)
next
  case (leave r)
  then show ?thesis using inv
    by (intro thread_inv_move [OF inv, of t "phase s' t" s' "phase s"])
      (auto simp: safe_point_leave_def thread_inv_def split: caller.split)
next
  case begins
  then show ?thesis using inv thread_inv_goto [OF inv, of t InSession s'] by (auto simp: assert_ops_Ok)
next
  case request
  then show ?thesis by (intro thread_inv_goto [OF inv, of t Requesting s']) (auto simp: request_stop_the_world_def)
next
  case coordinate
  then show ?thesis
    by (intro thread_inv_goto [OF inv, of t "phase s' t" s'])
      (auto simp: acquire_coordination_def safe_point_def split: option.split)
next
  case stopped
  then show ?thesis by (intro thread_inv_goto [OF inv, of t "phase s' t" s']) (auto simp: await_stopped_def)
next
  case (dispatch hc rest)
  from dispatch(3) show ?thesis
    by (intro thread_inv_move [OF inv, of t "Dispatching rest" s' "if fst hc \<in> arenas s then notify_command {fst hc} (phase s) else phase s"])
      (use dispatch(1) inv in \<open>auto simp: assert_ops_Ok thread_inv_def\<close>)
next
  case (check h hs)
  then show ?thesis by (intro thread_inv_goto [OF inv, of t "phase s' t" s']) (auto simp: wait_on_arena_def)
next
  case notify
  then show ?thesis using inv
    by (intro thread_inv_move [OF inv, of t Mutating s' "notify_command (arenas s) (phase s)"])
      (auto simp: notify_resume_def thread_inv_def)
qed (intro thread_inv_goto [OF inv, of t "phase s' t" s']; auto simp: assert_ops_Ok resume_threads_def)+

lemma lock_inv_own:
  assumes "lock_inv s"
  shows "collection_lock s = Some t \<longleftrightarrow> in_session (phase s t)" "gc_coordination s = Some t \<longleftrightarrow> coordinating (phase s t)"
    "stw_in_progress s \<longleftrightarrow> collection_lock s \<noteq> None"
  using assms by (simp_all add: lock_inv_def)

lemma lock_inv_move:
  assumes "lock_inv s" and "phase s' = ph(t := p)"
    and "\<forall>u. in_session (ph u) = in_session (phase s u) \<and> coordinating (ph u) = coordinating (phase s u)"
    and "in_session p \<longleftrightarrow> collection_lock s' = Some t" and "coordinating p \<longleftrightarrow> gc_coordination s' = Some t"
    and "\<forall>u. u \<noteq> t \<longrightarrow> (collection_lock s' = Some u \<longleftrightarrow> collection_lock s = Some u) \<and> (gc_coordination s' = Some u \<longleftrightarrow> gc_coordination s = Some u)"
    and "stw_in_progress s' \<longleftrightarrow> collection_lock s' \<noteq> None"
  shows "lock_inv s'"
  using assms by (simp add: lock_inv_def)

lemma lock_inv_step:
  assumes "gc_step t s s'" and inv: "lock_inv s"
  shows "lock_inv s'"
proof -
  note own = lock_inv_own(1,2) [OF inv, of t] lock_inv_own(3) [OF inv]
  show ?thesis using assms(1)
  proof cases
    case attach
    then show ?thesis using inv by (simp add: lock_inv_def register_arena_def)
  next
    case detach
    then show ?thesis using inv by (simp add: lock_inv_def unregister_arena_def Let_def)
  next
    case (allocates bytes)
    then show ?thesis using inv by (auto simp: lock_inv_def assert_ops_Ok)
  next
    case (execute r c)
    from execute(2) show ?thesis
      by (intro lock_inv_move [OF inv, of s' "if t \<in> arenas s then notify_finish t (phase s) else phase s" t "Polling r"])
        (use execute(1) own in \<open>auto simp: assert_ops_Ok\<close>)
  next
    case (dispatch hc rest)
    from dispatch(3) show ?thesis
      by (intro lock_inv_move [OF inv, of s' "if fst hc \<in> arenas s then notify_command {fst hc} (phase s) else phase s" t "Dispatching rest"])
        (use dispatch(1) own in \<open>auto simp: assert_ops_Ok\<close>)
  next
    case notify
    then show ?thesis using own
      by (intro lock_inv_move [OF inv, of s' "notify_command (arenas s) (phase s)" t Mutating]) (auto simp: notify_resume_def)
  qed (intro lock_inv_move [OF inv, of s' "phase s" t "phase s' t"];
      use own in \<open>auto simp: handshake_ops assert_ops_Ok split: option.splits caller.splits\<close>)+
qed

lemma awaits_in_session: "awaits u p h \<Longrightarrow> in_session p"
  by (cases p) simp_all

lemma awaits_unique: "lock_inv s \<Longrightarrow> in_session (phase s t) \<Longrightarrow> awaits u (phase s u) h \<Longrightarrow> u = t"
  using awaits_in_session lock_inv_own(1) by (metis option.inject)

lemma command_inv_goto:
  assumes inv: "command_inv s" and ph: "phase s' = (phase s)(t := p)" and "current_command s' = current_command s" and "arenas s \<subseteq> arenas s'"
    and aw: "\<forall>h. awaits t (phase s t) h \<longrightarrow> current_command s h \<noteq> None \<longrightarrow> awaits t p h"
    and "slot_ok (current_command s) t p"
  shows "command_inv s'"
proof -
  have "\<exists>u. awaits u (phase s' u) h" if pending: "current_command s h \<noteq> None" for h
  proof -
    obtain u where u: "awaits u (phase s u) h" using inv pending by (auto simp: command_inv_def)
    then show ?thesis using ph aw pending by (intro exI [of _ u]) auto
  qed
  then show ?thesis using assms by (auto simp: command_inv_def)
qed

lemma command_inv_slot:
  assumes inv: "command_inv s" and ph: "phase s' = ph(t := p)"
    and cmd: "current_command s' = (current_command s)(h := v)" and ar: "arenas s' = arenas s \<or> v = None \<and> arenas s' = arenas s - {h}"
    and aw: "\<forall>u g. awaits u (ph u) g = awaits u (phase s u) g" "\<forall>g. awaits t (phase s t) g \<longrightarrow> g \<noteq> h \<longrightarrow> awaits t p g"
    and new: "v \<noteq> None \<longrightarrow> h \<in> arenas s \<and> awaits t p h"
    and ok: "\<forall>u. u \<noteq> t \<longrightarrow> slot_ok (current_command s) u (phase s u) \<longrightarrow> slot_ok (current_command s') u (ph u)" "slot_ok (current_command s') t p"
  shows "command_inv s'"
proof -
  have "\<exists>u. awaits u (phase s' u) g" if pending: "current_command s' g \<noteq> None" for g
  proof (cases "g = h")
    case True
    then show ?thesis using ph cmd new pending by (intro exI [of _ t]) auto
  next
    case False
    then obtain u where u: "awaits u (phase s u) g" using inv pending cmd by (auto simp: command_inv_def)
    then show ?thesis using ph aw False by (intro exI [of _ u]) auto
  qed
  moreover have "g \<in> arenas s'" if "current_command s' g \<noteq> None" for g
    using that inv cmd ar new by (auto simp: command_inv_def split: if_splits)
  moreover have "slot_ok (current_command s') u (phase s' u)" for u
    using inv ok ph by (auto simp: command_inv_def)
  ultimately show ?thesis by (simp add: command_inv_def)
qed

lemma slot_ok_simps [simp]:
  "slot_ok cmd t (Dispatching hcs) = (distinct (map fst hcs) \<and> t \<notin> fst ` set hcs)" "slot_ok cmd t (Committed r) = (cmd t = None)"
  "slot_ok cmd t (Sleeping r) = (cmd t = None)" "slot_ok cmd t (Executing r c) = (cmd t = Some c)" "slot_ok cmd t (Blocked h hs) = (cmd h \<noteq> None \<and> t \<notin> set (h # hs))"
  "slot_ok cmd t Mutating" "slot_ok cmd t Exited" "slot_ok cmd t (Stopping r)" "slot_ok cmd t (Polling r)" "slot_ok cmd t (Leaving r)"
  "slot_ok cmd t InSession" "slot_ok cmd t Requesting" "slot_ok cmd t AwaitingStop" "slot_ok cmd t Collecting" "slot_ok cmd t (Checking hs) = (t \<notin> set hs)"
  "slot_ok cmd t Finished" "slot_ok cmd t Releasing" "slot_ok cmd t Absent"
  by (simp_all add: slot_ok_def)

text \<open>Clearing a slot wakes the thread that waits for it; filling one wakes its owner.\<close>

lemma slot_ok_clear: "u \<noteq> h \<Longrightarrow> slot_ok cmd u (ph u) \<Longrightarrow> slot_ok (cmd(h := None)) u (notify_finish h ph u)"
  by (cases "ph u") (auto simp: notify_finish_def)

lemma slot_ok_fill:
  "cmd h = None \<Longrightarrow> (\<forall>r. ph h \<noteq> Committed r) \<Longrightarrow> slot_ok cmd u (ph u) \<Longrightarrow> slot_ok (cmd(h := Some c)) u (notify_command {h} ph u)"
  by (cases "ph u") (auto simp: notify_command_def)

lemma slot_ok_wake: "slot_ok cmd u (ph u) \<Longrightarrow> slot_ok cmd u (notify_command hs ph u)"
  by (cases "ph u") (auto simp: notify_command_def)

lemma command_inv_step:
  assumes "gc_step t s s'" and inv: "command_inv s" and lock: "lock_inv s"
  shows "command_inv s'"
proof -
  note mine = awaits_unique [OF lock, of t]
  have slot: "slot_ok (current_command s) t (phase s t)" using inv by (simp add: command_inv_def)
  have pending: "\<exists>u. awaits u (phase s u) h" if "current_command s h \<noteq> None" for h using inv that by (simp add: command_inv_def)
  have idle: "command_inv s'" if "phase s' = (phase s)(t := p)" "current_command s' = current_command s" "arenas s \<subseteq> arenas s'"
    "slot_ok (current_command s) t p" "\<forall>h. \<not> awaits t (phase s t) h" for p
    using command_inv_goto [OF inv that(1,2,3)] that(4,5) by blast
  show ?thesis using assms(1)
  proof cases
    case attach
    then show ?thesis using inv by (auto simp: command_inv_def register_arena_def)
  next
    case detach
    show ?thesis
    proof (cases "t \<in> arenas s")
      case True
      have "notify_finish t (phase s) t = Mutating" using detach by (simp add: notify_finish_def)
      then show ?thesis using detach True
        by (intro command_inv_slot [OF inv, of s' "notify_finish t (phase s)" t Mutating t None])
          (auto simp: unregister_arena_def Let_def slot_ok_clear fun_upd_idem)
    next
      case False
      then show ?thesis using inv detach by (simp add: unregister_arena_def command_inv_def)
    qed
  next
    case (allocates bytes)
    then show ?thesis using inv by (auto simp: command_inv_def assert_ops_Ok)
  next
    case (execute r c)
    have "current_command s t = Some c" using slot execute(1) by simp
    then have "t \<in> arenas s" using inv by (auto simp: command_inv_def)
    then show ?thesis using execute
      by (intro command_inv_slot [OF inv, of s' "notify_finish t (phase s)" t "Polling r" t None]) (auto simp: assert_ops_Ok slot_ok_clear)
  next
    case (dispatch hc rest)
    note sl = slot [unfolded dispatch(1), simplified]
    have free: "\<forall>r. phase s (fst hc) \<noteq> Committed r" using dispatch(2) by (auto simp: slot_free_def)
    show ?thesis
    proof (cases "fst hc \<in> arenas s")
      case True
      then show ?thesis using dispatch sl free
        by (intro command_inv_slot [OF inv, of s' "notify_command {fst hc} (phase s)" t "Dispatching rest" "fst hc" "Some (snd hc)"])
          (auto simp: assert_ops_Ok slot_ok_fill)
    next
      case False
      then have "current_command s (fst hc) = None" using inv by (auto simp: command_inv_def)
      then show ?thesis using False dispatch sl
        by (intro command_inv_goto [OF inv, of s' t "Dispatching rest"]) (auto simp: assert_ops_Ok)
    qed
  next
    case (snapshot hs)
    have "h \<in> arenas s" if "current_command s h \<noteq> None" for h using inv that by (simp add: command_inv_def)
    then show ?thesis using snapshot by (intro command_inv_goto [OF inv, of s' t "Checking hs"]) auto
  next
    case (check h hs)
    then show ?thesis using slot by (intro command_inv_goto [OF inv, of s' t "phase s' t"]) (auto simp: wait_on_arena_def)
  next
    case (round hcs)
    then show ?thesis by (intro idle [of "Dispatching hcs"]) auto
  next
    case notify
    have "phase s' = (notify_command (arenas s) (phase s))(t := Mutating)" using notify by (simp add: notify_resume_def)
    moreover have "slot_ok (current_command s) u (notify_command (arenas s) (phase s) u)" for u
      using inv by (intro slot_ok_wake) (simp add: command_inv_def)
    moreover have "\<exists>u. awaits u (phase s' u) h" if some: "current_command s h \<noteq> None" for h
    proof -
      obtain u where u: "awaits u (phase s u) h" using pending [OF some] by blast
      then have "u \<noteq> t" using notify by auto
      then show ?thesis using u calculation(1) by (intro exI [of _ u]) simp
    qed
    ultimately show ?thesis using inv notify by (auto simp: command_inv_def notify_resume_def)
  next
    case (sleep r)
    then show ?thesis using slot by (intro idle [of "Sleeping r"]) (auto simp: wait_command_signal_def)
  qed (intro idle [of "phase s' t"]; auto simp: handshake_ops assert_ops_Ok fun_upd_idem split: option.splits caller.splits)+
qed

lemma pressure_inv_step:
  assumes "gc_step t s s'" and inv: "pressure_inv (arenas s) (pressure s)"
  shows "pressure_inv (arenas s') (pressure s')"
  using assms(1)
proof cases
  case attach
  then show ?thesis using inv by (simp add: register_arena_def pressure_inv_bind)
next
  case detach
  then show ?thesis using pressure_inv_clear [OF inv, of t] by (auto simp: unregister_arena_def Let_def)
next
  case (allocates bytes)
  then show ?thesis using inv by (auto simp: assert_ops_Ok intro: pressure_inv_record)
next
  case finish
  then show ?thesis using inv by (simp add: assert_ops_Ok pressure_inv_reset)
qed (use inv in \<open>auto simp: handshake_ops assert_ops_Ok split: option.splits caller.splits\<close>)

definition gc_inv :: "'c gc_state \<Rightarrow> bool" where
  "gc_inv s \<longleftrightarrow> thread_inv s \<and> lock_inv s \<and> command_inv s \<and> pressure_inv (arenas s) (pressure s)"

lemma gc_reachable_inv: "gc_reachable s \<Longrightarrow> gc_inv s"
proof (induction rule: gc_reachable.induct)
  case (initially threshold)
  show ?case
    by (simp add: gc_inv_def gc_initial_def thread_inv_def lock_inv_def command_inv_def pressure_inv_no_pressure)
next
  case (later s t s')
  then show ?case using thread_inv_step lock_inv_step command_inv_step pressure_inv_step unfolding gc_inv_def by blast
qed

text \<open>The question whether to collect is answered by the counters of the registered arenas.\<close>

lemma should_collect_exact:
  assumes "gc_reachable s"
  shows "should_collect (arenas s) (pressure s) \<longleftrightarrow>
    (\<exists>h \<in> arenas s. allocation_threshold (pressure s) < allocation_counter (pressure s) h)"
  using gc_reachable_inv [OF assms] by (simp add: gc_inv_def should_collect_pressure)

end
