(* ===== verification/Stop_World.thy ===== *)
theory Stop_World
  imports Gc_Handshake
begin

text \<open>
  What the handshake guarantees: its assertions never fail, a stopped world stays stopped, and a command that the
  collecting thread waits for can always be completed while the stop request stands. Three interleavings show what it
  does not guarantee. They are runs of an executable form of the step relation.
\<close>

section \<open>Runs\<close>

datatype 'c op =
    Start | Attach | Detach | Allocate nat | Quit | Reach | Arrive | Poll | Sleep | Execute | Leave
  | Begin | Request | Coordinate | Stopped | Round "(nat \<times> 'c) list" | Dispatch | Snapshot "nat list" | Check | Checked
  | Finish | Resume | Notify

definition run_waiting :: "'c op \<Rightarrow> nat \<Rightarrow> 'c gc_state \<Rightarrow> 'c gc_state option" where
  "run_waiting a t s = (case phase s t of
     Stopping r \<Rightarrow> if a = Arrive then Some (safe_point_arrive r t s) else None
   | Polling r \<Rightarrow> if a = Poll then Some (wait_for_command_or_resume r t s) else None
   | Committed r \<Rightarrow> if a = Sleep then Some (wait_command_signal r t s) else None
   | Executing r _ \<Rightarrow> if a = Execute then (case command_finished r t s of Ok s' \<Rightarrow> Some s' | _ \<Rightarrow> None) else None
   | Leaving r \<Rightarrow> if a = Leave then Some (safe_point_leave r t s) else None
   | _ \<Rightarrow> None)"

definition run_mutating :: "'c op \<Rightarrow> nat \<Rightarrow> 'c gc_state \<Rightarrow> 'c gc_state option" where
  "run_mutating a t s = (case a of
     Attach \<Rightarrow> Some (register_arena t s)
   | Detach \<Rightarrow> Some (unregister_arena t s)
   | Allocate bytes \<Rightarrow> (case allocate t bytes s of Ok s' \<Rightarrow> Some s' | _ \<Rightarrow> None)
   | Quit \<Rightarrow> if t \<in> arenas s then None else Some (unregister_thread t s)
   | Reach \<Rightarrow> Some (safe_point FromCode t s)
   | Begin \<Rightarrow> if t \<in> arenas s \<and> (\<forall>h \<in> arenas s. slot_free s h)
       then (case begin_collection t s of Ok s' \<Rightarrow> Some s' | _ \<Rightarrow> None) else None
   | _ \<Rightarrow> None)"

definition run_collecting :: "'c op \<Rightarrow> nat \<Rightarrow> 'c gc_state \<Rightarrow> 'c gc_state option" where
  "run_collecting a t s = (case a of
     Round hcs \<Rightarrow> if distinct (map fst hcs) \<and> t \<notin> set (map fst hcs) then Some (goto t (Dispatching hcs) s) else None
   | Finish \<Rightarrow> if \<forall>h \<in> arenas s. slot_free s h
       then (case finish_collection_inner t s of Ok s' \<Rightarrow> Some s' | _ \<Rightarrow> None) else None
   | _ \<Rightarrow> None)"

definition run_round :: "'c op \<Rightarrow> nat \<Rightarrow> 'c gc_state \<Rightarrow> 'c gc_state option" where
  "run_round a t s = (case phase s t of
     Dispatching (hc # rest) \<Rightarrow> if a = Dispatch \<and> slot_free s (fst hc)
       then (case dispatch_next t hc rest s of Ok s' \<Rightarrow> Some s' | _ \<Rightarrow> None) else None
   | Dispatching [] \<Rightarrow> (case a of Snapshot hs \<Rightarrow> if set hs = arenas s - {t} then Some (goto t (Checking hs) s) else None | _ \<Rightarrow> None)
   | Checking (h # hs) \<Rightarrow> if a = Check \<and> slot_free s h then Some (wait_on_arena t h hs s) else None
   | Checking [] \<Rightarrow> if a = Checked then Some (goto t Collecting s) else None
   | _ \<Rightarrow> None)"

definition run_op :: "'c op \<Rightarrow> nat \<Rightarrow> 'c gc_state \<Rightarrow> 'c gc_state option" where
  "run_op a t s = (case phase s t of
     Absent \<Rightarrow> if a = Start then Some (register_thread t s) else None
   | Mutating \<Rightarrow> run_mutating a t s
   | InSession \<Rightarrow> if a = Request then Some (request_stop_the_world t s) else None
   | Requesting \<Rightarrow> if a = Coordinate then Some (acquire_coordination t s) else None
   | AwaitingStop \<Rightarrow> if a = Stopped then Some (await_stopped t s) else None
   | Collecting \<Rightarrow> run_collecting a t s
   | Dispatching _ \<Rightarrow> run_round a t s
   | Checking _ \<Rightarrow> run_round a t s
   | Finished \<Rightarrow> if a = Resume then Some (resume_threads t s) else None
   | Releasing \<Rightarrow> if a = Notify then Some (notify_resume t s) else None
   | _ \<Rightarrow> run_waiting a t s)"

fun run :: "('c op \<times> nat) list \<Rightarrow> 'c gc_state \<Rightarrow> 'c gc_state option" where
  "run [] s = Some s"
| "run ((a, t) # as) s = Option.bind (run_op a t s) (run as)"

lemma run_waiting_step: "run_waiting a t s = Some s' \<Longrightarrow> gc_step t s s'"
  by (auto simp: run_waiting_def split: gc_phase.splits if_splits outcome.splits intro: gc_step.intros)

lemma run_mutating_step: "phase s t = Mutating \<Longrightarrow> run_mutating a t s = Some s' \<Longrightarrow> gc_step t s s'"
  by (auto simp: run_mutating_def split: op.splits if_splits outcome.splits intro: gc_step.intros)

lemma run_collecting_step: "phase s t = Collecting \<Longrightarrow> run_collecting a t s = Some s' \<Longrightarrow> gc_step t s s'"
  by (auto simp: run_collecting_def split: op.splits if_splits outcome.splits intro: gc_step.intros)

lemma run_round_step: "run_round a t s = Some s' \<Longrightarrow> gc_step t s s'"
  by (auto simp: run_round_def split: gc_phase.splits op.splits list.splits if_splits outcome.splits intro: gc_step.intros)

lemma run_op_step: "run_op a t s = Some s' \<Longrightarrow> gc_step t s s'"
  using run_mutating_step run_collecting_step run_round_step run_waiting_step
  by (cases "phase s t") (auto simp: run_op_def split: if_splits intro: gc_step.intros)

lemma run_reachable: "gc_reachable s \<Longrightarrow> run as s = Some s' \<Longrightarrow> gc_reachable s'"
  by (induction as s rule: run.induct) (auto simp: bind_eq_Some_conv intro: gc_reachable.later dest: run_op_step)

section \<open>Assertions\<close>

lemma no_pending_idle:
  assumes "gc_inv s" and "\<forall>t h. \<not> awaits t (phase s t) h"
  shows "no_pending_commands s"
  using assms by (auto simp: gc_inv_def command_inv_def no_pending_commands_def)

text \<open>
  C21: In every reachable state of the handshake the count of stopped threads is the number of threads between the two
  updates of the counter, and no assertion of the coordinator can fail: a collection begins and ends with no command
  pending, a command is only put into an empty slot, and a finished command is still in its slot.
\<close>

theorem handshake_assertions:
  assumes "gc_reachable s"
  shows "threads_at_safepoint s = card {t. counted (phase s t)} \<and>
    (phase s t = Mutating \<longrightarrow> begin_collection t s \<noteq> Panic) \<and>
    (phase s t = Executing r c \<longrightarrow> command_finished r t s \<noteq> Panic) \<and>
    (phase s t = Dispatching (hc # rest) \<longrightarrow> dispatch_next t hc rest s \<noteq> Panic) \<and>
    (phase s t = Collecting \<longrightarrow> finish_collection_inner t s \<noteq> Panic)"
proof -
  have inv: "gc_inv s" using gc_reachable_inv [OF assms] .
  then have lock: "lock_inv s" and cmd: "command_inv s" and thr: "thread_inv s" by (simp_all add: gc_inv_def)
  have "no_pending_commands s" if "collection_lock s = None"
  proof -
    have "\<not> awaits u (phase s u) h" for u h
      using that lock_inv_own(1) [OF lock, of u] awaits_in_session [of u "phase s u" h] by auto
    then show ?thesis by (intro no_pending_idle [OF inv]) blast
  qed
  then have beginning: "begin_collection t s \<noteq> Panic" using lock_inv_own(3) [OF lock] by (auto simp: begin_collection_def)
  have "dispatch_next t hc rest s \<noteq> Panic" if d: "phase s t = Dispatching (hc # rest)"
  proof -
    have "current_command s (fst hc) = None"
    proof (rule ccontr)
      assume "current_command s (fst hc) \<noteq> None"
      then obtain u where u: "awaits u (phase s u) (fst hc)" using cmd by (auto simp: command_inv_def)
      then have "u = t" using awaits_unique [OF lock] d by simp
      then show False using u d by simp
    qed
    then show ?thesis by (simp add: dispatch_next_def enqueue_command_for_arena_def)
  qed
  moreover have "finish_collection_inner t s \<noteq> Panic" if c: "phase s t = Collecting"
  proof -
    have "\<not> awaits u (phase s u) h" for u h using awaits_unique [OF lock, of t u h] c by auto
    then have "no_pending_commands s" by (intro no_pending_idle [OF inv]) blast
    then show ?thesis using lock_inv_own(1) [OF lock, of t] lock_inv_own(3) [OF lock] c by (simp add: finish_collection_inner_def)
  qed
  moreover have "command_finished r t s \<noteq> Panic" if "phase s t = Executing r c"
    using cmd that by (simp add: command_inv_def command_finished_def) (metis option.distinct(1) slot_ok_simps(4))
  ultimately show ?thesis using thr beginning by (simp add: thread_inv_def)
qed

text \<open>Two threads, the first stops the second.\<close>

definition request_run :: "(unit op \<times> nat) list" where
  "request_run = [(Start, 1), (Attach, 1), (Start, 2), (Attach, 2), (Begin, 1), (Request, 1), (Coordinate, 1),
     (Reach, 2), (Arrive, 2), (Poll, 2), (Sleep, 2)]"

definition stop_run :: "(unit op \<times> nat) list" where
  "stop_run = request_run @ [(Stopped, 1)]"

definition round_run :: "(unit op \<times> nat) list" where
  "round_run = [(Round [(2, ())], 1), (Dispatch, 1), (Snapshot [2], 1), (Check, 1), (Poll, 2), (Execute, 2), (Check, 1), (Checked, 1)]"

definition run_from_start :: "(unit op \<times> nat) list \<Rightarrow> unit gc_state" where
  "run_from_start as = the (run as (gc_initial 1))"

lemma run_from_start_reachable: "run as (gc_initial 1) \<noteq> None \<Longrightarrow> gc_reachable (run_from_start as)"
  using run_reachable [OF gc_reachable.initially] by (auto simp: run_from_start_def)

lemma run_append: "run (as @ bs) s = Option.bind (run as s) (run bs)"
  by (induction as s rule: run.induct) (auto simp: bind_assoc split: bind_split)

lemma run_from_start_step:
  assumes "run (as @ [(a, t)]) (gc_initial 1) \<noteq> None"
  shows "gc_step t (run_from_start as) (run_from_start (as @ [(a, t)]))"
  using assms run_op_step by (auto simp: run_append run_from_start_def split: bind_splits)

theorem handshake_assertions_witness:
  "gc_reachable (run_from_start (stop_run @ [(Round [(2, ())], 1)])) \<and>
   phase (run_from_start (stop_run @ [(Round [(2, ())], 1)])) 1 = Dispatching [(2, ())] \<and>
   dispatch_next 1 (2, ()) [] (run_from_start (stop_run @ [(Round [(2, ())], 1)])) \<noteq> Panic"
proof -
  have r: "gc_reachable (run_from_start (stop_run @ [(Round [(2, ())], 1)]))"
    by (rule run_from_start_reachable) code_simp
  moreover have "phase (run_from_start (stop_run @ [(Round [(2, ())], 1)])) 1 = Dispatching [(2, ())]" by code_simp
  ultimately show ?thesis using handshake_assertions [OF r, of 1 undefined undefined "(2, ())" "[]"] by simp
qed

section \<open>A stopped world\<close>

definition parked :: "'c gc_phase \<Rightarrow> bool" where
  "parked p = (case p of Polling _ \<Rightarrow> True | Committed _ \<Rightarrow> True | Sleeping _ \<Rightarrow> True | Executing _ _ \<Rightarrow> True | _ \<Rightarrow> False)"

definition leaving :: "'c gc_phase \<Rightarrow> bool" where
  "leaving p = (case p of Leaving _ \<Rightarrow> True | _ \<Rightarrow> False)"

lemma parked_simps [simp]:
  "parked (Polling r)" "parked (Committed r)" "parked (Sleeping r)" "parked (Executing r c)"
  "\<not> parked Absent" "\<not> parked Mutating" "\<not> parked (Stopping r)" "\<not> parked (Leaving r)" "\<not> parked InSession" "\<not> parked Requesting"
  "\<not> parked AwaitingStop" "\<not> parked Collecting" "\<not> parked (Dispatching hcs)" "\<not> parked (Checking hs)" "\<not> parked (Blocked h hs)"
  "\<not> parked Finished" "\<not> parked Releasing"
  by (simp_all add: parked_def)

lemma counted_parked: "counted p \<longleftrightarrow> parked p \<or> leaving p"
  by (cases p) (simp_all add: parked_def leaving_def)

lemma parked_notify [simp]: "parked (notify_finish h ph u) = parked (ph u)" "parked (notify_command hs ph u) = parked (ph u)"
  by (cases "ph u"; simp add: parked_def notify_finish_def notify_command_def)+

lemma step_other:
  assumes "gc_step v s s'" and "u \<noteq> v"
  shows "phase s' u = phase s u \<or> (\<exists>h. phase s' u = notify_finish h (phase s) u) \<or> (\<exists>hs. phase s' u = notify_command hs (phase s) u)"
  using assms(1)
proof cases
  case (execute r c)
  then show ?thesis using assms(2) by (auto simp: assert_ops_Ok)
next
  case (dispatch hc rest)
  then show ?thesis using assms(2) by (auto simp: assert_ops_Ok)
next
  case (poll r)
  then show ?thesis using assms(2) by (simp add: wait_for_command_or_resume_def split: option.split)
next
  case coordinate
  then show ?thesis using assms(2) by (simp add: acquire_coordination_def safe_point_def split: option.split)
next
  case notify
  then show ?thesis using assms(2) by (auto simp: notify_resume_def)
next
  case detach
  then show ?thesis by (auto simp: unregister_arena_def Let_def)
qed (use assms(2) in \<open>auto simp: register_thread_def register_arena_def unregister_thread_def safe_point_def safe_point_arrive_def
    wait_command_signal_def safe_point_leave_def assert_ops_Ok request_stop_the_world_def await_stopped_def wait_on_arena_def resume_threads_def\<close>)

lemma parked_stays:
  assumes "gc_step v s s'" and "gc_stop_requested s" and "parked (phase s u)" and "u \<in> arenas s"
  shows "parked (phase s' u)"
proof (cases "u = v")
  case False
  then show ?thesis using step_other [OF assms(1) False] assms(3) by auto
next
  case True
  from assms(1) show ?thesis
  proof cases
    case (poll r)
    then show ?thesis using assms True by (simp add: wait_for_command_or_resume_def split: option.split)
  next
    case (sleep r)
    then show ?thesis using True by (simp add: wait_command_signal_def)
  next
    case (execute r c)
    then show ?thesis using True by (auto simp: assert_ops_Ok)
  qed (use assms(3) True in auto)
qed

lemma stopped_step:
  assumes "gc_step t s s'" and "phase s t = AwaitingStop" and "phase s' t = Collecting"
  shows "target_stopped t s \<le> threads_at_safepoint s \<and> phase s' = (phase s)(t := Collecting)"
  using assms(1)
proof cases
  case stopped
  then show ?thesis using assms(2,3) by (auto simp: await_stopped_def split: if_splits)
qed (use assms(2) in auto)


lemma run_untouched: "u \<notin> snd ` set as \<Longrightarrow> phase s u = Absent \<Longrightarrow> run as s = Some s' \<Longrightarrow> phase s' u = Absent"
proof (induction as s rule: run.induct)
  case (2 a t as s)
  then obtain s1 where s1: "run_op a t s = Some s1" "run as s1 = Some s'" by (auto simp: bind_eq_Some_conv)
  have "phase s1 u = Absent"
    using step_other [OF run_op_step [OF s1(1)], of u] 2(2,3) by (auto simp: notify_finish_def notify_command_def)
  then show ?case using 2(1) [OF s1(1)] 2(2) s1(2) by simp
qed simp


section \<open>Commands complete\<close>

text \<open>The collecting thread \<open>t\<close> sleeps until the command of \<open>h\<close> is done, and the stop request stands.\<close>

definition waits_for :: "nat \<Rightarrow> nat \<Rightarrow> nat list \<Rightarrow> 'c gc_state \<Rightarrow> bool" where
  "waits_for t h hs s \<longleftrightarrow> phase s t = Blocked h hs \<and> h \<noteq> t \<and> h \<in> arenas s \<and> current_command s h \<noteq> None \<and> gc_stop_requested s"

definition served :: "nat \<Rightarrow> nat \<Rightarrow> nat list \<Rightarrow> 'c gc_state \<Rightarrow> bool" where
  "served t h hs s \<longleftrightarrow> (\<exists>s'. (gc_step h)\<^sup>*\<^sup>* s s' \<and> current_command s' h = None \<and> phase s' t = Checking (h # hs) \<and> gc_stop_requested s')"

lemma served_step: "gc_step h s s' \<Longrightarrow> served t h hs s' \<Longrightarrow> served t h hs s"
  unfolding served_def by (meson converse_rtranclp_into_rtranclp)

lemma served_executing:
  assumes "waits_for t h hs s" and "phase s h = Executing r c"
  shows "served t h hs s"
proof -
  let ?s = "goto h (Polling r) (s\<lparr>current_command := (current_command s)(h := None), phase := notify_finish h (phase s)\<rparr>)"
  have "command_finished r h s = Ok ?s" using assms(1) by (simp add: command_finished_def waits_for_def)
  from gc_step.execute [OF assms(2) this] show ?thesis using assms(1)
    unfolding served_def by (intro exI [of _ ?s]) (auto simp: waits_for_def notify_finish_def)
qed

lemma served_polling:
  assumes "waits_for t h hs s" and "phase s h = Polling r"
  shows "served t h hs s"
proof -
  obtain c where c: "current_command s h = Some c" using assms(1) by (auto simp: waits_for_def)
  have "gc_step h s (goto h (Executing r c) s)"
    using gc_step.poll [OF assms(2)] assms(1) c by (simp add: wait_for_command_or_resume_def waits_for_def)
  moreover have "served t h hs (goto h (Executing r c) s)"
    using assms(1) by (intro served_executing [of _ _ _ _ r c]) (auto simp: waits_for_def)
  ultimately show ?thesis by (rule served_step)
qed

lemma served_stopping:
  assumes "waits_for t h hs s" and "phase s h = Stopping r"
  shows "served t h hs s"
proof (rule served_step)
  show "gc_step h s (safe_point_arrive r h s)" using assms(2) by (rule gc_step.arrive)
  show "served t h hs (safe_point_arrive r h s)"
    using assms(1) by (intro served_polling [of _ _ _ _ r]) (auto simp: waits_for_def safe_point_arrive_def)
qed

lemma served_mutating:
  assumes "waits_for t h hs s" and "phase s h = Mutating"
  shows "served t h hs s"
proof (rule served_step)
  show "gc_step h s (safe_point FromCode h s)" using assms(2) by (rule gc_step.reach)
  show "served t h hs (safe_point FromCode h s)"
    using assms(1) by (intro served_stopping [of _ _ _ _ FromCode]) (auto simp: waits_for_def safe_point_def)
qed

lemma served_leaving:
  assumes "waits_for t h hs s" and "phase s h = Leaving FromCode"
  shows "served t h hs s"
proof (rule served_step)
  show "gc_step h s (safe_point_leave FromCode h s)" using assms(2) by (rule gc_step.leave)
  show "served t h hs (safe_point_leave FromCode h s)"
    using assms(1) by (intro served_mutating) (auto simp: waits_for_def safe_point_leave_def)
qed

text \<open>
  C13: A collecting thread never waits in vain: in every reachable state in which it sleeps until the command of another
  arena is done and the stop request stands, the owner of that arena can, by steps of its own only, complete the
  command and wake the collecting thread. The command cannot have been lost, wherever the owner is: running, stopping,
  at the safe point, or on its way out of one.
\<close>

theorem command_completes:
  assumes "gc_reachable s" and "phase s t = Blocked h hs" and "gc_stop_requested s"
  shows "h \<in> arenas s \<and> h \<noteq> t \<and>
    (\<exists>s'. (gc_step h)\<^sup>*\<^sup>* s s' \<and> current_command s' h = None \<and> phase s' t = Checking (h # hs) \<and> gc_stop_requested s')"
proof -
  have inv: "thread_inv s" "lock_inv s" "command_inv s" using gc_reachable_inv [OF assms(1)] by (simp_all add: gc_inv_def)
  have slot: "slot_ok (current_command s) t (phase s t)" "slot_ok (current_command s) h (phase s h)"
    using inv(3) by (simp_all add: command_inv_def)
  have w: "waits_for t h hs s" using slot(1) assms(2,3) inv(3) by (auto simp: waits_for_def command_inv_def)
  have "h \<noteq> t" "current_command s h \<noteq> None" using w by (simp_all add: waits_for_def)
  have "alive (phase s h)" using w inv(1) by (auto simp: waits_for_def thread_inv_def)
  moreover have "\<not> in_session (phase s h)" "\<not> coordinating (phase s h)"
    using lock_inv_own(1,2) [OF inv(2), of h] lock_inv_own(1,2) [OF inv(2), of t] assms(2) \<open>h \<noteq> t\<close> by auto
  ultimately have "served t h hs s"
  proof (cases "phase s h")
    case (Leaving r)
    with \<open>\<not> in_session (phase s h)\<close> show ?thesis using served_leaving [OF w] by (cases r) simp_all
  qed (use slot(2) \<open>current_command s h \<noteq> None\<close> served_executing [OF w] served_polling [OF w] served_stopping [OF w] served_mutating [OF w] in auto)
  then show ?thesis using w by (simp add: served_def waits_for_def)
qed

theorem command_completes_witness:
  "\<exists>s'. (gc_step 2)\<^sup>*\<^sup>* (run_from_start (stop_run @ take 4 round_run)) s' \<and> current_command s' 2 = None \<and> phase s' 1 = Checking [2]"
proof -
  have "gc_reachable (run_from_start (stop_run @ take 4 round_run))" by (rule run_from_start_reachable) code_simp
  moreover have "phase (run_from_start (stop_run @ take 4 round_run)) 1 = Blocked 2 []" by code_simp
  moreover have "gc_stop_requested (run_from_start (stop_run @ take 4 round_run))" by code_simp
  ultimately show ?thesis using command_completes [of "run_from_start (stop_run @ take 4 round_run)" 1 2 "[]"] by blast
qed

section \<open>A lost resume signal\<close>

definition no_collection :: "'c gc_state \<Rightarrow> bool" where
  "no_collection s \<longleftrightarrow> collection_lock s = None \<and> gc_coordination s = None"

definition idle_step :: "'c gc_state \<Rightarrow> 'c gc_state \<Rightarrow> bool" where
  "idle_step s s' \<longleftrightarrow> (\<exists>u. gc_step u s s') \<and> collection_lock s' = None"

lemma no_collection_phases:
  assumes "gc_inv s" and "no_collection s"
  shows "\<not> in_session (phase s u)" "\<not> coordinating (phase s u)"
  using assms lock_inv_own(1,2) [of s u] by (auto simp: gc_inv_def no_collection_def)

lemma sleeper_stays:
  assumes "gc_step u s s'" and "gc_inv s" and "no_collection s" and "phase s v = Sleeping r" and "collection_lock s' = None"
  shows "no_collection s' \<and> phase s' v = Sleeping r"
proof -
  note no = no_collection_phases [OF assms(2,3), of u]
  have uv: "u \<noteq> v" using assms(1,4) by (auto elim: gc_step.cases)
  from assms(1) show ?thesis
  proof cases
    case (execute q c)
    then show ?thesis using assms(3,4,5) uv by (auto simp: assert_ops_Ok no_collection_def notify_finish_def)
  next
    case detach
    then show ?thesis using assms(3,4,5) uv by (auto simp: unregister_arena_def Let_def no_collection_def notify_finish_def)
  next
    case (poll q)
    then show ?thesis using assms(3,4) uv by (simp add: wait_for_command_or_resume_def no_collection_def split: option.split)
  qed (use no assms(3,4,5) uv in \<open>auto simp: no_collection_def register_thread_def register_arena_def unregister_thread_def
      safe_point_def safe_point_arrive_def wait_command_signal_def safe_point_leave_def assert_ops_Ok\<close>)
qed

text \<open>
  C39: A thread can sleep at a safe point although the world runs again. The stop flag is cleared and the signal sent
  without the mutex of the thread's command slot, so both can fall between the thread's look at the flag and its wait:
  there is a reachable state in which no collection is running and none is requested, another thread runs, and the thread
  sleeps; it has no step of its own, and it sleeps on whatever the others do until one of them begins another collection.
\<close>

theorem resume_signal_lost:
  "\<exists>s :: unit gc_state. gc_reachable s \<and> no_collection s \<and> \<not> gc_stop_requested s \<and> phase s 1 = Mutating \<and> phase s 2 = Sleeping FromCode \<and>
     (\<forall>s'. \<not> gc_step 2 s s') \<and> (\<nexists>s'. idle_step\<^sup>*\<^sup>* s s' \<and> phase s' 2 \<noteq> Sleeping FromCode)"
proof -
  let ?s = "run_from_start (stop_run @ round_run @ [(Finish, 1), (Poll, 2), (Resume, 1), (Notify, 1), (Sleep, 2)])"
  have r: "gc_reachable ?s" by (rule run_from_start_reachable) code_simp
  have n: "no_collection ?s" by code_simp
  have p: "phase ?s 2 = Sleeping FromCode" by code_simp
  have "gc_reachable s' \<and> no_collection s' \<and> phase s' 2 = Sleeping FromCode" if "idle_step\<^sup>*\<^sup>* ?s s'" for s'
    using that
  proof (induction rule: rtranclp_induct)
    case (step y z)
    then obtain u where u: "gc_step u y z" "collection_lock z = None" by (auto simp: idle_step_def)
    then show ?case using step.IH sleeper_stays [OF u(1) _ _ _ u(2)] gc_reachable_inv gc_reachable.later by blast
  qed (use r n p in simp)
  moreover have "\<not> gc_step 2 ?s s'" for s' using p by (auto elim: gc_step.cases)
  moreover have "\<not> gc_stop_requested ?s" "phase ?s 1 = Mutating" by code_simp+
  ultimately show ?thesis using r n p by blast
qed

section \<open>A lost stop request\<close>

text \<open>Thread \<open>c\<close> waits for a stop that is not requested any more, and thread \<open>m\<close> runs.\<close>

definition stranded :: "nat \<Rightarrow> nat \<Rightarrow> 'c gc_state \<Rightarrow> bool" where
  "stranded c m s \<longleftrightarrow> c \<noteq> m \<and> phase s c = AwaitingStop \<and> \<not> gc_stop_requested s \<and> (phase s m = Mutating \<or> phase s m = Exited)"

lemma stranded_step:
  assumes "gc_step u s s'" and inv: "gc_inv s" and st: "stranded c m s" and "m \<in> threads s"
  shows "stranded c m s'"
proof -
  have lock: "lock_inv s" and thr: "thread_inv s" using inv by (simp_all add: gc_inv_def)
  have c: "phase s c = AwaitingStop" "\<not> gc_stop_requested s" "c \<noteq> m" and m: "phase s m = Mutating"
    using st thread_inv_alive [OF thr, of m] assms(4) by (auto simp: stranded_def)
  have own: "collection_lock s = Some c" using lock_inv_own(1) [OF lock, of c] c(1) by simp
  have only: "\<not> in_session (phase s u) \<and> \<not> coordinating (phase s u)" if "u \<noteq> c"
    using lock_inv_own(1,2) [OF lock, of u] lock_inv_own(1,2) [OF lock, of c] c(1) that by auto
  have "card {t. counted (phase s t)} \<le> card (threads s - {c, m})"
  proof (rule card_mono)
    show "{t. counted (phase s t)} \<subseteq> threads s - {c, m}"
    proof
      fix t assume "t \<in> {t. counted (phase s t)}"
      then have t: "counted (phase s t)" by simp
      then have "t \<noteq> c" "t \<noteq> m" using c(1) m by auto
      then show "t \<in> threads s - {c, m}" using t thread_inv_alive [OF thr, of t] counted_alive by simp
    qed
  qed (use thr in \<open>simp add: thread_inv_def\<close>)
  moreover have "c \<in> threads s" using thread_inv_alive [OF thr, of c] c(1) by simp
  ultimately have short: "threads_at_safepoint s < target_stopped c s"
    using thr assms(4) c(3) card_Diff_subset [of "{c, m}" "threads s"] card_mono [of "threads s" "{c, m}"]
    by (simp add: thread_inv_def target_stopped_def)
  show ?thesis
  proof (cases "u = c")
    case True
    with assms(1) show ?thesis
    proof cases
      case stopped
      then show ?thesis using short st True by (simp add: await_stopped_def)
    qed (use c(1) True in auto)
  next
    case False
    have keeps: "phase s' c = AwaitingStop"
      using step_other [OF assms(1), of c] False c(1) by (auto simp: notify_finish_def notify_command_def)
    have "phase s' m = Mutating" if "u \<noteq> m"
      using step_other [OF assms(1), of m] that m by (auto simp: notify_finish_def notify_command_def)
    moreover have "phase s' m = Mutating \<or> phase s' m = Exited" if "u = m"
      using assms(1)
    proof cases
      case begins
      then show ?thesis using own m that by (auto simp: assert_ops_Ok)
    next
      case (allocates bytes)
      then show ?thesis using m that by (auto simp: assert_ops_Ok)
    qed (use m that c(2) in \<open>auto simp: register_arena_def unregister_arena_def Let_def unregister_thread_def safe_point_def notify_finish_def\<close>)
    moreover have "\<not> gc_stop_requested s'"
      using assms(1)
    proof cases
      case (poll q)
      then show ?thesis using c(2) by (simp add: wait_for_command_or_resume_def split: option.split)
    qed (use c(2) own only [OF False] in \<open>auto simp: register_thread_def register_arena_def unregister_arena_def Let_def unregister_thread_def
        safe_point_def safe_point_arrive_def wait_command_signal_def safe_point_leave_def assert_ops_Ok resume_threads_def\<close>)
    ultimately show ?thesis using keeps c(3) by (auto simp: stranded_def)
  qed
qed

text \<open>
  C40: A stop request can be lost. The collecting thread gives up the collection lock before it clears the stop flag, so
  a thread that begins the next collection in between sets a flag that is already set and that is then cleared: there is
  a reachable state in which that thread holds both locks and waits for the others to stop although the flag is not
  set, and another thread runs. As long as the running thread stays registered the flag stays clear, the running
  thread never stops and the collection never starts.
\<close>

theorem stop_request_lost:
  "\<exists>s :: unit gc_state. gc_reachable s \<and> phase s 3 = AwaitingStop \<and> \<not> gc_stop_requested s \<and> phase s 1 = Mutating \<and> 1 \<in> threads s \<and>
     (\<nexists>s'. (\<lambda>x y. (\<exists>u. gc_step u x y) \<and> 1 \<in> threads x)\<^sup>*\<^sup>* s s' \<and> \<not> (phase s' 3 = AwaitingStop \<and> \<not> gc_stop_requested s'))"
proof -
  let ?s = "run_from_start (stop_run @ [(Finish, 1), (Start, 3), (Attach, 3), (Begin, 3), (Request, 3), (Resume, 1), (Notify, 1), (Coordinate, 3)])"
  have r: "gc_reachable ?s" by (rule run_from_start_reachable) code_simp
  have p: "phase ?s 3 = AwaitingStop" "\<not> gc_stop_requested ?s" "phase ?s 1 = Mutating" "1 \<in> threads ?s" by code_simp+
  have "gc_reachable s' \<and> stranded 3 1 s'" if "(\<lambda>x y. (\<exists>u. gc_step u x y) \<and> 1 \<in> threads x)\<^sup>*\<^sup>* ?s s'" for s'
    using that
  proof (induction rule: rtranclp_induct)
    case (step y z)
    then obtain u where u: "gc_step u y z" "1 \<in> threads y" by blast
    then show ?case using step.IH stranded_step [OF u(1) _ _ u(2)] gc_reachable_inv gc_reachable.later by blast
  qed (use r p in \<open>simp add: stranded_def\<close>)
  then show ?thesis using r p by (intro exI [of _ ?s]) (auto simp: stranded_def)
qed

end
