(* ===== verification/Gc_Mark.thy ===== *)
theory Gc_Mark
  imports Prelude
begin

text \<open>
  The marking of a collection over all arenas (\<open>CollectionSession::collect_all_arenas\<close> in \<open>dotnet-vm/src/gc/coordinator.rs\<close>
  and \<open>execute_gc_command_for_current_thread\<close> in \<open>dotnet-vm/src/threading/basic.rs\<close>). Each arena marks its own objects; references
  it finds into other arenas are recorded and sent to their owners, until a round finds nothing new. The marking
  inside one arena is that of the collector library and a parameter, as are the registrations and the leases. An arena
  marks only its own objects and adds to the shared set of references, so the arenas of a round are taken in the
  order of a list. The world is stopped: the object graph does not change.
\<close>

section \<open>State\<close>

record cross_ref =
  ref_arena :: nat
  ref_generation :: nat
  ref_ptr :: nat

abbreviation ref_identity :: "cross_ref \<Rightarrow> nat \<times> nat" where
  "ref_identity r \<equiv> (ref_arena r, ref_generation r)"

record gc_world =
  has_arena :: "nat \<Rightarrow> bool"
  arena_identity :: "nat \<Rightarrow> (nat \<times> nat) option"
  lease_live :: "nat \<times> nat \<Rightarrow> bool"
  finish_marking :: "nat \<Rightarrow> nat set \<Rightarrow> nat set \<Rightarrow> nat set \<times> cross_ref set"

record mark_state =
  marked :: "nat \<Rightarrow> nat set"
  cross_arena_roots :: "nat \<Rightarrow> nat set"
  cross_arena_refs :: "cross_ref set"

section \<open>Commands\<close>

definition record_found_cross_arena_refs :: "gc_world \<Rightarrow> cross_ref set \<Rightarrow> mark_state \<Rightarrow> mark_state" where
  "record_found_cross_arena_refs w found s =
     s\<lparr>cross_arena_refs := cross_arena_refs s \<union> Set.filter (\<lambda>r. lease_live w (ref_identity r)) found\<rparr>"

definition mark_arena :: "gc_world \<Rightarrow> nat \<Rightarrow> mark_state \<Rightarrow> mark_state" where
  "mark_arena w a s =
     (let (ms, found) = finish_marking w a (cross_arena_roots s a) (marked s a) in
      record_found_cross_arena_refs w found (s\<lparr>marked := (marked s)(a := ms)\<rparr>))"

definition mark_all :: "gc_world \<Rightarrow> nat \<Rightarrow> mark_state \<Rightarrow> mark_state" where
  "mark_all w a s =
     (if has_arena w a then mark_arena w a (s\<lparr>cross_arena_roots := (cross_arena_roots s)(a := {})\<rparr>) else s)"

definition installs :: "gc_world \<Rightarrow> nat \<Rightarrow> cross_ref \<Rightarrow> bool" where
  "installs w a r \<longleftrightarrow> ref_arena r = a \<and> arena_identity w a = Some (ref_identity r) \<and> lease_live w (ref_identity r)"

definition mark_objects :: "gc_world \<Rightarrow> nat \<Rightarrow> cross_ref set \<Rightarrow> mark_state \<Rightarrow> mark_state" where
  "mark_objects w a ptrs s =
     (if has_arena w a
      then mark_arena w a (s\<lparr>cross_arena_roots :=
        (cross_arena_roots s)(a := cross_arena_roots s a \<union> ref_ptr ` Set.filter (installs w a) ptrs)\<rparr>)
      else s)"

section \<open>The fixed point\<close>

definition dispatch_round :: "gc_world \<Rightarrow> nat list \<Rightarrow> cross_ref set \<Rightarrow> mark_state \<Rightarrow> mark_state" where
  "dispatch_round w as fresh s =
     fold (\<lambda>a s. let ptrs = Set.filter (\<lambda>r. ref_arena r = a) fresh in if ptrs = {} then s else mark_objects w a ptrs s)
       as (s\<lparr>cross_arena_refs := {}\<rparr>)"

fun mark_fixed_point :: "gc_world \<Rightarrow> nat list \<Rightarrow> nat \<Rightarrow> cross_ref set \<Rightarrow> mark_state \<Rightarrow> mark_state option" where
  "mark_fixed_point w as 0 dispatched s = None"
| "mark_fixed_point w as (Suc n) dispatched s =
     (let fresh = cross_arena_refs s - dispatched in
      if fresh = {} then Some (s\<lparr>cross_arena_refs := {}\<rparr>)
      else let s' = dispatch_round w as fresh s in
           if cross_arena_refs s' = {} then Some s'
           else mark_fixed_point w as n (dispatched \<union> fresh) s')"

definition mark_all_arenas ::
    "gc_world \<Rightarrow> nat list \<Rightarrow> nat \<Rightarrow> nat \<Rightarrow> mark_state \<Rightarrow> ('e, mark_state option) outcome" where
  "mark_all_arenas w as initiator n s =
     (if initiator \<notin> set as then Panic
      else Ok (mark_fixed_point w as n {} (fold (mark_all w) as (s\<lparr>cross_arena_refs := {}\<rparr>))))"

section \<open>The object graph\<close>

text \<open>
  What the graph is to the theorems: the roots and the objects of each arena, the references between objects of one arena,
  and the references into other arenas that tracing a root or an object finds.
\<close>

record object_graph =
  g_roots :: "nat \<Rightarrow> nat set"
  g_edges :: "nat \<Rightarrow> nat \<Rightarrow> nat set"
  g_root_refs :: "nat \<Rightarrow> cross_ref set"
  g_foreign :: "nat \<Rightarrow> nat \<Rightarrow> cross_ref set"

inductive_set local_reach :: "object_graph \<Rightarrow> nat \<Rightarrow> nat set \<Rightarrow> nat set" for G a X where
  local_root: "p \<in> X \<Longrightarrow> p \<in> local_reach G a X"
| local_edge: "p \<in> local_reach G a X \<Longrightarrow> q \<in> g_edges G a p \<Longrightarrow> q \<in> local_reach G a X"

text \<open>
  The contract of the collector library: finishing the mark phase of an arena marks what its roots and the installed roots
  reach, and tracing reports the foreign references of the objects it marks, and of the roots in the first phase;
  it may report references of objects that were marked before.
\<close>

definition marker_ok :: "object_graph \<Rightarrow> gc_world \<Rightarrow> bool" where
  "marker_ok G w \<longleftrightarrow> (\<forall>a X M. has_arena w a \<longrightarrow>
     (let (ms, found) = finish_marking w a X M in
      ms = M \<union> local_reach G a (g_roots G a \<union> X) \<and>
      found \<subseteq> g_root_refs G a \<union> (\<Union>p \<in> ms. g_foreign G a p) \<and>
      (\<Union>p \<in> ms - M. g_foreign G a p) \<subseteq> found \<and> (M = {} \<longrightarrow> g_root_refs G a \<subseteq> found)))"

definition deliverable :: "gc_world \<Rightarrow> nat list \<Rightarrow> cross_ref \<Rightarrow> bool" where
  "deliverable w as r \<longleftrightarrow> ref_arena r \<in> set as \<and> has_arena w (ref_arena r) \<and>
     arena_identity w (ref_arena r) = Some (ref_identity r) \<and> lease_live w (ref_identity r)"

inductive_set reaches :: "object_graph \<Rightarrow> gc_world \<Rightarrow> nat list \<Rightarrow> (nat \<times> nat) set" for G w as where
  root: "a \<in> set as \<Longrightarrow> has_arena w a \<Longrightarrow> p \<in> g_roots G a \<Longrightarrow> (a, p) \<in> reaches G w as"
| root_ref: "a \<in> set as \<Longrightarrow> has_arena w a \<Longrightarrow> r \<in> g_root_refs G a \<Longrightarrow> deliverable w as r \<Longrightarrow>
    (ref_arena r, ref_ptr r) \<in> reaches G w as"
| edge: "(a, p) \<in> reaches G w as \<Longrightarrow> q \<in> g_edges G a p \<Longrightarrow> (a, q) \<in> reaches G w as"
| foreign: "(a, p) \<in> reaches G w as \<Longrightarrow> r \<in> g_foreign G a p \<Longrightarrow> deliverable w as r \<Longrightarrow>
    (ref_arena r, ref_ptr r) \<in> reaches G w as"

section \<open>The invariant of the marking\<close>

text \<open>The references that tracing the marked objects of an arena finds, and can be recorded.\<close>

definition found_refs :: "object_graph \<Rightarrow> gc_world \<Rightarrow> nat \<Rightarrow> nat set \<Rightarrow> cross_ref set" where
  "found_refs G w a ms =
     {r \<in> g_root_refs G a \<union> (\<Union>p \<in> ms. g_foreign G a p). lease_live w (ref_identity r)}"

abbreviation installed_ok :: "object_graph \<Rightarrow> gc_world \<Rightarrow> nat list \<Rightarrow> mark_state \<Rightarrow> bool" where
  "installed_ok G w as s \<equiv> \<forall>a p. p \<in> cross_arena_roots s a \<longrightarrow> a \<in> set as \<longrightarrow> has_arena w a \<longrightarrow> (a, p) \<in> reaches G w as"

text \<open>Only reachable objects are marked and only their references recorded.\<close>

definition mark_sound :: "object_graph \<Rightarrow> gc_world \<Rightarrow> nat list \<Rightarrow> mark_state \<Rightarrow> bool" where
  "mark_sound G w as s \<longleftrightarrow>
     (\<forall>a p. p \<in> marked s a \<longrightarrow> a \<in> set as \<and> has_arena w a \<and> (a, p) \<in> reaches G w as) \<and>
     cross_arena_refs s \<subseteq> (\<Union>a \<in> {a \<in> set as. has_arena w a}. found_refs G w a {p. (a, p) \<in> reaches G w as})"

text \<open>An arena that has marked is closed: its roots and edges are marked and its references are recorded or done.\<close>

definition arena_closed :: "object_graph \<Rightarrow> gc_world \<Rightarrow> cross_ref set \<Rightarrow> mark_state \<Rightarrow> nat \<Rightarrow> bool" where
  "arena_closed G w dispatched s a \<longleftrightarrow>
     local_reach G a (g_roots G a \<union> cross_arena_roots s a) \<subseteq> marked s a \<and>
     (\<forall>p \<in> marked s a. g_edges G a p \<subseteq> marked s a) \<and>
     found_refs G w a (marked s a) \<subseteq> cross_arena_refs s \<union> dispatched"

lemma local_reach_closed: "p \<in> local_reach G a X \<Longrightarrow> g_edges G a p \<subseteq> local_reach G a X"
  by (blast intro: local_reach.local_edge)

lemma local_reach_reaches:
  assumes "p \<in> local_reach G a X" "\<And>q. q \<in> X \<Longrightarrow> (a, q) \<in> reaches G w as"
  shows "(a, p) \<in> reaches G w as"
  using assms by (induction rule: local_reach.induct) (auto intro: reaches.edge)

lemma marker_okD:
  assumes "marker_ok G w" "has_arena w a" "finish_marking w a X M = (ms, found)"
  shows "ms = M \<union> local_reach G a (g_roots G a \<union> X)"
    "found \<subseteq> g_root_refs G a \<union> (\<Union>p \<in> ms. g_foreign G a p)"
    "(\<Union>p \<in> ms - M. g_foreign G a p) \<subseteq> found" "M = {} \<longrightarrow> g_root_refs G a \<subseteq> found"
proof -
  have "let (ms, found) = finish_marking w a X M in
      ms = M \<union> local_reach G a (g_roots G a \<union> X) \<and>
      found \<subseteq> g_root_refs G a \<union> (\<Union>p \<in> ms. g_foreign G a p) \<and>
      (\<Union>p \<in> ms - M. g_foreign G a p) \<subseteq> found \<and> (M = {} \<longrightarrow> g_root_refs G a \<subseteq> found)"
    using assms(1,2) unfolding marker_ok_def by blast
  then have all: "ms = M \<union> local_reach G a (g_roots G a \<union> X) \<and>
      found \<subseteq> g_root_refs G a \<union> (\<Union>p \<in> ms. g_foreign G a p) \<and>
      (\<Union>p \<in> ms - M. g_foreign G a p) \<subseteq> found \<and> (M = {} \<longrightarrow> g_root_refs G a \<subseteq> found)"
    unfolding assms(3) Let_def prod.case .
  show "ms = M \<union> local_reach G a (g_roots G a \<union> X)"
    "found \<subseteq> g_root_refs G a \<union> (\<Union>p \<in> ms. g_foreign G a p)"
    "(\<Union>p \<in> ms - M. g_foreign G a p) \<subseteq> found" "M = {} \<longrightarrow> g_root_refs G a \<subseteq> found"
    using all by blast+
qed

lemma mark_arena_frame [simp]:
  "cross_arena_roots (mark_arena w a s) = cross_arena_roots s"
  "b \<noteq> a \<Longrightarrow> marked (mark_arena w a s) b = marked s b"
  by (simp_all add: mark_arena_def record_found_cross_arena_refs_def split: prod.splits)

lemma mark_arena_marked:
  assumes "marker_ok G w" "has_arena w a"
  shows "marked (mark_arena w a s) a = marked s a \<union> local_reach G a (g_roots G a \<union> cross_arena_roots s a)"
  using assms by (simp add: mark_arena_def record_found_cross_arena_refs_def marker_okD(1) split: prod.splits)

lemma mark_arena_refs:
  assumes "marker_ok G w" "has_arena w a"
  shows "cross_arena_refs s \<subseteq> cross_arena_refs (mark_arena w a s)"
    "cross_arena_refs (mark_arena w a s) \<subseteq> cross_arena_refs s \<union> found_refs G w a (marked (mark_arena w a s) a)"
    "found_refs G w a (marked (mark_arena w a s) a)
       \<subseteq> cross_arena_refs (mark_arena w a s) \<union> (if marked s a = {} then {} else found_refs G w a (marked s a))"
proof -
  obtain ms found where m: "finish_marking w a (cross_arena_roots s a) (marked s a) = (ms, found)" by fastforce
  have r: "cross_arena_refs (mark_arena w a s) = cross_arena_refs s \<union> {r \<in> found. lease_live w (ref_identity r)}"
    and k: "marked (mark_arena w a s) a = ms"
    using m by (auto simp: mark_arena_def record_found_cross_arena_refs_def)
  show "cross_arena_refs s \<subseteq> cross_arena_refs (mark_arena w a s)" using r by blast
  show "cross_arena_refs (mark_arena w a s) \<subseteq> cross_arena_refs s \<union> found_refs G w a (marked (mark_arena w a s) a)"
    using marker_okD(2) [OF assms m] unfolding r k found_refs_def by blast
  show "found_refs G w a (marked (mark_arena w a s) a)
       \<subseteq> cross_arena_refs (mark_arena w a s) \<union> (if marked s a = {} then {} else found_refs G w a (marked s a))"
    using marker_okD(3,4) [OF assms m] unfolding r k found_refs_def by (cases "marked s a = {}") auto
qed

lemma mark_arena_closed:
  assumes "marker_ok G w" "has_arena w a" "\<forall>p \<in> marked s a. g_edges G a p \<subseteq> marked s a"
    "marked s a = {} \<or> found_refs G w a (marked s a) \<subseteq> cross_arena_refs s \<union> D"
  shows "arena_closed G w D (mark_arena w a s) a"
proof -
  have "found_refs G w a (marked (mark_arena w a s) a) \<subseteq> cross_arena_refs (mark_arena w a s) \<union> D"
    using mark_arena_refs(1,3) [OF assms(1,2), of s] assms(4) by (auto split: if_splits)
  moreover have "\<forall>p \<in> marked (mark_arena w a s) a. g_edges G a p \<subseteq> marked (mark_arena w a s) a"
    using assms(3) unfolding mark_arena_marked [OF assms(1,2)] by (auto dest: local_reach_closed)
  ultimately show ?thesis
    unfolding arena_closed_def mark_arena_marked [OF assms(1,2)] mark_arena_frame(1) by blast
qed

lemma arena_closed_other:
  assumes "arena_closed G w D s b" "marker_ok G w" "has_arena w a" "b \<noteq> a"
  shows "arena_closed G w D (mark_arena w a s) b"
  using assms(1,4) mark_arena_refs(1) [OF assms(2,3), of s] unfolding arena_closed_def by auto

lemma found_refs_mono: "ms \<subseteq> ms' \<Longrightarrow> found_refs G w a ms \<subseteq> found_refs G w a ms'"
  unfolding found_refs_def by blast

lemma mark_arena_sound:
  assumes "marker_ok G w" "has_arena w a" "a \<in> set as" "mark_sound G w as s"
    "\<forall>p \<in> cross_arena_roots s a. (a, p) \<in> reaches G w as"
  shows "mark_sound G w as (mark_arena w a s)"
proof -
  have m: "(a, p) \<in> reaches G w as" if "p \<in> marked (mark_arena w a s) a" for p
  proof (cases "p \<in> marked s a")
    case True
    then show ?thesis using assms(4) unfolding mark_sound_def by blast
  next
    case False
    then have "p \<in> local_reach G a (g_roots G a \<union> cross_arena_roots s a)"
      using that unfolding mark_arena_marked [OF assms(1,2)] by blast
    then show ?thesis
      by (rule local_reach_reaches) (use assms(2,3,5) in \<open>auto intro: reaches.root\<close>)
  qed
  have "cross_arena_refs (mark_arena w a s)
    \<subseteq> cross_arena_refs s \<union> found_refs G w a {p. (a, p) \<in> reaches G w as}"
    using mark_arena_refs(2) [OF assms(1,2), of s]
      found_refs_mono [of "marked (mark_arena w a s) a" "{p. (a, p) \<in> reaches G w as}" G w a] m by blast
  then have "cross_arena_refs (mark_arena w a s)
    \<subseteq> (\<Union>a \<in> {a \<in> set as. has_arena w a}. found_refs G w a {p. (a, p) \<in> reaches G w as})"
    using assms(2,3,4) unfolding mark_sound_def by blast
  moreover have "b \<in> set as \<and> has_arena w b \<and> (b, p) \<in> reaches G w as"
    if "p \<in> marked (mark_arena w a s) b" for b p
    using that m assms(2,3,4) unfolding mark_sound_def by (cases "b = a") auto
  ultimately show ?thesis unfolding mark_sound_def by blast
qed

section \<open>The first phase\<close>

lemma mark_all_closed:
  assumes "marker_ok G w" "has_arena w a"
    "marked s a = {} \<or> cross_arena_roots s a = {} \<and> arena_closed G w {} s a"
  shows "cross_arena_roots (mark_all w a s) a = {} \<and> arena_closed G w {} (mark_all w a s) a"
proof -
  have "arena_closed G w {} (mark_arena w a (s\<lparr>cross_arena_roots := (cross_arena_roots s)(a := {})\<rparr>)) a"
    by (rule mark_arena_closed [OF assms(1,2)]) (use assms(3) in \<open>auto simp: arena_closed_def\<close>)
  then show ?thesis using assms(2) by (simp add: mark_all_def)
qed

lemma mark_all_other:
  assumes "marker_ok G w" "b \<noteq> a"
  shows "cross_arena_roots (mark_all w a s) b = cross_arena_roots s b" "marked (mark_all w a s) b = marked s b"
    "arena_closed G w D s b \<Longrightarrow> arena_closed G w D (mark_all w a s) b"
proof -
  show "cross_arena_roots (mark_all w a s) b = cross_arena_roots s b" "marked (mark_all w a s) b = marked s b"
    using assms(2) by (simp_all add: mark_all_def)
  assume "arena_closed G w D s b"
  then have "arena_closed G w D (s\<lparr>cross_arena_roots := (cross_arena_roots s)(a := {})\<rparr>) b"
    using assms(2) by (simp add: arena_closed_def)
  then show "arena_closed G w D (mark_all w a s) b"
    using \<open>arena_closed G w D s b\<close> assms by (simp add: mark_all_def arena_closed_other)
qed

lemma mark_all_sound:
  assumes "marker_ok G w" "a \<in> set as" "mark_sound G w as s"
  shows "mark_sound G w as (mark_all w a s)"
proof -
  have "mark_sound G w as (s\<lparr>cross_arena_roots := (cross_arena_roots s)(a := {})\<rparr>)"
    using assms(3) by (simp add: mark_sound_def)
  then show ?thesis using assms by (simp add: mark_all_def mark_arena_sound)
qed

lemma fold_mark_all:
  assumes "marker_ok G w" "set xs \<subseteq> set as" "mark_sound G w as s"
    "\<forall>b. has_arena w b \<longrightarrow> marked s b = {} \<or> cross_arena_roots s b = {} \<and> arena_closed G w {} s b"
  shows "mark_sound G w as (fold (mark_all w) xs s) \<and>
    (\<forall>b. has_arena w b \<longrightarrow> (b \<in> set xs \<or> cross_arena_roots s b = {} \<and> arena_closed G w {} s b) \<longrightarrow>
      cross_arena_roots (fold (mark_all w) xs s) b = {} \<and> arena_closed G w {} (fold (mark_all w) xs s) b)"
  using assms(2-)
proof (induction xs arbitrary: s)
  case (Cons a xs)
  let ?s = "mark_all w a s"
  have sound: "mark_sound G w as ?s" using mark_all_sound [OF assms(1)] Cons.prems(1,2) by simp
  have step: "cross_arena_roots ?s b = {} \<and> arena_closed G w {} ?s b"
    if "has_arena w b" "b = a \<or> cross_arena_roots s b = {} \<and> arena_closed G w {} s b" for b
    using that mark_all_closed [OF assms(1)] mark_all_other [OF assms(1)] Cons.prems(3) by (cases "b = a") metis+
  have "\<forall>b. has_arena w b \<longrightarrow> marked ?s b = {} \<or> cross_arena_roots ?s b = {} \<and> arena_closed G w {} ?s b"
    using step mark_all_other(2) [OF assms(1)] Cons.prems(3) by metis
  then show ?case using Cons.IH [OF _ sound] Cons.prems(1) step by auto
qed simp

section \<open>The rounds\<close>

text \<open>Every reference that was sent to an owner that takes it is one of the installed roots of the owner.\<close>

definition delivered :: "gc_world \<Rightarrow> nat list \<Rightarrow> cross_ref set \<Rightarrow> mark_state \<Rightarrow> bool" where
  "delivered w as D s \<longleftrightarrow> (\<forall>r \<in> D. deliverable w as r \<longrightarrow> ref_ptr r \<in> cross_arena_roots s (ref_arena r))"

definition round_inv :: "object_graph \<Rightarrow> gc_world \<Rightarrow> nat list \<Rightarrow> cross_ref set \<Rightarrow> mark_state \<Rightarrow> bool" where
  "round_inv G w as D s \<longleftrightarrow> mark_sound G w as s \<and> installed_ok G w as s \<and>
     (\<forall>a \<in> set as. has_arena w a \<longrightarrow> arena_closed G w D s a)"

lemma mark_objects_inv:
  assumes "marker_ok G w" "round_inv G w as D s" "a \<in> set as"
    "\<forall>r \<in> ptrs. deliverable w as r \<longrightarrow> (ref_arena r, ref_ptr r) \<in> reaches G w as"
  shows "round_inv G w as D (mark_objects w a ptrs s)"
proof (cases "has_arena w a")
  case True
  let ?s = "s\<lparr>cross_arena_roots :=
        (cross_arena_roots s)(a := cross_arena_roots s a \<union> ref_ptr ` Set.filter (installs w a) ptrs)\<rparr>"
  have new: "(a, p) \<in> reaches G w as" if "p \<in> ref_ptr ` Set.filter (installs w a) ptrs" for p
    using that assms(3,4) True by (auto simp: deliverable_def installs_def)
  have inst: "installed_ok G w as ?s" using assms(2) new by (auto simp: round_inv_def)
  have sound: "mark_sound G w as ?s" using assms(2) by (simp add: round_inv_def mark_sound_def)
  have closed: "arena_closed G w D s b" if "b \<in> set as" "has_arena w b" for b
    using assms(2) that by (simp add: round_inv_def)
  have "arena_closed G w D (mark_arena w a ?s) b" if "b \<in> set as" "has_arena w b" for b
  proof (cases "b = a")
    case True
    show ?thesis unfolding True
      by (rule mark_arena_closed [OF assms(1)])
        (use closed that True in \<open>auto simp: arena_closed_def\<close>)
  next
    case False
    then show ?thesis
      using closed [OF that] arena_closed_other [OF _ assms(1) \<open>has_arena w a\<close>, of D ?s b]
      by (simp add: arena_closed_def)
  qed
  moreover have "mark_sound G w as (mark_arena w a ?s)"
    by (rule mark_arena_sound [OF assms(1) True assms(3) sound]) (use inst assms(3) True in blast)
  ultimately show ?thesis using True inst by (simp add: mark_objects_def round_inv_def)
qed (use assms(2) in \<open>simp add: mark_objects_def\<close>)

abbreviation dispatch :: "gc_world \<Rightarrow> cross_ref set \<Rightarrow> nat \<Rightarrow> mark_state \<Rightarrow> mark_state" where
  "dispatch w fresh \<equiv>
     (\<lambda>a s. let ptrs = Set.filter (\<lambda>r. ref_arena r = a) fresh in if ptrs = {} then s else mark_objects w a ptrs s)"

lemma dispatch_roots:
  "cross_arena_roots s b \<subseteq> cross_arena_roots (dispatch w fresh a s) b"
  "r \<in> fresh \<Longrightarrow> deliverable w as r \<Longrightarrow> ref_arena r = a \<Longrightarrow> ref_ptr r \<in> cross_arena_roots (dispatch w fresh a s) a"
  by (auto simp: Let_def mark_objects_def deliverable_def installs_def)

lemma fold_dispatch:
  assumes "marker_ok G w" "set xs \<subseteq> set as" "round_inv G w as D s"
    "\<forall>r \<in> fresh. deliverable w as r \<longrightarrow> (ref_arena r, ref_ptr r) \<in> reaches G w as"
  shows "round_inv G w as D (fold (dispatch w fresh) xs s) \<and>
    (\<forall>b. cross_arena_roots s b \<subseteq> cross_arena_roots (fold (dispatch w fresh) xs s) b) \<and>
    (\<forall>r \<in> fresh. deliverable w as r \<longrightarrow> ref_arena r \<in> set xs \<longrightarrow>
      ref_ptr r \<in> cross_arena_roots (fold (dispatch w fresh) xs s) (ref_arena r))"
  using assms(2,3)
proof (induction xs arbitrary: s)
  case (Cons a xs)
  let ?s = "dispatch w fresh a s"
  have "round_inv G w as D (mark_objects w a (Set.filter (\<lambda>r. ref_arena r = a) fresh) s)"
    by (rule mark_objects_inv [OF assms(1) Cons.prems(2)]) (use Cons.prems(1) assms(4) in auto)
  then have "round_inv G w as D ?s" using Cons.prems(2) unfolding Let_def by presburger
  then have IH: "round_inv G w as D (fold (dispatch w fresh) xs ?s) \<and>
    (\<forall>b. cross_arena_roots ?s b \<subseteq> cross_arena_roots (fold (dispatch w fresh) xs ?s) b) \<and>
    (\<forall>r \<in> fresh. deliverable w as r \<longrightarrow> ref_arena r \<in> set xs \<longrightarrow>
      ref_ptr r \<in> cross_arena_roots (fold (dispatch w fresh) xs ?s) (ref_arena r))"
    using Cons.IH [of ?s] Cons.prems(1) by (meson set_subset_Cons subset_trans)
  then have grow: "cross_arena_roots ?s b \<subseteq> cross_arena_roots (fold (dispatch w fresh) xs ?s) b" for b by blast
  have sent: "ref_ptr r \<in> cross_arena_roots (fold (dispatch w fresh) xs ?s) (ref_arena r)"
    if "r \<in> fresh" "deliverable w as r" "ref_arena r \<in> set (a # xs)" for r
  proof (cases "ref_arena r = a")
    case True
    have "ref_ptr r \<in> cross_arena_roots ?s a" by (rule dispatch_roots(2) [OF that(1,2) True])
    then show ?thesis unfolding True by (rule subsetD [OF grow])
  next
    case False
    then have "ref_arena r \<in> set xs" using that(3) by simp
    then show ?thesis using IH [THEN conjunct2, THEN conjunct2] that(1,2) by blast
  qed
  have mono: "cross_arena_roots s b \<subseteq> cross_arena_roots (fold (dispatch w fresh) xs ?s) b" for b
    by (rule subset_trans [OF dispatch_roots(1) grow])
  show ?case unfolding fold_Cons comp_apply using IH [THEN conjunct1] mono sent by blast
qed simp

text \<open>The references that can be found at all.\<close>

definition universe :: "object_graph \<Rightarrow> gc_world \<Rightarrow> nat list \<Rightarrow> cross_ref set" where
  "universe G w as = (\<Union>a \<in> {a \<in> set as. has_arena w a}. found_refs G w a {p. (a, p) \<in> reaches G w as})"

lemma universe_reaches:
  assumes "r \<in> universe G w as" "deliverable w as r"
  shows "(ref_arena r, ref_ptr r) \<in> reaches G w as"
  using assms unfolding universe_def found_refs_def by (auto intro: reaches.root_ref reaches.foreign)

lemma round_inv_refs: "round_inv G w as D s \<Longrightarrow> cross_arena_refs s \<subseteq> universe G w as"
  by (simp add: round_inv_def mark_sound_def universe_def)

lemma round_inv_take:
  assumes "round_inv G w as D s"
  shows "round_inv G w as (D \<union> (cross_arena_refs s - D)) (s\<lparr>cross_arena_refs := {}\<rparr>)"
  using assms by (auto simp: round_inv_def mark_sound_def arena_closed_def)

lemma dispatch_round_inv:
  assumes "marker_ok G w" "round_inv G w as D s" "delivered w as D s" "fresh = cross_arena_refs s - D"
  shows "round_inv G w as (D \<union> fresh) (dispatch_round w as fresh s)"
    "delivered w as (D \<union> fresh) (dispatch_round w as fresh s)"
proof -
  have "\<forall>r \<in> fresh. deliverable w as r \<longrightarrow> (ref_arena r, ref_ptr r) \<in> reaches G w as"
    using universe_reaches round_inv_refs [OF assms(2)] assms(4) by blast
  note step = fold_dispatch [OF assms(1) subset_refl round_inv_take [OF assms(2), folded assms(4)] this]
  show "round_inv G w as (D \<union> fresh) (dispatch_round w as fresh s)"
    using step unfolding dispatch_round_def by blast
  show "delivered w as (D \<union> fresh) (dispatch_round w as fresh s)"
    unfolding delivered_def
  proof (intro ballI impI)
    fix r assume r: "r \<in> D \<union> fresh" "deliverable w as r"
    show "ref_ptr r \<in> cross_arena_roots (dispatch_round w as fresh s) (ref_arena r)"
    proof (cases "r \<in> fresh")
      case True
      then show ?thesis using step r(2) unfolding dispatch_round_def deliverable_def by blast
    next
      case False
      then have "ref_ptr r \<in> cross_arena_roots (s\<lparr>cross_arena_refs := {}\<rparr>) (ref_arena r)"
        using r assms(3) by (simp add: delivered_def)
      then show ?thesis using step unfolding dispatch_round_def by blast
    qed
  qed
qed

section \<open>The result\<close>

lemma mark_fixed_point_ends:
  assumes "marker_ok G w" "finite (universe G w as)"
    "round_inv G w as D s" "delivered w as D s" "card (universe G w as - D) < n"
  shows "\<exists>t D'. mark_fixed_point w as n D s = Some t \<and> round_inv G w as D' t \<and> delivered w as D' t \<and>
    cross_arena_refs t = {}"
  using assms(3-)
proof (induction n arbitrary: D s)
  case (Suc n)
  let ?fresh = "cross_arena_refs s - D" and ?t = "dispatch_round w as (cross_arena_refs s - D) s"
  note inv = dispatch_round_inv [OF assms(1) Suc.prems(1,2) refl]
  show ?case
  proof (cases "?fresh = {}")
    case True
    have "round_inv G w as D (s\<lparr>cross_arena_refs := {}\<rparr>)" using round_inv_take [OF Suc.prems(1)] True by simp
    moreover have "delivered w as D (s\<lparr>cross_arena_refs := {}\<rparr>)" using Suc.prems(2) by (simp add: delivered_def)
    ultimately show ?thesis using True by (auto simp: Let_def)
  next
    case False
    have "universe G w as - (D \<union> ?fresh) \<subset> universe G w as - D"
      using False round_inv_refs [OF Suc.prems(1)] by blast
    then have "card (universe G w as - (D \<union> ?fresh)) < card (universe G w as - D)"
      using assms(2) by (meson finite_Diff psubset_card_mono)
    then have "card (universe G w as - (D \<union> ?fresh)) < n" using Suc.prems(3) by linarith
    note IH = Suc.IH [OF inv this]
    show ?thesis
    proof (cases "cross_arena_refs ?t = {}")
      case True
      then have "mark_fixed_point w as (Suc n) D s = Some ?t" using False by (simp add: Let_def)
      then show ?thesis using inv True by blast
    next
      case nonempty: False
      have "mark_fixed_point w as (Suc n) D s = mark_fixed_point w as n (D \<union> ?fresh) ?t"
        using False nonempty by (simp add: Let_def)
      then show ?thesis using IH by simp
    qed
  qed
qed simp

lemma closed_marks_root:
  assumes "arena_closed G w D s a" "p \<in> g_roots G a \<union> cross_arena_roots s a"
  shows "p \<in> marked s a"
  using assms local_reach.local_root unfolding arena_closed_def by blast

lemma fixed_point_complete:
  assumes "round_inv G w as D s" "delivered w as D s" "cross_arena_refs s = {}" "(a, p) \<in> reaches G w as"
  shows "a \<in> set as \<and> has_arena w a \<and> p \<in> marked s a"
proof -
  have closed: "arena_closed G w D s a" if "a \<in> set as" "has_arena w a" for a
    using assms(1) that by (simp add: round_inv_def)
  have target: "ref_arena r \<in> set as \<and> has_arena w (ref_arena r) \<and> ref_ptr r \<in> marked s (ref_arena r)"
    if "a \<in> set as" "has_arena w a" "deliverable w as r" "r \<in> g_root_refs G a \<union> (\<Union>p \<in> marked s a. g_foreign G a p)"
    for a r
  proof -
    have "r \<in> found_refs G w a (marked s a)"
      using that(3,4) by (simp add: found_refs_def deliverable_def installs_def)
    then have "r \<in> D" using closed [OF that(1,2)] assms(3) unfolding arena_closed_def by blast
    then have "ref_ptr r \<in> cross_arena_roots s (ref_arena r)" using assms(2) that(3) by (simp add: delivered_def)
    then show ?thesis using that(3) closed closed_marks_root unfolding deliverable_def by blast
  qed
  show ?thesis using assms(4)
  proof (induction rule: reaches.induct)
    case (root a p)
    then show ?case using closed closed_marks_root by blast
  next
    case (root_ref a r)
    then show ?case using target by blast
  next
    case (edge a p q)
    then show ?case using closed unfolding arena_closed_def by blast
  next
    case (foreign a p r)
    then show ?case using target by blast
  qed
qed

lemma first_phase:
  assumes "marker_ok G w" "\<forall>a. marked s a = {}"
  shows "round_inv G w as {} (fold (mark_all w) as (s\<lparr>cross_arena_refs := {}\<rparr>))"
proof -
  let ?t = "fold (mark_all w) as (s\<lparr>cross_arena_refs := {}\<rparr>)"
  have "mark_sound G w as (s\<lparr>cross_arena_refs := {}\<rparr>)" using assms(2) by (simp add: mark_sound_def)
  from fold_mark_all [OF assms(1) subset_refl this] assms(2)
  have "mark_sound G w as ?t"
    "\<forall>b. has_arena w b \<longrightarrow> b \<in> set as \<longrightarrow> cross_arena_roots ?t b = {} \<and> arena_closed G w {} ?t b"
    by simp_all
  then show ?thesis unfolding round_inv_def by (metis empty_iff)
qed

text \<open>
  C2: Marking all arenas ends and marks exactly the live objects. From any state in which nothing is marked, with roots and
  references left over from earlier collections, the rounds of \<open>collect_all_arenas\<close> end once their number exceeds the number of
  references that can be found, and the marked objects of an arena that runs are exactly those reachable from the
  roots of all arenas through references inside arenas and through references into an arena whose registration is
  the one they name and is live.
\<close>

theorem mark_all_arenas_exact:
  assumes "marker_ok G w" "\<forall>a. marked s a = {}" "initiator \<in> set as"
    "finite (universe G w as)" "card (universe G w as) < n"
  shows "\<exists>t. mark_all_arenas w as initiator n s = Ok (Some t) \<and> cross_arena_refs t = {} \<and>
    (\<forall>a p. p \<in> marked t a \<longleftrightarrow> (a, p) \<in> reaches G w as)"
proof -
  have "delivered w as {} x" for x by (simp add: delivered_def)
  moreover have "card (universe G w as - {}) < n" using assms(5) by simp
  ultimately obtain t D where t: "mark_fixed_point w as n {} (fold (mark_all w) as (s\<lparr>cross_arena_refs := {}\<rparr>)) = Some t"
    "round_inv G w as D t" "delivered w as D t" "cross_arena_refs t = {}"
    using mark_fixed_point_ends [OF assms(1,4) first_phase [OF assms(1,2)]] by meson
  have "p \<in> marked t a \<longleftrightarrow> (a, p) \<in> reaches G w as" for a p
    using fixed_point_complete [OF t(2-4)] t(2) unfolding round_inv_def mark_sound_def by blast
  then show ?thesis using t(1,4) assms(3) by (simp add: mark_all_arenas_def)
qed

section \<open>A sample\<close>

text \<open>
  Two arenas whose objects refer to each other in a cycle, and a reference to an earlier registration of the first
  arena, which its owner refuses.
\<close>

abbreviation sample_ref :: "nat \<Rightarrow> nat \<Rightarrow> nat \<Rightarrow> cross_ref" where
  "sample_ref a g p \<equiv> \<lparr>ref_arena = a, ref_generation = g, ref_ptr = p\<rparr>"

definition sample_edges :: "nat \<Rightarrow> nat \<Rightarrow> nat set" where
  "sample_edges a p = (if a = 1 \<and> p = 10 then {11} else if a = 2 \<and> p = 20 then {21} else {})"

definition sample_graph :: object_graph where
  "sample_graph = \<lparr>g_roots = (\<lambda>a. if a = 1 then {10} else {}), g_edges = sample_edges, g_root_refs = (\<lambda>_. {}),
     g_foreign = (\<lambda>a p.
       if a = 1 \<and> (p = 11 \<or> p = 12) then {sample_ref 2 0 20}
       else if a = 2 \<and> p = 21 then {sample_ref 1 4 12, sample_ref 1 3 13} else {})\<rparr>"

definition sample_marker :: "nat \<Rightarrow> nat set \<Rightarrow> nat set \<Rightarrow> nat set \<times> cross_ref set" where
  "sample_marker a X M =
     (let R = g_roots sample_graph a \<union> X; ms = M \<union> (R \<union> (\<Union>p \<in> R. sample_edges a p)) in
      (ms, \<Union>p \<in> ms. g_foreign sample_graph a p))"

definition sample_gc_world :: gc_world where
  "sample_gc_world = \<lparr>has_arena = (\<lambda>_. True), arena_identity = (\<lambda>a. if a = 1 then Some (1, 4) else Some (a, 0)),
     lease_live = (\<lambda>i. i = (1, 4) \<or> i = (2, 0)), finish_marking = sample_marker\<rparr>"

definition sample_state :: mark_state where
  "sample_state = \<lparr>marked = (\<lambda>_. {}), cross_arena_roots = (\<lambda>_. {13}), cross_arena_refs = {sample_ref 1 4 13}\<rparr>"

lemma sample_edges_two: "q \<in> sample_edges a p \<Longrightarrow> sample_edges a q = {}"
  by (auto simp: sample_edges_def split: if_splits)

lemma sample_local_reach: "local_reach sample_graph a X = X \<union> (\<Union>p \<in> X. sample_edges a p)"
proof (intro set_eqI iffI)
  fix p assume "p \<in> local_reach sample_graph a X"
  then show "p \<in> X \<union> (\<Union>p \<in> X. sample_edges a p)"
    by (induction rule: local_reach.induct) (auto simp: sample_graph_def dest: sample_edges_two)
next
  fix p assume "p \<in> X \<union> (\<Union>p \<in> X. sample_edges a p)"
  then show "p \<in> local_reach sample_graph a X"
    by (auto simp: sample_graph_def intro: local_reach.intros)
qed

lemma sample_marker_ok: "marker_ok sample_graph sample_gc_world"
proof -
  have "g_root_refs sample_graph a = {}" for a by (simp add: sample_graph_def)
  then show ?thesis
    unfolding marker_ok_def by (auto simp: sample_gc_world_def sample_marker_def sample_local_reach Let_def)
qed

lemma sample_reaches:
  "(a, p) \<in> reaches sample_graph sample_gc_world [1, 2] \<longleftrightarrow> (a, p) \<in> {(1, 10), (1, 11), (1, 12), (2, 20), (2, 21)}"
proof
  show "(a, p) \<in> {(1, 10), (1, 11), (1, 12), (2, 20), (2, 21)}" if "(a, p) \<in> reaches sample_graph sample_gc_world [1, 2]"
    using that by (induction rule: reaches.induct)
      (auto simp: sample_graph_def sample_edges_def sample_gc_world_def deliverable_def installs_def split: if_splits)
  have 10: "(1, 10) \<in> reaches sample_graph sample_gc_world [1, 2]"
    by (rule reaches.root) (simp_all add: sample_graph_def sample_gc_world_def)
  have 11: "(1, 11) \<in> reaches sample_graph sample_gc_world [1, 2]"
    by (rule reaches.edge [OF 10]) (simp add: sample_graph_def sample_edges_def)
  have 20: "(2, 20) \<in> reaches sample_graph sample_gc_world [1, 2]"
    using reaches.foreign [OF 11, of "sample_ref 2 0 20"]
    by (simp add: sample_graph_def sample_gc_world_def deliverable_def installs_def)
  have 21: "(2, 21) \<in> reaches sample_graph sample_gc_world [1, 2]"
    by (rule reaches.edge [OF 20]) (simp add: sample_graph_def sample_edges_def)
  have 12: "(1, 12) \<in> reaches sample_graph sample_gc_world [1, 2]"
    using reaches.foreign [OF 21, of "sample_ref 1 4 12"]
    by (simp add: sample_graph_def sample_gc_world_def deliverable_def installs_def)
  show "(a, p) \<in> reaches sample_graph sample_gc_world [1, 2]" if "(a, p) \<in> {(1, 10), (1, 11), (1, 12), (2, 20), (2, 21)}"
    using that 10 11 12 20 21 by auto
qed

lemma sample_universe: "universe sample_graph sample_gc_world [1, 2] \<subseteq> {sample_ref 2 0 20, sample_ref 1 4 12}"
  by (auto simp: universe_def found_refs_def sample_graph_def sample_gc_world_def split: if_splits)

theorem mark_all_arenas_exact_witness:
  "\<exists>t. mark_all_arenas sample_gc_world [1, 2] 1 3 sample_state = Ok (Some t) \<and>
    {10, 11, 12} \<subseteq> marked t 1 \<and> 13 \<notin> marked t 1 \<and> marked t 2 = {20, 21}"
proof -
  let ?U = "universe sample_graph sample_gc_world [1, 2]"
  have U: "finite ?U" "card ?U < 3"
    using finite_subset [OF sample_universe] card_mono [OF _ sample_universe] by simp_all
  have "\<forall>a. marked sample_state a = {}" "1 \<in> set [1, 2 :: nat]" by (simp_all add: sample_state_def)
  from mark_all_arenas_exact [OF sample_marker_ok this U] show ?thesis
    unfolding sample_reaches by (auto simp del: One_nat_def)
qed

end
