(* ===== verification/Spec2Isabelle.thy ===== *)
theory Spec2Isabelle
  imports Layout_Factory Cts_Cli Sync_Block Call_Return Assign_Props Stop_World Gc_Mark
begin

text \<open>
  A verification development for dotnet-rs, a virtual machine for .NET CLI assemblies written in Rust. Paths below are
  relative to \<open>src/crates/\<close>. The build modelled is the default one: the only optional feature that is on is
  \<open>multithreading\<close>, the host has 64 bits, and plain integer operators check for overflow.

  \<^bold>\<open>The program.\<close> The interpreter of a thread keeps call frames and one evaluation stack in an execution context.
  Instructions pop stack values, work on them or on storage, and push results. Storage has the layout that the layout
  factory computes for a type; object references and managed pointers are encoded into it as tagged words. Calls and
  returns move frames, exceptions search and unwind them. Threads share the static fields of types, whose constructors
  run once, the monitors of objects, and the collector. Each thread owns an arena of the heap; a collection stops all
  threads and has each mark and sweep its own arena, until no reference between arenas is left to follow. Casts and
  method lookup ask the type comparer.

  \<^bold>\<open>Conventions.\<close> A fallible function returns \<^typ>\<open>('e, 'a) outcome\<close>: a value, an error of the source, or \<^const>\<open>Panic\<close> where the
  host would abort (failed assertion, overflow, index out of range). Integers whose width matters are words; sizes and
  counts are natural numbers with the check against \<^const>\<open>usize_max\<close> written out. Structures are records, enumerations
  datatypes. What threads share is one state record; a step relation lets them interleave, one step per atomic access or
  critical section. Code outside the repository, and the metadata of the loaded assemblies, are parameters.

  \<^bold>\<open>Theories.\<close>

  \<^item> \<open>Prelude\<close>: machine integers, outcomes, generic lemmas. \<open>Errors\<close>: the errors of \<open>dotnet-types/src/error.rs\<close>. \<open>Bytes\<close>:
    byte images of words; the locale \<open>byte_codec\<close> holds what the encodings need and is interpreted at four widths.

  \<^item> \<open>Gc_Desc\<close>, \<open>Layouts\<close> (\<open>dotnet-value/src/layout.rs\<close>) and \<open>Layout_Factory\<close> (\<open>dotnet-runtime-resolver/src/layout.rs\<close>): bitmaps
    of reference slots, layouts, and the placement of fields. The locale \<open>offset_set\<close> is the set a bitmap stands for. Shown:
    accepted layouts are well formed, their bitmap is exactly the set of references, tracing reads exactly these slots
    within bounds, sequential fields are disjoint and aligned, explicit layouts never overlap a reference with data.

  \<^item> \<open>Object_Ref\<close> (\<open>dotnet-value/src/object/mod.rs\<close>) and \<open>Managed_Ptr\<close> (\<open>dotnet-value/src/pointer\<close>): the storage forms. Shown:
    round trips, exact checked offsets, frame windows within their block, and that the cached read is the plain read.

  \<^item> \<open>Float_Bits\<close>, \<open>Stack_Value\<close> (\<open>dotnet-value/src/stack_value.rs\<close>) and \<open>Cts_Cli\<close> (\<open>dotnet-value/src/cts_cli_conversion.rs\<close>):
    arithmetic, comparison, conversion, loads and stores. Shown: results are exact or the documented exception,
    operands that abort the host are characterised, storage round trips with the one exception that is a defect.

  \<^item> \<open>Frame_Alloc\<close>, \<open>Frames\<close>, \<open>Frame_Storage\<close> (\<open>dotnet-vm-data/src\<close>): frames, the evaluation stack, \<open>localloc\<close> and home blocks.
    Shown: budgets hold over every sequence of operations and a serial never names a second block.

  \<^item> \<open>Ves\<close>, \<open>Exceptions\<close>, \<open>Ves_Sample\<close>, \<open>Exception_Props\<close>, \<open>Unwind_Pass\<close>, \<open>Leave_Filter\<close>, \<open>Call_Return\<close> (\<open>dotnet-exceptions/src/lib.rs\<close>,
    \<open>dotnet-vm/src/stack\<close>): the execution context and exception handling. Shown: the handler always returns, the search finds
    the innermost handler, unwinding runs each finally and fault handler once and from the inside out, filters
    leave no trace, calls and returns balance; two theorems exhibit what \<open>leave\<close> does wrong.

  \<^item> \<open>Statics\<close> (\<open>dotnet-vm/src/statics.rs\<close>) and \<open>Sync_Block\<close> (\<open>dotnet-vm/src/sync\<close>): initialisation and monitors, interleaved. Shown:
    a constructor is handed out once, the wait graph stays acyclic, monitors exclude; the locale \<open>reentrant_lock\<close> is the
    contract that all ways to enter a monitor refine.

  \<^item> \<open>Generics\<close>, \<open>Type_Comparer\<close>, \<open>Assignability\<close>, \<open>Assign_Props\<close> (\<open>dotnet-types/src/generics.rs\<close>, \<open>comparer.rs\<close>): type identity,
    specialization, assignability, method lookup. Shown: identity is equality of canonical forms, specialization is
    substitution, a fresh comparer decides exactly the subtype relation for invariant targets, and the cache of a used
    one can make it answer otherwise.

  \<^item> \<open>Gc_Pressure\<close>, \<open>Gc_Handshake\<close>, \<open>Stop_World\<close>, \<open>Gc_Mark\<close> (\<open>dotnet-utils/src/gc/arena.rs\<close>, \<open>dotnet-vm/src/threading/basic.rs\<close>,
    \<open>dotnet-vm/src/gc/coordinator.rs\<close>): when to collect, how threads stop and take commands, and the marking over all
    arenas. \<open>phase\<close> in the state of the handshake is the place in the code a thread is at. Shown: no assertion of the
    coordinator fails, who is parked when a stop is granted, a command waited for can always be completed, and marking
    ends with exactly the reachable objects marked; three theorems exhibit races: a thread that runs during a
    collection, a lost resume signal, a lost stop request.

  \<^bold>\<open>Loops and fuel.\<close> Loops over lists are structural. \<^const>\<open>handle_exception\<close> and \<^const>\<open>causes_cycle\<close> are partial functions; that
  they return is proved, for the first in every state, for the second in every reachable wait graph. The walks of the
  comparer run on fuel, as metadata may be cyclic; as many steps as there are supertypes are enough. The rounds of
  marking run on fuel; more rounds than there are references between arenas are enough.

  \<^bold>\<open>Parameters.\<close> The marking inside one arena, the leases of arenas and the state of registration (\<^typ>\<open>gc_world\<close>, with
  \<^const>\<open>marker_ok\<close> as the contract of the collector library), the type resolver and the metadata it returns, the host allocator,
  the answers of filters and the code of handlers.

  \<^bold>\<open>Not modelled.\<close> Reading assemblies, calls into native libraries, the vector kernels, metrics, tracing, macros and build
  tools: they are file access, foreign code, or have no effect on the state above. The instruction handlers and the
  decoder, which combine the operations modelled here; raw access to the heap of the collector library; the
  host implementations of library members; finalization and the sweep of an arena, which work on the colours that library
  keeps; memory orders weaker than sequential consistency; panics that unwind through a collection.
\<close>

end
